(* ===== verification/Prelude.thy ===== *)
theory Prelude
  imports Main "HOL-Library.Word" "HOL-Library.Multiset" "HOL-Library.Monad_Syntax"
begin

unbundle bit_operations_syntax

text \<open>
  What every theory of the development shares: the names of the machine integer
  types, the result type of fallible functions, the byte order conversions of
  \<^verbatim>\<open>core::num\<close> on a little endian host (the only host the driver supports), and the
  collections of rewrite rules that the component proofs use.

  An unsigned Rust integer is a word of its width: the operators wrap, which is what
  the release build of the driver computes. Where an index or a length is
  bounded by a constant of the code it is a \<^typ>\<open>nat\<close>.
\<close>

type_synonym u8 = "8 word"
type_synonym u16 = "16 word"
type_synonym u32 = "32 word"
type_synonym u64 = "64 word"
type_synonym usize = "64 word"

type_synonym ('e, 'a) result = "'e + 'a"

abbreviation Ok :: "'a \<Rightarrow> ('e, 'a) result" where
  "Ok \<equiv> Inr"

abbreviation Err :: "'e \<Rightarrow> ('e, 'a) result" where
  "Err \<equiv> Inl"

text \<open>A call that may panic returns \<open>Err Panic\<close> where the code panics.\<close>

datatype panic = Panic

named_theorems word_nat \<open>readings of word operations as natural numbers\<close>
named_theorems codec \<open>get-after-set rules of encoders and decoders\<close>
named_theorems invs \<open>operations preserve the invariant of their component\<close>

subsection \<open>Results\<close>

definition result_bind :: "('e, 'a) result \<Rightarrow> ('a \<Rightarrow> ('e, 'b) result) \<Rightarrow> ('e, 'b) result" where
  "result_bind r f = (case r of Inl e \<Rightarrow> Inl e | Inr a \<Rightarrow> f a)"

lemma result_bind_simps [simp]:
  "result_bind (Inl e) f = Inl e"
  "result_bind (Inr a) f = f a"
  by (simp_all add: result_bind_def)

lemma result_bind_Inr_iff:
  "result_bind r f = Inr b \<longleftrightarrow> (\<exists>a. r = Inr a \<and> f a = Inr b)"
  by (cases r) simp_all

definition ok_or :: "'a option \<Rightarrow> 'e \<Rightarrow> ('e, 'a) result" where
  "ok_or x e = (case x of None \<Rightarrow> Inl e | Some a \<Rightarrow> Inr a)"

lemma ok_or_simps [simp]:
  "ok_or None e = Inl e"
  "ok_or (Some a) e = Inr a"
  by (simp_all add: ok_or_def)

lemma ok_or_Inr_iff [simp]: "ok_or x e = Inr a \<longleftrightarrow> x = Some a"
  by (cases x) simp_all

text \<open>\<^verbatim>\<open>unwrap\<close> and \<^verbatim>\<open>expect\<close> of an option.\<close>

abbreviation unwrap :: "'a option \<Rightarrow> (panic, 'a) result" where
  "unwrap x \<equiv> ok_or x Panic"

subsection \<open>Words as numbers\<close>

lemma unat_less_two_power: "unat (w :: 'a::len word) < 2 ^ LENGTH('a)"
  by simp

lemma unat_add_no_wrap [word_nat]:
  "unat (a :: 'a::len word) + unat b < 2 ^ LENGTH('a) \<Longrightarrow> unat (a + b) = unat a + unat b"
  by (simp add: unat_word_ariths)

lemma unat_sub_le [word_nat]:
  "b \<le> (a :: 'a::len word) \<Longrightarrow> unat (a - b) = unat a - unat b"
  by (simp add: unat_sub)

lemma unat_mod_word [word_nat]: "unat ((a :: 'a::len word) mod b) = unat a mod unat b"
  by (simp add: unat_mod_distrib)

lemma unat_div_word [word_nat]: "unat ((a :: 'a::len word) div b) = unat a div unat b"
  by (simp add: unat_div_distrib)

lemma unat_min_word [word_nat]: "unat (min (a :: 'a::len word) b) = min (unat a) (unat b)"
  by (simp add: min_def word_le_nat_alt)

lemma unat_and_mask: "unat ((a :: 'a::len word) AND mask n) = unat a mod 2 ^ n"
  unfolding take_bit_eq_mask [symmetric] unsigned_take_bit_eq by (simp only: take_bit_eq_mod)

lemma unat_ucast_up [word_nat]:
  "LENGTH('a) \<le> LENGTH('b) \<Longrightarrow> unat (ucast (w :: 'a::len word) :: 'b::len word) = unat w"
  by (simp add: unsigned_ucast_eq take_bit_nat_eq_self_iff)
    (meson less_le_trans one_le_numeral power_increasing unat_less_two_power)

lemma int_mod_window:
  assumes "- m \<le> (x :: int)" "x < m"
  shows "x mod m = (if 0 \<le> x then x else x + m)"
proof (cases "0 \<le> x")
  case False
  have "x mod m = (x + m) mod m"
    by simp
  also have "\<dots> = x + m"
    using False assms by (intro mod_pos_pos_trivial) auto
  finally show ?thesis
    using False by simp
qed (use assms in simp)

text \<open>\<^verbatim>\<open>u32::div_ceil\<close>.\<close>

definition div_ceil_u32 :: "u32 \<Rightarrow> u32 \<Rightarrow> u32" where
  "div_ceil_u32 a b = (let d = a div b; r = a mod b in if 0 < r then d + 1 else d)"

definition div_ceil :: "nat \<Rightarrow> nat \<Rightarrow> nat" where
  "div_ceil a b = (if a mod b = 0 then a div b else a div b + 1)"

lemma unat_div_ceil_u32 [word_nat]:
  assumes "2 \<le> unat b"
  shows "unat (div_ceil_u32 a b) = div_ceil (unat a) (unat b)"
proof -
  have "unat a div unat b \<le> unat a div 2"
    using assms by (simp add: div_le_mono2)
  also have "\<dots> < 2 ^ 31"
    using unat_less_two_power[of a] by simp
  finally have "unat (a div b + 1) = unat a div unat b + 1"
    by (subst unat_add_no_wrap) (simp_all add: unat_div_word)
  then show ?thesis
    by (auto simp: div_ceil_u32_def div_ceil_def Let_def word_less_nat_alt unat_mod_word unat_div_word)
qed

lemma div_ceil_step: "0 < b \<Longrightarrow> b < a \<Longrightarrow> div_ceil a b = 1 + div_ceil (a - b) b"
  by (auto simp: div_ceil_def le_div_geq le_mod_geq)

lemma div_ceil_one: "0 < a \<Longrightarrow> a \<le> b \<Longrightarrow> div_ceil a b = 1"
  by (cases "a = b") (simp_all add: div_ceil_def)

lemma div_ceil_le_half:
  assumes "2 \<le> b" "a \<le> n"
  shows "div_ceil a b \<le> n div 2 + 1"
proof -
  have "a div b \<le> a div 2"
    using assms(1) by (simp add: div_le_mono2)
  also have "\<dots> \<le> n div 2"
    using assms(2) by (rule div_le_mono)
  finally show ?thesis
    by (simp add: div_ceil_def)
qed

lemma div_ceil_0 [simp]: "div_ceil 0 b = 0"
  by (simp add: div_ceil_def)

subsection \<open>Byte order\<close>

text \<open>\<^verbatim>\<open>to_le_bytes\<close>, \<^verbatim>\<open>from_le_bytes\<close>, \<^verbatim>\<open>to_be\<close> and \<^verbatim>\<open>to_le\<close> of the integer types on a
  little endian host.\<close>

definition u32_to_le_bytes :: "u32 \<Rightarrow> u8 list" where
  "u32_to_le_bytes w = [ucast w, ucast (drop_bit 8 w), ucast (drop_bit 16 w), ucast (drop_bit 24 w)]"

definition u32_from_le_bytes :: "u8 \<Rightarrow> u8 \<Rightarrow> u8 \<Rightarrow> u8 \<Rightarrow> u32" where
  "u32_from_le_bytes b0 b1 b2 b3 =
     ucast b0 OR push_bit 8 (ucast b1) OR push_bit 16 (ucast b2) OR push_bit 24 (ucast b3)"

definition u16_to_be :: "u16 \<Rightarrow> u16" where
  "u16_to_be w = push_bit 8 w OR drop_bit 8 w"

definition u32_to_be :: "u32 \<Rightarrow> u32" where
  "u32_to_be w = u32_from_le_bytes (ucast (drop_bit 24 w)) (ucast (drop_bit 16 w))
                   (ucast (drop_bit 8 w)) (ucast w)"

definition u32_to_le :: "u32 \<Rightarrow> u32" where
  "u32_to_le w = w"

lemma bit_u32_from_le_bytes:
  "bit (u32_from_le_bytes b0 b1 b2 b3) n \<longleftrightarrow>
     (if n < 8 then bit b0 n
      else if n < 16 then bit b1 (n - 8)
      else if n < 24 then bit b2 (n - 16)
      else n < 32 \<and> bit b3 (n - 24))"
  using bit_imp_le_length[of b0 n] bit_imp_le_length[of b1 "n - 8"]
    bit_imp_le_length[of b2 "n - 16"] bit_imp_le_length[of b3 "n - 24"]
  by (auto simp: u32_from_le_bytes_def bit_simps)

lemma u32_to_be_involution [simp]: "u32_to_be (u32_to_be w) = w"
  by (rule bit_word_eqI) (auto simp: u32_to_be_def bit_u32_from_le_bytes bit_simps)

lemma u16_to_be_involution [simp]: "u16_to_be (u16_to_be w) = w"
  by (rule bit_word_eqI) (auto simp: u16_to_be_def bit_simps)

end
