(* ===== verification/Rdma_Types.thy ===== *)
theory Rdma_Types
  imports Prelude
begin

unbundle bit_operations_syntax

text \<open>
  The value types of \<^verbatim>\<open>src/types.rs\<close>: immediate data, message sequence numbers, keys, the
  24 bit type of packet sequence numbers and queue pair numbers with its circular
  arithmetic, access and send flags, queue pair types, path MTUs, scatter gather
  elements, the queue pair parameters and the library's error type; and the packet
  arithmetic of \<^verbatim>\<open>src/utils.rs\<close>.
\<close>

subsection \<open>Imm, Msn and Key\<close>

definition PAGE_SIZE :: nat where
  "PAGE_SIZE = 1024 * 1024 * 2"

definition PSN_MAX_WINDOW_SIZE :: u32 where
  "PSN_MAX_WINDOW_SIZE = push_bit 23 1"

datatype Imm = Imm (imm_get: u32)

definition Imm_new :: "u32 \<Rightarrow> Imm" where
  "Imm_new imm = Imm imm"

definition Imm_into_be :: "Imm \<Rightarrow> u32" where
  "Imm_into_be self = u32_to_be (imm_get self)"

definition Imm_from_be :: "u32 \<Rightarrow> Imm" where
  "Imm_from_be v = Imm_new (u32_to_le v)"

datatype Msn = Msn (msn_get: u16)

definition Msn_new :: "u16 \<Rightarrow> Msn" where
  "Msn_new msn = Msn msn"

definition Msn_into_be :: "Msn \<Rightarrow> u16" where
  "Msn_into_be self = u16_to_be (msn_get self)"

definition Msn_default :: Msn where
  "Msn_default = Msn_new 0"

text \<open>\<^verbatim>\<open>Msn\<close> derives \<^verbatim>\<open>Ord\<close>: the order of the wrapped integer.\<close>

instantiation Msn :: linorder
begin

definition less_eq_Msn :: "Msn \<Rightarrow> Msn \<Rightarrow> bool" where
  "less_eq_Msn a b \<longleftrightarrow> msn_get a \<le> msn_get b"

definition less_Msn :: "Msn \<Rightarrow> Msn \<Rightarrow> bool" where
  "less_Msn a b \<longleftrightarrow> msn_get a < msn_get b"

instance
  by standard (auto simp: less_eq_Msn_def less_Msn_def Msn.expand)

end

datatype Key = Key (key_get: u32)

definition Key_new :: "u32 \<Rightarrow> Key" where
  "Key_new key = Key key"

definition Key_into_be :: "Key \<Rightarrow> u32" where
  "Key_into_be self = u32_to_be (key_get self)"

definition Key_from_be :: "u32 \<Rightarrow> Key" where
  "Key_from_be v = Key_new (u32_to_be v)"

subsection \<open>ThreeBytesStruct: Psn and Qpn\<close>

datatype ThreeBytesStruct = ThreeBytesStruct (psn_get: u32)

type_synonym Psn = ThreeBytesStruct
type_synonym Qpn = ThreeBytesStruct

definition MASK :: u32 where
  "MASK = drop_bit 8 (- 1)"

definition BORDER :: u32 where
  "BORDER = MASK + 1"

definition psn_new :: "u32 \<Rightarrow> ThreeBytesStruct" where
  "psn_new key = ThreeBytesStruct (key AND MASK)"

definition into_be :: "ThreeBytesStruct \<Rightarrow> u32" where
  "into_be self = (let key = u32_to_le_bytes (psn_get self)
                   in u32_from_le_bytes (key ! 2) (key ! 1) (key ! 0) 0)"

definition from_be :: "u32 \<Rightarrow> ThreeBytesStruct" where
  "from_be v = (let key = u32_to_le_bytes v
                in psn_new (u32_from_le_bytes (key ! 2) (key ! 1) (key ! 0) 0))"

definition wrapping_add :: "ThreeBytesStruct \<Rightarrow> u32 \<Rightarrow> ThreeBytesStruct" where
  "wrapping_add self rhs = ThreeBytesStruct ((psn_get self + rhs) mod BORDER)"

definition wrapping_sub :: "ThreeBytesStruct \<Rightarrow> u32 \<Rightarrow> ThreeBytesStruct" where
  "wrapping_sub self rhs = (let rhs = rhs mod BORDER in
     if psn_get self \<ge> rhs then ThreeBytesStruct (psn_get self - rhs)
     else ThreeBytesStruct (BORDER - rhs + psn_get self))"

definition wrapping_abs :: "ThreeBytesStruct \<Rightarrow> Psn \<Rightarrow> u32" where
  "wrapping_abs self rhs =
     (if psn_get self \<ge> psn_get rhs then psn_get self - psn_get rhs
      else psn_get self + BORDER - psn_get rhs)"

definition larger_in_psn :: "ThreeBytesStruct \<Rightarrow> Psn \<Rightarrow> bool" where
  "larger_in_psn self rhs =
     (let diff = psn_get (wrapping_sub self (psn_get rhs)) in diff \<le> PSN_MAX_WINDOW_SIZE)"

text \<open>The type invariant of the 24 bit struct.\<close>

definition psn_ok :: "ThreeBytesStruct \<Rightarrow> bool" where
  "psn_ok p \<longleftrightarrow> psn_get p \<le> MASK"

subsection \<open>Flags, enumerations and parameter structs\<close>

type_synonym MemAccessTypeFlag = u8

definition IbvAccessNoFlags :: MemAccessTypeFlag where "IbvAccessNoFlags = 0"
definition IbvAccessLocalWrite :: MemAccessTypeFlag where "IbvAccessLocalWrite = 1"
definition IbvAccessRemoteWrite :: MemAccessTypeFlag where "IbvAccessRemoteWrite = 2"
definition IbvAccessRemoteRead :: MemAccessTypeFlag where "IbvAccessRemoteRead = 4"
definition IbvAccessRemoteAtomic :: MemAccessTypeFlag where "IbvAccessRemoteAtomic = 8"

text \<open>\<^verbatim>\<open>contains\<close> of the bitflags crate: every bit of the argument is set.\<close>

definition flag_contains :: "u8 \<Rightarrow> u8 \<Rightarrow> bool" where
  "flag_contains self other \<longleftrightarrow> self AND other = other"

type_synonym WorkReqSendFlag = u8

datatype QpType = Rc | Uc | Ud | RawPacket | XrcSend | XrcRecv

fun QpType_discr :: "QpType \<Rightarrow> u8" where
  "QpType_discr Rc = 2"
| "QpType_discr Uc = 3"
| "QpType_discr Ud = 4"
| "QpType_discr RawPacket = 8"
| "QpType_discr XrcSend = 9"
| "QpType_discr XrcRecv = 10"

definition QpType_try_from :: "u8 \<Rightarrow> QpType option" where
  "QpType_try_from v =
     (if v = 2 then Some Rc else if v = 3 then Some Uc else if v = 4 then Some Ud
      else if v = 8 then Some RawPacket else if v = 9 then Some XrcSend
      else if v = 10 then Some XrcRecv else None)"

datatype Pmtu = Mtu256 | Mtu512 | Mtu1024 | Mtu2048 | Mtu4096

fun Pmtu_discr :: "Pmtu \<Rightarrow> u8" where
  "Pmtu_discr Mtu256 = 1"
| "Pmtu_discr Mtu512 = 2"
| "Pmtu_discr Mtu1024 = 3"
| "Pmtu_discr Mtu2048 = 4"
| "Pmtu_discr Mtu4096 = 5"

fun pmtu_u64 :: "Pmtu \<Rightarrow> u64" where
  "pmtu_u64 Mtu256 = 256"
| "pmtu_u64 Mtu512 = 512"
| "pmtu_u64 Mtu1024 = 1024"
| "pmtu_u64 Mtu2048 = 2048"
| "pmtu_u64 Mtu4096 = 4096"

fun pmtu_u32 :: "Pmtu \<Rightarrow> u32" where
  "pmtu_u32 Mtu256 = 256"
| "pmtu_u32 Mtu512 = 512"
| "pmtu_u32 Mtu1024 = 1024"
| "pmtu_u32 Mtu2048 = 2048"
| "pmtu_u32 Mtu4096 = 4096"

record Sge =
  sge_addr :: u64
  sge_len :: u32
  sge_key :: Key

definition Sge_new :: "u64 \<Rightarrow> u32 \<Rightarrow> Key \<Rightarrow> Sge" where
  "Sge_new addr len key = \<lparr> sge_addr = addr, sge_len = len, sge_key = key \<rparr>"

text \<open>An IPv4 address is its 32 bit integer, a MAC address the six bytes of \<^verbatim>\<open>eui48\<close>.\<close>

type_synonym Ipv4Addr = u32
type_synonym MacAddress = "u8 list"

record RdmaDeviceNetworkParam =
  np_gateway :: Ipv4Addr
  np_netmask :: Ipv4Addr
  np_ipaddr :: Ipv4Addr
  np_macaddr :: MacAddress

text \<open>A protection domain is its handle (\<^verbatim>\<open>src/pd.rs\<close>).\<close>

record Pd =
  pd_handle :: u32

record Qp =
  qp_pd :: Pd
  qp_qpn :: Qpn
  qp_peer_qpn :: Qpn
  qp_qp_type :: QpType
  qp_rq_acc_flags :: MemAccessTypeFlag
  qp_pmtu :: Pmtu
  qp_dqp_ip :: Ipv4Addr
  qp_dqp_mac :: MacAddress

datatype Error =
    Device string
  | DeviceBusy
  | DeviceReturnFailed string
  | Invalid string
  | PdInUse string
  | ResourceNoAvailable string
  | BuildDescFailed string
  | AddressNotAlign string usize
  | CreateOpCtxFailed
  | SetCtxResultFailed
  | GetPhysAddrFailed string
  | NotSupport string
  | PipeBroken string

subsection \<open>Packet arithmetic\<close>

definition get_first_packet_max_length :: "u64 \<Rightarrow> u32 \<Rightarrow> u32" where
  "get_first_packet_max_length va pmtu =
     (let offset = (ucast (va mod ucast pmtu) :: u32) in pmtu - offset)"

definition calculate_packet_cnt :: "Pmtu \<Rightarrow> u64 \<Rightarrow> u32 \<Rightarrow> u32" where
  "calculate_packet_cnt pmtu raddr total_len =
     (let first_pkt_max_len = get_first_packet_max_length raddr (pmtu_u32 pmtu);
          first_pkt_len = min total_len first_pkt_max_len
      in 1 + div_ceil_u32 (total_len - first_pkt_len) (pmtu_u32 pmtu))"

definition u8_slice_to_u64 :: "u8 list \<Rightarrow> u64" where
  "u8_slice_to_u64 bytes = fold (\<lambda>b a. push_bit 8 a + ucast b) bytes 0"

definition align_up :: "usize \<Rightarrow> usize \<Rightarrow> usize" where
  "align_up PAGE addr = ((addr + (PAGE - 1)) div PAGE) * PAGE"

subsection \<open>Laws of the 24 bit arithmetic\<close>

lemma MASK_eq: "MASK = 0xFFFFFF"
  by (simp add: MASK_def mask_eq_exp_minus_1)

lemma BORDER_eq: "BORDER = 0x1000000"
  by (simp add: BORDER_def MASK_eq)

lemma PSN_MAX_WINDOW_SIZE_eq: "PSN_MAX_WINDOW_SIZE = 0x800000"
  by (simp add: PSN_MAX_WINDOW_SIZE_def)

lemma psn_ok_iff: "psn_ok p \<longleftrightarrow> unat (psn_get p) < 2 ^ 24"
  by (auto simp: psn_ok_def MASK_eq word_le_nat_alt)

lemma MASK_mask: "MASK = mask 24"
  by (simp add: MASK_eq mask_eq_exp_minus_1)

lemma unat_psn_new [word_nat]: "unat (psn_get (psn_new v)) = unat v mod 2 ^ 24"
  by (simp only: psn_new_def ThreeBytesStruct.sel MASK_mask unat_and_mask)

lemma unat_wrapping_add [word_nat]:
  "unat (psn_get (wrapping_add p r)) = (unat (psn_get p) + unat r) mod 2 ^ 24"
  by (simp add: wrapping_add_def BORDER_eq unat_mod_word unat_word_ariths mod_mod_cancel)

lemma uint_wrapping_sub:
  assumes "psn_ok p"
  shows "uint (psn_get (wrapping_sub p r)) = (uint (psn_get p) - uint r) mod 2 ^ 24"
proof -
  define a where "a = unat (psn_get p)"
  define b where "b = unat r mod 2 ^ 24"
  have ab: "a < 2 ^ 24" "b < 2 ^ 24"
    using assms by (simp_all add: psn_ok_iff a_def b_def)
  have b: "unat (r mod BORDER) = b"
    by (simp add: BORDER_eq unat_mod_word b_def)
  have "unat (psn_get (wrapping_sub p r)) = (if b \<le> a then a - b else 2 ^ 24 - b + a)"
  proof (cases "b \<le> a")
    case True
    then show ?thesis
      by (simp add: wrapping_sub_def Let_def word_le_nat_alt b flip: a_def)
        (simp add: unat_sub_le word_le_nat_alt b flip: a_def)
  next
    case False
    have "r mod BORDER \<le> BORDER"
      using ab b by (simp add: word_le_nat_alt BORDER_eq)
    then have "unat (BORDER - r mod BORDER) = 2 ^ 24 - b"
      by (simp only: unat_sub_le b) (simp add: BORDER_eq)
    with False ab have "unat (BORDER - r mod BORDER + psn_get p) = 2 ^ 24 - b + a"
      by (subst unat_add_no_wrap) (simp_all flip: a_def)
    with False show ?thesis
      by (simp add: wrapping_sub_def Let_def word_le_nat_alt b flip: a_def)
  qed
  then have "uint (psn_get (wrapping_sub p r)) = (if b \<le> a then int a - int b else 2 ^ 24 - int b + int a)"
    using ab unfolding uint_nat by (simp add: of_nat_diff)
  also have "\<dots> = (int a - int b) mod 2 ^ 24"
    using ab by (subst int_mod_window) auto
  also have "\<dots> = (int a - int (unat r)) mod 2 ^ 24"
    by (simp add: b_def zmod_int mod_diff_right_eq)
  finally show ?thesis
    by (simp add: a_def)
qed

lemma psn_eqI: "uint (psn_get p) = uint (psn_get q) \<Longrightarrow> p = q"
  by (cases p; cases q) (simp add: word_uint_eq_iff)

lemma psn_ok_int: "psn_ok p \<longleftrightarrow> uint (psn_get p) < 2 ^ 24"
  using of_nat_less_iff[of "unat (psn_get p)" "2 ^ 24", where 'a = int]
  by (simp add: psn_ok_iff)

lemma uint_wrapping_add:
  "uint (psn_get (wrapping_add p r)) = (uint (psn_get p) + uint r) mod 2 ^ 24"
  unfolding uint_nat by (simp add: unat_wrapping_add zmod_int)

lemma psn_ok_new [invs, simp]: "psn_ok (psn_new v)"
  by (simp add: psn_ok_iff unat_psn_new)

lemma psn_ok_wrapping_add [invs, simp]: "psn_ok (wrapping_add p r)"
  by (simp add: psn_ok_iff unat_wrapping_add)

lemma psn_ok_wrapping_sub [invs]: "psn_ok p \<Longrightarrow> psn_ok (wrapping_sub p r)"
  by (simp add: psn_ok_int uint_wrapping_sub)

lemma psn_ok_from_be [invs, simp]: "psn_ok (from_be v)"
  by (simp add: from_be_def Let_def)

lemma psn_mod_self: "psn_ok p \<Longrightarrow> uint (psn_get p) mod 16777216 = uint (psn_get p)"
  by (simp add: psn_ok_int)

lemma psn_eqI_unat: "unat (psn_get p) = unat (psn_get q) \<Longrightarrow> p = q"
  by (cases p; cases q) (simp add: word_unat_eq_iff)

lemma psn_new_get: "psn_ok p \<Longrightarrow> psn_new (psn_get p) = p"
  by (rule psn_eqI_unat) (simp add: unat_psn_new psn_ok_iff)

text \<open>
  Addition and subtraction of packet sequence numbers are inverse to each other
  in the ring of the integers modulo \<open>2 ^ 24\<close>, for every 32 bit offset: the 32 bit
  overflow of the intermediate sum never shows.
\<close>

lemma wrapping_add_sub_inverse:
  assumes "psn_ok p"
  shows "wrapping_sub (wrapping_add p r) r = p \<and> wrapping_add (wrapping_sub p r) r = p"
proof
  show "wrapping_sub (wrapping_add p r) r = p"
    by (rule psn_eqI)
      (simp add: uint_wrapping_sub uint_wrapping_add mod_diff_left_eq psn_mod_self assms)
  show "wrapping_add (wrapping_sub p r) r = p"
    by (rule psn_eqI)
      (simp add: uint_wrapping_sub uint_wrapping_add mod_add_left_eq psn_mod_self assms)
qed

lemma wrapping_abs_eq:
  assumes "psn_ok p" "psn_ok q"
  shows "wrapping_abs p q = psn_get (wrapping_sub p (psn_get q))"
proof -
  have "psn_get q mod BORDER = psn_get q"
    using assms(2) by (simp add: word_unat_eq_iff unat_mod_word BORDER_eq psn_ok_iff)
  then show ?thesis
    by (simp add: wrapping_abs_def wrapping_sub_def Let_def)
qed

lemma larger_in_psn_iff:
  "psn_ok p \<Longrightarrow> larger_in_psn p q \<longleftrightarrow> (uint (psn_get p) - uint (psn_get q)) mod 2 ^ 24 \<le> 2 ^ 23"
  by (simp add: larger_in_psn_def Let_def PSN_MAX_WINDOW_SIZE_eq word_le_def uint_wrapping_sub)

text \<open>
  The circular comparison of sequence numbers is total, and it orders two
  numbers both ways only when they are equal or exactly half the sequence space
  apart. The comment on the function promises a strict half space; the code
  accepts the distance \<open>2 ^ 23\<close> itself, for which both numbers count as larger.
\<close>

lemma larger_in_psn_total:
  assumes "psn_ok p" "psn_ok q"
  shows "(larger_in_psn p q \<or> larger_in_psn q p) \<and>
    ((larger_in_psn p q \<and> larger_in_psn q p) = (p = q \<or> wrapping_abs p q = PSN_MAX_WINDOW_SIZE))"
proof -
  define d where "d = uint (psn_get p) - uint (psn_get q)"
  have d: "- 16777216 < d" "d < 16777216"
    using assms[unfolded psn_ok_int, simplified] uint_ge_0[of "psn_get p"] uint_ge_0[of "psn_get q"]
    unfolding d_def by linarith+
  have pq: "larger_in_psn p q \<longleftrightarrow> d mod 16777216 \<le> 8388608"
    and qp: "larger_in_psn q p \<longleftrightarrow> (- d) mod 16777216 \<le> 8388608"
    using assms by (simp_all add: larger_in_psn_iff d_def)
  have eq: "p = q \<longleftrightarrow> d = 0"
    using psn_eqI[of p q] by (auto simp: d_def)
  have half: "wrapping_abs p q = PSN_MAX_WINDOW_SIZE \<longleftrightarrow> d mod 16777216 = 8388608"
    using assms by (simp add: wrapping_abs_eq word_uint_eq_iff PSN_MAX_WINDOW_SIZE_eq
        uint_wrapping_sub d_def)
  show ?thesis
    unfolding pq qp eq half using d
    by (subst (1 2 3 4 5) int_mod_window) (auto split: if_splits)
qed

subsection \<open>Byte order of the wire types\<close>

lemma bit_into_be:
  "bit (into_be p) n \<longleftrightarrow>
     (if n < 8 then bit (psn_get p) (n + 16)
      else if n < 16 then bit (psn_get p) n
      else n < 24 \<and> bit (psn_get p) (n - 16))"
  by (auto simp: into_be_def Let_def u32_to_le_bytes_def bit_u32_from_le_bytes bit_simps
      numeral_2_eq_2 add.commute)

lemma bit_from_be:
  "bit (psn_get (from_be v)) n \<longleftrightarrow>
     (if n < 8 then bit v (n + 16)
      else if n < 16 then bit v n
      else n < 24 \<and> bit v (n - 16))"
  by (auto simp: from_be_def psn_new_def MASK_mask Let_def u32_to_le_bytes_def
      bit_u32_from_le_bytes bit_simps numeral_2_eq_2 add.commute)

lemma psn_ok_bit: "psn_ok p \<Longrightarrow> bit (psn_get p) n \<Longrightarrow> n < 24"
  by (metis psn_new_get psn_new_def MASK_mask ThreeBytesStruct.sel bit_and_iff bit_mask_iff)

lemma from_be_into_be:
  assumes "psn_ok p"
  shows "from_be (into_be p) = p"
proof -
  have "psn_get (from_be (into_be p)) = psn_get p"
    by (rule bit_word_eqI)
      (auto simp: bit_from_be bit_into_be dest: psn_ok_bit[OF assms])
  then show ?thesis
    by (cases p; cases "from_be (into_be p)") simp
qed

text \<open>
  A 24 bit number survives the conversion to network byte order and back, and so
  does a key. Immediate data does not: \<^const>\<open>Imm_from_be\<close> converts with
  \<^verbatim>\<open>to_le\<close>, which is the identity on the host, so a value that is put on the wire and
  read back comes back with its bytes swapped, and is the same only when it is a
  palindrome of bytes.
\<close>

lemma be_roundtrips:
  assumes "psn_ok p"
  shows "from_be (into_be p) = p \<and> Key_from_be (Key_into_be k) = k \<and>
    Imm_from_be (Imm_into_be i) = Imm (u32_to_be (imm_get i))"
  using from_be_into_be[OF assms]
  by (simp add: Key_from_be_def Key_into_be_def Key_new_def Imm_from_be_def Imm_into_be_def
      Imm_new_def u32_to_le_def)

subsection \<open>Counting packets\<close>

text \<open>
  The reference: a buffer at \<open>va\<close> is cut at every multiple of the path MTU.
\<close>

fun pmtu_chunks :: "nat \<Rightarrow> nat \<Rightarrow> nat \<Rightarrow> (nat \<times> nat) list" where
  "pmtu_chunks pm va len =
     (if pm = 0 \<or> len = 0 then []
      else let n = min len (pm - va mod pm) in (va, n) # pmtu_chunks pm (va + n) (len - n))"

declare pmtu_chunks.simps [simp del]

lemma pmtu_chunks_0 [simp]: "pmtu_chunks pm va 0 = []"
  by (simp add: pmtu_chunks.simps)

lemma pmtu_chunks_length_aligned:
  assumes "0 < pm" "va mod pm = 0"
  shows "length (pmtu_chunks pm va len) = div_ceil len pm"
  using assms
proof (induction pm va len rule: pmtu_chunks.induct)
  case (1 pm va len)
  show ?case
  proof (cases "len \<le> pm")
    case True
    with 1 show ?thesis
      by (subst pmtu_chunks.simps) (simp add: Let_def div_ceil_one)
  next
    case False
    with 1 have "length (pmtu_chunks pm (va + pm) (len - pm)) = div_ceil (len - pm) pm"
      by simp
    with False 1 show ?thesis
      by (subst pmtu_chunks.simps) (simp add: Let_def div_ceil_step)
  qed
qed

lemma pmtu_chunks_length:
  assumes "0 < pm" "0 < len"
  shows "length (pmtu_chunks pm va len) = 1 + div_ceil (len - min len (pm - va mod pm)) pm"
proof (cases "len \<le> pm - va mod pm")
  case False
  have "(va + (pm - va mod pm)) mod pm = 0"
    using assms(1) by (metis add_diff_inverse_nat mod_add_left_eq mod_less_divisor mod_self not_less_iff_gr_or_eq)
  with assms False show ?thesis
    by (subst pmtu_chunks.simps) (simp add: Let_def pmtu_chunks_length_aligned)
qed (use assms in \<open>subst pmtu_chunks.simps, simp add: Let_def\<close>)

lemma sum_pmtu_chunks:
  "0 < pm \<Longrightarrow> sum_list (map snd (pmtu_chunks pm va len)) = len"
  by (induction pm va len rule: pmtu_chunks.induct)
    (subst pmtu_chunks.simps, auto simp: Let_def min_def)

lemma pmtu_chunks_one_page:
  "0 < pm \<Longrightarrow> (a, n) \<in> set (pmtu_chunks pm va len) \<Longrightarrow> 0 < n \<and> a mod pm + n \<le> pm"
proof (induction pm va len rule: pmtu_chunks.induct)
  case (1 pm va len)
  have "va mod pm + min len (pm - va mod pm) \<le> pm"
    using mod_le_divisor[OF 1(2), of va] by linarith
  then show ?case
    using 1 by (subst (asm) (2) pmtu_chunks.simps) (auto simp: Let_def split: if_splits)
qed

lemma pmtu_u32_cases:
  "unat (pmtu_u32 m) \<in> {256, 512, 1024, 2048, 4096}"
  by (cases m) simp_all

lemma unat_get_first_packet_max_length [word_nat]:
  "unat (get_first_packet_max_length va (pmtu_u32 m)) =
     unat (pmtu_u32 m) - unat va mod unat (pmtu_u32 m)"
proof -
  let ?p = "unat (pmtu_u32 m)"
  have p: "0 < ?p" "?p \<le> 4096"
    using pmtu_u32_cases[of m] by auto
  have "unat (va mod ucast (pmtu_u32 m)) = unat va mod ?p"
    by (simp add: unat_mod_word unat_ucast_up)
  moreover have "unat va mod ?p < 4096"
    using p by (meson less_le_trans mod_less_divisor)
  ultimately have "unat (ucast (va mod ucast (pmtu_u32 m)) :: u32) = unat va mod ?p"
    by (simp add: unsigned_ucast_eq take_bit_eq_mod)
  moreover have "unat va mod ?p \<le> ?p"
    using p by (simp add: less_imp_le)
  ultimately show ?thesis
    by (simp add: get_first_packet_max_length_def Let_def unat_sub_le word_le_nat_alt)
qed

lemma unat_calculate_packet_cnt [word_nat]:
  "unat (calculate_packet_cnt pmtu raddr total_len) =
     1 + div_ceil (unat total_len - min (unat total_len) (unat (pmtu_u32 pmtu) - unat raddr mod unat (pmtu_u32 pmtu)))
       (unat (pmtu_u32 pmtu))"
proof -
  let ?p = "unat (pmtu_u32 pmtu)" and ?n = "unat total_len"
  let ?first = "min total_len (get_first_packet_max_length raddr (pmtu_u32 pmtu))"
  have p: "2 \<le> ?p"
    using pmtu_u32_cases[of pmtu] by auto
  have f: "unat ?first = min ?n (?p - unat raddr mod ?p)"
    by (simp add: unat_min_word unat_get_first_packet_max_length)
  have "unat (total_len - ?first) = ?n - min ?n (?p - unat raddr mod ?p)"
    by (simp add: unat_sub_le word_le_nat_alt f)
  then have d: "unat (div_ceil_u32 (total_len - ?first) (pmtu_u32 pmtu)) =
      div_ceil (?n - min ?n (?p - unat raddr mod ?p)) ?p" (is "_ = ?d")
    using p by (simp add: unat_div_ceil_u32)
  have "?d \<le> ?n div 2 + 1"
    using p by (intro div_ceil_le_half) simp_all
  then show ?thesis
    using unat_less_two_power[of total_len]
    by (simp add: calculate_packet_cnt_def Let_def d unat_add_no_wrap)
qed

text \<open>
  C10. \<^const>\<open>calculate_packet_cnt\<close> counts the pieces into which the buffer falls when it is cut
  at every multiple of the path MTU (each piece lies in one MTU page and the pieces
  add up to the buffer); an empty buffer still takes one packet. No step of the
  32 bit computation wraps, whatever the address and the length.
\<close>

theorem calculate_packet_cnt_chunks:
  "unat (calculate_packet_cnt pmtu raddr total_len) =
     max 1 (length (pmtu_chunks (unat (pmtu_u32 pmtu)) (unat raddr) (unat total_len)))"
proof -
  have "0 < unat (pmtu_u32 pmtu)"
    using pmtu_u32_cases[of pmtu] by auto
  then show ?thesis
    by (cases "unat total_len = 0") (simp_all add: unat_calculate_packet_cnt pmtu_chunks_length div_ceil_def)
qed

end
