(* ===== verification/BTree_Map.thy ===== *)
theory BTree_Map
  imports Prelude
begin

text \<open>
  The part of \<^verbatim>\<open>std::collections::BTreeMap\<close> that the driver uses, as an association
  list sorted by key: \<^verbatim>\<open>insert\<close>, \<^verbatim>\<open>remove\<close>, \<^verbatim>\<open>get\<close>, \<^verbatim>\<open>len\<close>, \<^verbatim>\<open>first_key_value\<close> and the two
  \<^verbatim>\<open>range\<close> queries of the sliding window. The locale states what a client may rely on;
  it is interpreted on the list operations below, and the clients use the facts of
  that interpretation.
\<close>

type_synonym ('k, 'v) btree = "('k \<times> 'v) list"

fun bt_insert :: "'k::linorder \<Rightarrow> 'v \<Rightarrow> ('k, 'v) btree \<Rightarrow> ('k, 'v) btree" where
  "bt_insert k v [] = [(k, v)]"
| "bt_insert k v ((a, b) # m) =
     (if k < a then (k, v) # (a, b) # m
      else if k = a then (k, v) # m
      else (a, b) # bt_insert k v m)"

fun bt_remove :: "'k::linorder \<Rightarrow> ('k, 'v) btree \<Rightarrow> ('k, 'v) btree" where
  "bt_remove k [] = []"
| "bt_remove k ((a, b) # m) = (if k = a then m else (a, b) # bt_remove k m)"

definition bt_get :: "('k::linorder, 'v) btree \<Rightarrow> 'k \<Rightarrow> 'v option" where
  "bt_get m = map_of m"

text \<open>\<^verbatim>\<open>range(..=k).next_back()\<close>, \<^verbatim>\<open>range((Excluded(k), Unbounded)).next()\<close> and \<^verbatim>\<open>first_key_value\<close>.\<close>

fun bt_last_le :: "'k::linorder \<Rightarrow> ('k, 'v) btree \<Rightarrow> ('k \<times> 'v) option" where
  "bt_last_le k [] = None"
| "bt_last_le k ((a, b) # m) =
     (if a \<le> k then (case bt_last_le k m of None \<Rightarrow> Some (a, b) | Some x \<Rightarrow> Some x) else None)"

fun bt_first_gt :: "'k::linorder \<Rightarrow> ('k, 'v) btree \<Rightarrow> ('k \<times> 'v) option" where
  "bt_first_gt k [] = None"
| "bt_first_gt k ((a, b) # m) = (if k < a then Some (a, b) else bt_first_gt k m)"

definition bt_first :: "('k::linorder, 'v) btree \<Rightarrow> ('k \<times> 'v) option" where
  "bt_first m = (case m of [] \<Rightarrow> None | x # _ \<Rightarrow> Some x)"

definition bt_invar :: "('k::linorder, 'v) btree \<Rightarrow> bool" where
  "bt_invar m \<longleftrightarrow> sorted_wrt (<) (map fst m)"

subsection \<open>The contract\<close>

locale ordered_map =
  fixes empty :: "'m"
    and get :: "'m \<Rightarrow> 'k::linorder \<Rightarrow> 'v option"
    and ins :: "'k \<Rightarrow> 'v \<Rightarrow> 'm \<Rightarrow> 'm"
    and rem :: "'k \<Rightarrow> 'm \<Rightarrow> 'm"
    and last_le :: "'k \<Rightarrow> 'm \<Rightarrow> ('k \<times> 'v) option"
    and first_gt :: "'k \<Rightarrow> 'm \<Rightarrow> ('k \<times> 'v) option"
    and first :: "'m \<Rightarrow> ('k \<times> 'v) option"
    and invar :: "'m \<Rightarrow> bool"
  assumes invar_empty: "invar empty"
    and invar_ins: "invar m \<Longrightarrow> invar (ins k v m)"
    and invar_rem: "invar m \<Longrightarrow> invar (rem k m)"
    and get_empty: "get empty = Map.empty"
    and get_ins: "invar m \<Longrightarrow> get (ins k v m) = (get m)(k \<mapsto> v)"
    and get_rem: "invar m \<Longrightarrow> get (rem k m) = (get m)(k := None)"
    and last_le_Some: "invar m \<Longrightarrow> last_le k m = Some (a, b) \<Longrightarrow>
          get m a = Some b \<and> a \<le> k \<and> (\<forall>c. get m c \<noteq> None \<longrightarrow> c \<le> k \<longrightarrow> c \<le> a)"
    and last_le_None: "invar m \<Longrightarrow> last_le k m = None \<Longrightarrow> get m c \<noteq> None \<Longrightarrow> k < c"
    and first_gt_Some: "invar m \<Longrightarrow> first_gt k m = Some (a, b) \<Longrightarrow>
          get m a = Some b \<and> k < a \<and> (\<forall>c. get m c \<noteq> None \<longrightarrow> k < c \<longrightarrow> a \<le> c)"
    and first_gt_None: "invar m \<Longrightarrow> first_gt k m = None \<Longrightarrow> get m c \<noteq> None \<Longrightarrow> c \<le> k"
    and first_Some: "invar m \<Longrightarrow> first m = Some (a, b) \<Longrightarrow>
          get m a = Some b \<and> (\<forall>c. get m c \<noteq> None \<longrightarrow> a \<le> c)"
    and first_None: "invar m \<Longrightarrow> first m = None \<longleftrightarrow> get m = Map.empty"
begin

text \<open>The neighbours of a key bound every other entry.\<close>

lemma neighbours:
  assumes "invar m" "get m c = Some d"
  shows "(\<exists>a b. last_le k m = Some (a, b) \<and> c \<le> a) \<or> (\<exists>a b. first_gt k m = Some (a, b) \<and> a \<le> c)"
proof (cases "c \<le> k")
  case True
  then obtain a b where "last_le k m = Some (a, b)"
    using last_le_None[of m k c] assms by (cases "last_le k m") auto
  with True show ?thesis
    using last_le_Some[of m k a b] assms by auto
next
  case False
  then obtain a b where "first_gt k m = Some (a, b)"
    using first_gt_None[of m k c] assms by (cases "first_gt k m") auto
  with False show ?thesis
    using first_gt_Some[of m k a b] assms by auto
qed

text \<open>Replacing one or two entries by another one, as the merges of the sliding window do.\<close>

lemma get_replace1:
  assumes "invar m"
  shows "get (ins a b (rem x m)) c = (if c = a then Some b else if c = x then None else get m c)"
  using assms by (simp add: get_ins get_rem invar_rem)

lemma get_replace2:
  assumes "invar m"
  shows "get (ins a b (rem y (rem x m))) c =
    (if c = a then Some b else if c = x \<or> c = y then None else get m c)"
  using assms by (simp add: get_ins get_rem invar_rem)

end

subsection \<open>The interpretation\<close>

lemma bt_get_Nil [simp]: "bt_get [] = Map.empty"
  by (simp add: bt_get_def)

lemma bt_get_Cons [simp]: "bt_get ((a, b) # m) = (bt_get m)(a \<mapsto> b)"
  by (simp add: bt_get_def)

lemma bt_invar_Nil [simp]: "bt_invar []"
  by (simp add: bt_invar_def)

lemma bt_get_dom: "bt_get m k \<noteq> None \<longleftrightarrow> k \<in> fst ` set m"
  by (auto simp: bt_get_def map_of_eq_None_iff image_iff)

lemma bt_invar_Cons: "bt_invar ((a, b) # m) \<longleftrightarrow> (\<forall>c. bt_get m c \<noteq> None \<longrightarrow> a < c) \<and> bt_invar m"
  unfolding bt_get_dom by (auto simp: bt_invar_def)

lemma bt_get_insert: "bt_get (bt_insert k v m) = (bt_get m)(k \<mapsto> v)"
  by (induction k v m rule: bt_insert.induct) (auto simp: fun_eq_iff)

lemma bt_get_remove: "bt_invar m \<Longrightarrow> bt_get (bt_remove k m) = (bt_get m)(k := None)"
  by (induction k m rule: bt_remove.induct) (auto simp: bt_invar_Cons fun_eq_iff)

lemma bt_invar_insert: "bt_invar m \<Longrightarrow> bt_invar (bt_insert k v m)"
  by (induction k v m rule: bt_insert.induct)
    (auto simp: bt_invar_Cons bt_get_insert dest: order.strict_trans split: if_splits)

lemma bt_invar_remove: "bt_invar m \<Longrightarrow> bt_invar (bt_remove k m)"
  by (induction k m rule: bt_remove.induct) (auto simp: bt_invar_Cons bt_get_remove split: if_splits)

lemma bt_last_le_None: "bt_invar m \<Longrightarrow> bt_last_le k m = None \<Longrightarrow> bt_get m c \<noteq> None \<Longrightarrow> k < c"
  by (induction k m rule: bt_last_le.induct)
    (auto simp: bt_invar_Cons dest: order.strict_trans split: if_splits option.splits)

lemma bt_last_le_Some:
  "bt_invar m \<Longrightarrow> bt_last_le k m = Some (a, b) \<Longrightarrow>
     bt_get m a = Some b \<and> a \<le> k \<and> (\<forall>c. bt_get m c \<noteq> None \<longrightarrow> c \<le> k \<longrightarrow> c \<le> a)"
proof (induction k m rule: bt_last_le.induct)
  case (2 k x y m)
  then show ?case
    using bt_last_le_None[of m k]
    by (auto simp: bt_invar_Cons not_le[symmetric] split: if_splits option.splits)
qed simp

lemma bt_first_gt_None: "bt_first_gt k m = None \<Longrightarrow> bt_get m c \<noteq> None \<Longrightarrow> c \<le> k"
  by (induction k m rule: bt_first_gt.induct) (auto split: if_splits)

lemma bt_first_gt_Some:
  "bt_invar m \<Longrightarrow> bt_first_gt k m = Some (a, b) \<Longrightarrow>
     bt_get m a = Some b \<and> k < a \<and> (\<forall>c. bt_get m c \<noteq> None \<longrightarrow> k < c \<longrightarrow> a \<le> c)"
  by (induction k m rule: bt_first_gt.induct) (auto simp: bt_invar_Cons less_imp_le split: if_splits)

lemma bt_first_Some:
  "bt_invar m \<Longrightarrow> bt_first m = Some (a, b) \<Longrightarrow>
     bt_get m a = Some b \<and> (\<forall>c. bt_get m c \<noteq> None \<longrightarrow> a \<le> c)"
  by (cases m) (auto simp: bt_first_def bt_invar_Cons less_imp_le)

lemma bt_get_empty_iff: "bt_get m = Map.empty \<longleftrightarrow> m = []"
  by (cases m) (auto simp: fun_eq_iff)

lemma bt_first_None: "bt_first m = None \<longleftrightarrow> m = []"
  by (cases m) (auto simp: bt_first_def)

interpretation bt: ordered_map "[]" bt_get bt_insert bt_remove bt_last_le bt_first_gt bt_first bt_invar
proof unfold_locales
  fix m :: "('a::linorder, 'b) btree" and k c :: 'a and a b v
  show "bt_first_gt k m = None \<Longrightarrow> bt_get m c \<noteq> None \<Longrightarrow> c \<le> k"
    by (rule bt_first_gt_None)
qed (simp_all add: bt_get_insert bt_get_remove bt_invar_insert bt_invar_remove bt_last_le_None
    bt_last_le_Some bt_first_gt_Some bt_first_gt_None bt_first_Some bt_get_empty_iff bt_first_None)

lemma bt_get_mem: "bt_invar m \<Longrightarrow> (k, v) \<in> set m \<Longrightarrow> bt_get m k = Some v"
  unfolding bt_get_def bt_invar_def by (rule map_of_is_SomeI) (simp_all add: strict_sorted_iff)

lemma bt_length_le_1:
  assumes "bt_invar m" "length m \<le> 1" "bt_get m c \<noteq> None" "bt_get m d \<noteq> None"
  shows "c = d"
  using assms by (cases m) (auto split: if_splits)

lemma bt_length_gt_1:
  assumes "bt_invar m" "1 < length m"
  shows "\<exists>c d. bt_get m c \<noteq> None \<and> bt_get m d \<noteq> None \<and> c < d"
proof -
  obtain a b c d xs where m: "m = (a, b) # (c, d) # xs"
    using assms(2) by (cases m; cases "tl m") auto
  with assms(1) have "a < c"
    by (simp add: bt_invar_Cons)
  with m show ?thesis
    by (intro exI[of _ a] exI[of _ c]) simp
qed

end
