(* ===== verification/Sliding_Window.thy ===== *)
theory Sliding_Window
  imports BTree_Map Rdma_Types
begin

unbundle bit_operations_syntax

text \<open>
  \<^verbatim>\<open>SlidingWindow\<close> of \<^verbatim>\<open>src/checker.rs\<close>: the set of packets received for one message, as
  intervals of offsets from the first packet sequence number of the message. The
  specification is the set of offsets covered; the theory shows which insertions
  add exactly the packets inserted, that the intervals stay sorted, disjoint and
  non-adjacent, and that the window is complete exactly when every packet has
  arrived.
\<close>

record SlidingWindow =
  sw_intervals :: "(u32, u32) btree"
  sw_start_psn :: Psn
  sw_num_of_packets :: u32

definition SlidingWindow_new :: "Psn \<Rightarrow> u32 \<Rightarrow> SlidingWindow" where
  "SlidingWindow_new start num_of_packets =
     \<lparr> sw_intervals = [], sw_start_psn = start, sw_num_of_packets = num_of_packets \<rparr>"

definition get_recent_gap :: "SlidingWindow \<Rightarrow> (panic, (Psn \<times> Psn) option) result" where
  "get_recent_gap self =
     (case rev (sw_intervals self) of
        (last_left, _) # (_, second_last_right) # _ \<Rightarrow>
          (let left = last_left; right = second_last_right in
           if left + 1 = right then Err Panic
           else Ok (Some (psn_new (left + 1), psn_new (right - 1))))
      | _ \<Rightarrow> Ok None)"

definition is_complete :: "SlidingWindow \<Rightarrow> bool" where
  "is_complete self =
     (case bt_first (sw_intervals self) of
        None \<Rightarrow> False
      | Some (start, end_) \<Rightarrow> end_ = sw_num_of_packets self - 1 \<and> start = 0)"

text \<open>The part of \<^verbatim>\<open>insert\<close> that works on offsets.\<close>

definition insert_offsets :: "u32 \<Rightarrow> u32 \<Rightarrow> (u32, u32) btree \<Rightarrow> (u32, u32) btree" where
  "insert_offsets abs_left abs_right m =
     (if m = [] then bt_insert abs_left abs_right m
      else
        let left = bt_last_le abs_left m; right = bt_first_gt abs_left m in
        if (case left of Some (left_start, left_end) \<Rightarrow> abs_left \<ge> left_start \<and> abs_right \<le> left_end
              | None \<Rightarrow> False) then m
        else
          let merge_left =
            (case left of Some (left_start, left_end) \<Rightarrow>
                 if abs_left \<le> left_end + 1 then Some (left_start, left_end) else None
               | None \<Rightarrow> None) in
          if (case right of Some (right_start, right_end) \<Rightarrow>
                  abs_left \<ge> right_start \<and> abs_right \<le> right_end
                | None \<Rightarrow> False) then m
          else
            let merge_right =
              (case right of Some (right_start, right_end) \<Rightarrow>
                   if abs_right \<ge> right_start - 1 then Some (right_start, right_end) else None
                 | None \<Rightarrow> None) in
            (case (merge_left, merge_right) of
               (Some (left_start, _), Some (right_start, right_end)) \<Rightarrow>
                 bt_insert left_start right_end (bt_remove right_start (bt_remove left_start m))
             | (Some (left_start, _), None) \<Rightarrow>
                 bt_insert left_start abs_right (bt_remove left_start m)
             | (None, Some (right_start, right_end)) \<Rightarrow>
                 bt_insert abs_left right_end (bt_remove right_start m)
             | (None, None) \<Rightarrow> bt_insert abs_left abs_right m))"

definition sw_insert :: "Psn \<times> Psn \<Rightarrow> SlidingWindow \<Rightarrow> SlidingWindow" where
  "sw_insert rng self =
     (case rng of (from, to) \<Rightarrow>
        if is_complete self then self
        else
          let diff_of_start_psn = psn_get (wrapping_sub from (psn_get (sw_start_psn self))) in
          if diff_of_start_psn \<ge> PSN_MAX_WINDOW_SIZE then self
          else
            let diff_of_end_psn = psn_get (wrapping_sub to (psn_get (sw_start_psn self))) in
            if diff_of_end_psn \<ge> PSN_MAX_WINDOW_SIZE then self
            else self\<lparr> sw_intervals :=
                   insert_offsets diff_of_start_psn diff_of_end_psn (sw_intervals self) \<rparr>)"

definition is_out_of_order :: "SlidingWindow \<Rightarrow> bool" where
  "is_out_of_order self \<longleftrightarrow> \<not> is_complete self \<and> length (sw_intervals self) > 1"

definition try_get_recover_psn :: "SlidingWindow \<Rightarrow> (panic, Psn option) result" where
  "try_get_recover_psn self =
     (if is_out_of_order self then Ok None
      else case bt_get (sw_intervals self) 0 of
             None \<Rightarrow> Err Panic
           | Some end_ \<Rightarrow>
               (let offset_of_next_expected = end_ + 1
                in Ok (Some (wrapping_add (sw_start_psn self) offset_of_next_expected))))"

definition last_psn :: "SlidingWindow \<Rightarrow> Psn" where
  "last_psn self = wrapping_add (sw_start_psn self) (sw_num_of_packets self - 1)"

subsection \<open>Intervals and the offsets they cover\<close>

definition coverage :: "(u32 \<rightharpoonup> u32) \<Rightarrow> nat set" where
  "coverage g = {n. \<exists>s e. g s = Some e \<and> unat s \<le> n \<and> n \<le> unat e}"

definition ivs_ok :: "(u32 \<rightharpoonup> u32) \<Rightarrow> bool" where
  "ivs_ok g \<longleftrightarrow>
     (\<forall>s e. g s = Some e \<longrightarrow> unat s \<le> unat e \<and> unat e < 2 ^ 23) \<and>
     (\<forall>s e s' e'. g s = Some e \<longrightarrow> g s' = Some e' \<longrightarrow> unat s < unat s' \<longrightarrow> unat e + 1 < unat s')"

definition sw_inv :: "(u32, u32) btree \<Rightarrow> bool" where
  "sw_inv m \<longleftrightarrow> bt_invar m \<and> ivs_ok (bt_get m)"

lemma ivs_okD:
  assumes "ivs_ok g" "g s = Some e"
  shows "unat s \<le> unat e" "unat e < 2 ^ 23"
  using assms by (auto simp: ivs_ok_def)

lemma ivs_ok_sep:
  assumes "ivs_ok g" "g s = Some e" "g s' = Some e'" "unat s < unat s'"
  shows "unat e + 1 < unat s'"
  using assms unfolding ivs_ok_def by blast

text \<open>One entry \<open>(a, b)\<close> takes the place of the entries at the keys \<open>X\<close>.\<close>

lemma ivs_replace:
  assumes ok: "ivs_ok g"
    and g': "\<And>c. g' c = (if c = a then Some b else if c \<in> X then None else g c)"
    and ab: "unat a \<le> unat b" "unat b < 2 ^ 23"
    and sep: "\<And>c d. g c = Some d \<Longrightarrow> c \<noteq> a \<Longrightarrow> c \<notin> X \<Longrightarrow> unat d + 1 < unat a \<or> unat b + 1 < unat c"
    and cover: "\<And>n. (\<exists>c d. g c = Some d \<and> (c = a \<or> c \<in> X) \<and> unat c \<le> n \<and> n \<le> unat d) \<or> n \<in> N \<longleftrightarrow>
        unat a \<le> n \<and> n \<le> unat b"
  shows "ivs_ok g'" "coverage g' = coverage g \<union> N"
proof -
  show "ivs_ok g'"
    unfolding ivs_ok_def g'
  proof (intro conjI allI impI)
    fix s e s' e'
    assume "(if s = a then Some b else if s \<in> X then None else g s) = Some e"
      "(if s' = a then Some b else if s' \<in> X then None else g s') = Some e'"
      "unat s < unat s'"
    then show "unat e + 1 < unat s'"
      using sep[of s e] sep[of s' e'] ivs_ok_sep[OF ok, of s e s' e'] ivs_okD[OF ok, of s' e']
        ivs_okD[OF ok, of s e] ab
      by (auto split: if_splits)
  qed (use ab ivs_okD[OF ok] in \<open>auto split: if_splits\<close>)
  show "coverage g' = coverage g \<union> N"
  proof (intro set_eqI iffI)
    fix n
    assume "n \<in> coverage g'"
    then obtain s e where se: "g' s = Some e" "unat s \<le> n" "n \<le> unat e"
      by (auto simp: coverage_def)
    show "n \<in> coverage g \<union> N"
    proof (cases "s = a")
      case True
      with se g' have "unat a \<le> n \<and> n \<le> unat b"
        by simp
      then show ?thesis
        using cover[of n] by (auto simp: coverage_def)
    next
      case False
      with se g' show ?thesis
        by (auto simp: coverage_def split: if_splits)
    qed
  next
    fix n
    assume n: "n \<in> coverage g \<union> N"
    show "n \<in> coverage g'"
    proof (cases "unat a \<le> n \<and> n \<le> unat b")
      case True
      then show ?thesis
        using g'[of a] by (auto simp: coverage_def)
    next
      case False
      with n cover[of n] obtain s e where se: "g s = Some e" "unat s \<le> n" "n \<le> unat e" "s \<noteq> a" "s \<notin> X"
        by (auto simp: coverage_def)
      then show ?thesis
        using g'[of s] by (auto simp: coverage_def)
    qed
  qed
qed

text \<open>What the two neighbours of \<open>l\<close> say about the other entries.\<close>

lemma left_neighbour:
  assumes "sw_inv m" "bt_last_le l m = Some (ls, le)"
  shows "bt_get m ls = Some le" "unat ls \<le> unat l" "unat ls \<le> unat le" "unat le < 2 ^ 23"
    "\<And>c d. bt_get m c = Some d \<Longrightarrow> unat c \<le> unat l \<Longrightarrow> c \<noteq> ls \<Longrightarrow> unat d + 1 < unat ls"
proof -
  have ok: "bt_invar m" "ivs_ok (bt_get m)"
    using assms(1) by (simp_all add: sw_inv_def)
  note n = bt.last_le_Some[OF ok(1) assms(2)]
  then show "bt_get m ls = Some le" "unat ls \<le> unat l"
    by (simp_all add: word_le_nat_alt)
  then show "unat ls \<le> unat le" "unat le < 2 ^ 23"
    using ivs_okD[OF ok(2)] by blast+
  fix c d
  assume c: "bt_get m c = Some d" "unat c \<le> unat l" "c \<noteq> ls"
  with n have "unat c < unat ls"
    by (metis le_neq_implies_less option.distinct(1) word_le_nat_alt word_unat_eq_iff)
  then show "unat d + 1 < unat ls"
    using ivs_ok_sep[OF ok(2) c(1)] n by blast
qed

lemma right_neighbour:
  assumes "sw_inv m" "bt_first_gt l m = Some (rs, re)"
  shows "bt_get m rs = Some re" "unat l < unat rs" "unat rs \<le> unat re" "unat re < 2 ^ 23"
    "\<And>c d. bt_get m c = Some d \<Longrightarrow> unat l < unat c \<Longrightarrow> c \<noteq> rs \<Longrightarrow> unat re + 1 < unat c"
proof -
  have ok: "bt_invar m" "ivs_ok (bt_get m)"
    using assms(1) by (simp_all add: sw_inv_def)
  note n = bt.first_gt_Some[OF ok(1) assms(2)]
  then show "bt_get m rs = Some re" "unat l < unat rs"
    by (simp_all add: word_less_nat_alt)
  then show "unat rs \<le> unat re" "unat re < 2 ^ 23"
    using ivs_okD[OF ok(2)] by blast+
  fix c d
  assume c: "bt_get m c = Some d" "unat l < unat c" "c \<noteq> rs"
  with n have "unat rs < unat c"
    by (metis le_neq_implies_less option.distinct(1) word_le_nat_alt word_less_nat_alt word_unat_eq_iff)
  then show "unat re + 1 < unat c"
    using ivs_ok_sep[OF ok(2) _ c(1)] n by blast
qed

lemma no_left_neighbour:
  "sw_inv m \<Longrightarrow> bt_last_le l m = None \<Longrightarrow> bt_get m c = Some d \<Longrightarrow> unat l < unat c"
  using bt.last_le_None[of m l c] by (auto simp: sw_inv_def word_less_nat_alt)

lemma no_right_neighbour:
  "sw_inv m \<Longrightarrow> bt_first_gt l m = None \<Longrightarrow> bt_get m c = Some d \<Longrightarrow> unat c \<le> unat l"
  using bt.first_gt_None[of m l c] by (auto simp: sw_inv_def word_le_nat_alt)

text \<open>
  An insertion is exact when the first interval that starts after the left end and
  touches the range reaches its right end.
\<close>

definition reaches :: "u32 \<Rightarrow> u32 \<Rightarrow> (u32, u32) btree \<Rightarrow> bool" where
  "reaches l r m \<longleftrightarrow>
     (case bt_first_gt l m of
        Some (rs, re) \<Rightarrow> unat rs \<le> unat r + 1 \<longrightarrow> unat r \<le> unat re
      | None \<Rightarrow> True)"

abbreviation exact_insert :: "u32 \<Rightarrow> u32 \<Rightarrow> (u32, u32) btree \<Rightarrow> (u32, u32) btree \<Rightarrow> bool" where
  "exact_insert l r m m' \<equiv> sw_inv m' \<and> coverage (bt_get m') = coverage (bt_get m) \<union> {unat l..unat r}"

lemma exact_insertI:
  assumes "sw_inv m" "bt_invar m'"
    and "\<And>c. bt_get m' c = (if c = a then Some b else if c \<in> X then None else bt_get m c)"
    and "unat a \<le> unat b" "unat b < 2 ^ 23"
    and "\<And>c d. bt_get m c = Some d \<Longrightarrow> c \<noteq> a \<Longrightarrow> c \<notin> X \<Longrightarrow> unat d + 1 < unat a \<or> unat b + 1 < unat c"
    and "\<And>n. (\<exists>c d. bt_get m c = Some d \<and> (c = a \<or> c \<in> X) \<and> unat c \<le> n \<and> n \<le> unat d) \<or>
          n \<in> {unat l..unat r} \<longleftrightarrow> unat a \<le> n \<and> n \<le> unat b"
  shows "exact_insert l r m m'"
  using ivs_replace[where g = "bt_get m" and g' = "bt_get m'" and a = a and b = b and X = X
      and N = "{unat l..unat r}"] assms
  by (simp add: sw_inv_def)

lemma sw_inv_invar: "sw_inv m \<Longrightarrow> bt_invar m"
  by (simp add: sw_inv_def)

lemma insert_exact_alone:
  assumes inv: "sw_inv m" and lr: "unat l \<le> unat r" "unat r < 2 ^ 23"
    and sep: "\<And>c d. bt_get m c = Some d \<Longrightarrow> unat d + 1 < unat l \<or> unat r + 1 < unat c"
  shows "exact_insert l r m (bt_insert l r m)"
proof (rule exact_insertI[where a = l and b = r and X = "{}"])
  have "bt_get m l = None"
    using sep[of l] lr ivs_okD(1)[of "bt_get m" l] inv by (cases "bt_get m l") (force simp: sw_inv_def)+
  then show "\<And>n. (\<exists>c d. bt_get m c = Some d \<and> (c = l \<or> c \<in> {}) \<and> unat c \<le> n \<and> n \<le> unat d) \<or>
      n \<in> {unat l..unat r} \<longleftrightarrow> unat l \<le> n \<and> n \<le> unat r"
    by auto
qed (use inv lr sep in \<open>auto simp: bt.get_ins bt.invar_ins sw_inv_invar\<close>)

lemma insert_exact_left:
  assumes inv: "sw_inv m" and lr: "unat l \<le> unat r" "unat r < 2 ^ 23"
    and left: "bt_last_le l m = Some (ls, le)" "unat l \<le> unat le + 1" "unat le < unat r"
    and sep: "\<And>c d. bt_get m c = Some d \<Longrightarrow> unat l < unat c \<Longrightarrow> unat r + 1 < unat c"
  shows "exact_insert l r m (bt_insert ls r (bt_remove ls m))"
proof -
  note n = left_neighbour[OF inv left(1)]
  show ?thesis
  proof (rule exact_insertI[where a = ls and b = r and X = "{}"])
    fix c d
    assume "bt_get m c = Some d" "c \<noteq> ls"
    then show "unat d + 1 < unat ls \<or> unat r + 1 < unat c"
      using n(5)[of c d] sep[of c d] by (cases "unat c \<le> unat l") auto
  next
    show "\<And>k. (\<exists>c d. bt_get m c = Some d \<and> (c = ls \<or> c \<in> {}) \<and> unat c \<le> k \<and> k \<le> unat d) \<or>
        k \<in> {unat l..unat r} \<longleftrightarrow> unat ls \<le> k \<and> k \<le> unat r"
      using n(1-4) left lr by auto
  qed (use inv n lr in \<open>auto simp: bt.get_replace1 bt.invar_ins bt.invar_rem sw_inv_invar\<close>)
qed

lemma insert_exact_right:
  assumes inv: "sw_inv m" and lr: "unat l \<le> unat r" "unat r < 2 ^ 23"
    and right: "bt_first_gt l m = Some (rs, re)" "unat rs \<le> unat r + 1" "unat r \<le> unat re"
    and sep: "\<And>c d. bt_get m c = Some d \<Longrightarrow> unat c \<le> unat l \<Longrightarrow> unat d + 1 < unat l"
  shows "exact_insert l r m (bt_insert l re (bt_remove rs m))"
proof -
  note n = right_neighbour[OF inv right(1)]
  have l: "bt_get m l = None"
    using sep[of l] lr ivs_okD(1)[of "bt_get m" l] inv by (cases "bt_get m l") (force simp: sw_inv_def)+
  show ?thesis
  proof (rule exact_insertI[where a = l and b = re and X = "{rs}"])
    fix c d
    assume "bt_get m c = Some d" "c \<notin> {rs}"
    then show "unat d + 1 < unat l \<or> unat re + 1 < unat c"
      using n(5)[of c d] sep[of c d] by (cases "unat c \<le> unat l") auto
  next
    fix k
    have "(\<exists>c d. bt_get m c = Some d \<and> (c = l \<or> c \<in> {rs}) \<and> unat c \<le> k \<and> k \<le> unat d) \<longleftrightarrow>
        unat rs \<le> k \<and> k \<le> unat re"
      using n(1) l by auto
    then show "(\<exists>c d. bt_get m c = Some d \<and> (c = l \<or> c \<in> {rs}) \<and> unat c \<le> k \<and> k \<le> unat d) \<or>
        k \<in> {unat l..unat r} \<longleftrightarrow> unat l \<le> k \<and> k \<le> unat re"
      using n(2-4) right(2,3) lr by auto
  qed (use inv n lr in \<open>auto simp: bt.get_replace1 bt.invar_ins bt.invar_rem sw_inv_invar\<close>)
qed

lemma insert_exact_both:
  assumes inv: "sw_inv m" and lr: "unat l \<le> unat r" "unat r < 2 ^ 23"
    and left: "bt_last_le l m = Some (ls, le)" "unat l \<le> unat le + 1" "unat le < unat r"
    and right: "bt_first_gt l m = Some (rs, re)" "unat rs \<le> unat r + 1" "unat r \<le> unat re"
  shows "exact_insert l r m (bt_insert ls re (bt_remove rs (bt_remove ls m)))"
proof -
  note n = left_neighbour[OF inv left(1)] and n' = right_neighbour[OF inv right(1)]
  show ?thesis
  proof (rule exact_insertI[where a = ls and b = re and X = "{ls, rs}"])
    fix c d
    assume "bt_get m c = Some d" "c \<noteq> ls" "c \<notin> {ls, rs}"
    then show "unat d + 1 < unat ls \<or> unat re + 1 < unat c"
      using n(5)[of c d] n'(5)[of c d] by (cases "unat c \<le> unat l") auto
  next
    fix k
    have "(\<exists>c d. bt_get m c = Some d \<and> (c = ls \<or> c \<in> {ls, rs}) \<and> unat c \<le> k \<and> k \<le> unat d) \<longleftrightarrow>
        unat ls \<le> k \<and> k \<le> unat le \<or> unat rs \<le> k \<and> k \<le> unat re"
      using n(1) n'(1) by auto
    then show "(\<exists>c d. bt_get m c = Some d \<and> (c = ls \<or> c \<in> {ls, rs}) \<and> unat c \<le> k \<and> k \<le> unat d) \<or>
        k \<in> {unat l..unat r} \<longleftrightarrow> unat ls \<le> k \<and> k \<le> unat re"
      using n(2-4) n'(2-4) left(2,3) right(2,3) lr by auto
  qed (use inv n(2-4) n'(2-4) lr in \<open>auto simp: bt.get_replace2 bt.invar_ins bt.invar_rem sw_inv_invar\<close>)
qed

lemma insert_exact_covered:
  assumes inv: "sw_inv m" and left: "bt_last_le l m = Some (ls, le)" "unat r \<le> unat le"
  shows "exact_insert l r m m"
proof -
  have "{unat l..unat r} \<subseteq> coverage (bt_get m)"
    using left_neighbour(1,2)[OF inv left(1)] left(2) unfolding coverage_def by fastforce
  with inv show ?thesis
    by auto
qed

text \<open>The three tests of \<^const>\<open>insert_offsets\<close> on words, as numbers.\<close>

lemma unat_succ_iv: "unat (e :: u32) < 2 ^ 23 \<Longrightarrow> unat (e + 1) = unat e + 1"
  by (simp add: unat_add_no_wrap)

lemma unat_pred_iv: "unat l < unat (s :: u32) \<Longrightarrow> unat (s - 1) = unat s - 1"
  by (subst unat_sub_le) (auto simp: word_le_nat_alt)

lemma insert_offsets_merge:
  assumes inv: "sw_inv m" and lr: "unat l \<le> unat r" "unat r < 2 ^ 23" and reach: "reaches l r m"
    and m: "m \<noteq> []" "\<And>ls le. bt_last_le l m = Some (ls, le) \<Longrightarrow> unat le < unat r"
  shows "exact_insert l r m (insert_offsets l r m)"
proof -
  define touchL where "touchL = (\<exists>ls le. bt_last_le l m = Some (ls, le) \<and> unat l \<le> unat le + 1)"
  define touchR where "touchR = (\<exists>rs re. bt_first_gt l m = Some (rs, re) \<and> unat rs \<le> unat r + 1)"
  have L: "unat d + 1 < unat l" if "\<not> touchL" "bt_get m c = Some d" "unat c \<le> unat l" for c d
  proof (cases "bt_last_le l m")
    case None
    then show ?thesis
      using that no_left_neighbour[OF inv None that(2)] by simp
  next
    case (Some p)
    then show ?thesis
      using that left_neighbour[OF inv, of l "fst p" "snd p"]
      by (cases p; cases "c = fst p") (force simp: touchL_def)+
  qed
  have R: "unat r + 1 < unat c" if "\<not> touchR" "bt_get m c = Some d" "unat l < unat c" for c d
  proof (cases "bt_first_gt l m")
    case None
    then show ?thesis
      using that no_right_neighbour[OF inv None that(2)] by simp
  next
    case (Some p)
    then show ?thesis
      using that right_neighbour[OF inv, of l "fst p" "snd p"]
      by (cases p; cases "c = fst p") (force simp: touchR_def)+
  qed
  have left: "case bt_last_le l m of None \<Rightarrow> \<not> touchL
      | Some (ls, le) \<Rightarrow> \<not> r \<le> le \<and> touchL = (l \<le> le + 1)"
    using m(2) left_neighbour(4)[OF inv]
    by (auto simp: touchL_def word_le_nat_alt not_le unat_succ_iv split: option.splits)
  have right: "case bt_first_gt l m of None \<Rightarrow> \<not> touchR
      | Some (rs, re) \<Rightarrow> \<not> rs \<le> l \<and> touchR = (r \<ge> rs - 1)"
  proof (cases "bt_first_gt l m")
    case (Some p)
    then show ?thesis
      using right_neighbour(2)[OF inv, of l "fst p" "snd p"] unat_pred_iv[of l "fst p"]
      by (cases p) (auto simp: touchR_def word_le_nat_alt)
  qed (simp add: touchR_def)
  note unfold = insert_offsets_def Let_def
  show ?thesis
  proof (cases touchL; cases touchR)
    assume t: touchL touchR
    obtain ls le where ll: "bt_last_le l m = Some (ls, le)" "unat l \<le> unat le + 1"
      using t by (auto simp: touchL_def)
    obtain rs re where rr: "bt_first_gt l m = Some (rs, re)" "unat rs \<le> unat r + 1"
      using t by (auto simp: touchR_def)
    have "insert_offsets l r m = bt_insert ls re (bt_remove rs (bt_remove ls m))"
      using m(1) left right ll(1) rr(1) t by (simp add: unfold)
    then show ?thesis
      using insert_exact_both[OF inv lr ll m(2)[OF ll(1)] rr] reach rr by (simp add: reaches_def)
  next
    assume t: touchL "\<not> touchR"
    obtain ls le where ll: "bt_last_le l m = Some (ls, le)" "unat l \<le> unat le + 1"
      using t by (auto simp: touchL_def)
    have "insert_offsets l r m = bt_insert ls r (bt_remove ls m)"
      using m(1) left right ll(1) t by (auto simp: unfold split: option.splits)
    then show ?thesis
      using insert_exact_left[OF inv lr ll m(2)[OF ll(1)] R[OF t(2)]] by simp
  next
    assume t: "\<not> touchL" touchR
    obtain rs re where rr: "bt_first_gt l m = Some (rs, re)" "unat rs \<le> unat r + 1"
      using t by (auto simp: touchR_def)
    have "insert_offsets l r m = bt_insert l re (bt_remove rs m)"
      using m(1) left right rr(1) t by (auto simp: unfold split: option.splits)
    then show ?thesis
      using insert_exact_right[OF inv lr rr _ L[OF t(1)]] reach rr by (simp add: reaches_def)
  next
    assume t: "\<not> touchL" "\<not> touchR"
    have "insert_offsets l r m = bt_insert l r m"
      using m(1) left right t by (auto simp: unfold split: option.splits)
    moreover have "unat d + 1 < unat l \<or> unat r + 1 < unat c" if "bt_get m c = Some d" for c d
      using L[OF t(1) that] R[OF t(2) that] by linarith
    ultimately show ?thesis
      using insert_exact_alone[OF inv lr] by simp
  qed
qed

lemma insert_offsets_exact:
  assumes inv: "sw_inv m" and lr: "unat l \<le> unat r" "unat r < 2 ^ 23" and reach: "reaches l r m"
  shows "exact_insert l r m (insert_offsets l r m)"
proof -
  consider (empty) "m = []"
    | (covered) ls le where "m \<noteq> []" "bt_last_le l m = Some (ls, le)" "r \<le> le"
    | (merge) "m \<noteq> []" "\<And>ls le. bt_last_le l m = Some (ls, le) \<Longrightarrow> unat le < unat r"
    by (cases "bt_last_le l m") (force simp: word_le_nat_alt)+
  then show ?thesis
  proof cases
    case empty
    then show ?thesis
      using insert_exact_alone[OF inv lr] by (simp add: insert_offsets_def)
  next
    case (covered ls le)
    then show ?thesis
      using insert_exact_covered[OF inv covered(2)] left_neighbour(2)[OF inv covered(2)]
      by (simp add: insert_offsets_def word_le_nat_alt)
  next
    case merge
    then show ?thesis
      by (rule insert_offsets_merge[OF inv lr reach])
  qed
qed

subsection \<open>Receiving packets\<close>

definition psn_offset :: "Psn \<Rightarrow> Psn \<Rightarrow> nat" where
  "psn_offset start p = unat (psn_get (wrapping_sub p (psn_get start)))"

abbreviation window_cov :: "SlidingWindow \<Rightarrow> nat set" where
  "window_cov w \<equiv> coverage (bt_get (sw_intervals w))"

abbreviation window_ok :: "SlidingWindow \<Rightarrow> bool" where
  "window_ok w \<equiv> sw_inv (sw_intervals w)"

lemma reaches_single: "sw_inv m \<Longrightarrow> reaches l l m"
  using right_neighbour(2,3)[of m l] by (fastforce simp: reaches_def split: option.splits)

lemma sw_insert_frame [simp]:
  "sw_start_psn (sw_insert rng w) = sw_start_psn w"
  "sw_num_of_packets (sw_insert rng w) = sw_num_of_packets w"
  by (simp_all add: sw_insert_def Let_def split: prod.splits)

text \<open>
  C9. Inserting a range of sequence numbers keeps the intervals sorted, disjoint and
  non-adjacent and adds exactly the offsets of the range to the offsets covered,
  provided the window is not complete, the range lies in the half space after the
  start, and the first interval after its left end that it touches reaches its
  right end (a single packet always satisfies the last condition).
\<close>

theorem sw_insert_exact:
  assumes "window_ok w" "\<not> is_complete w"
    and "psn_offset (sw_start_psn w) from \<le> psn_offset (sw_start_psn w) to"
    and "psn_offset (sw_start_psn w) to < 2 ^ 23"
    and "reaches (psn_get (wrapping_sub from (psn_get (sw_start_psn w))))
           (psn_get (wrapping_sub to (psn_get (sw_start_psn w)))) (sw_intervals w)"
  shows "window_ok (sw_insert (from, to) w) \<and>
    window_cov (sw_insert (from, to) w) =
      window_cov w \<union> {psn_offset (sw_start_psn w) from..psn_offset (sw_start_psn w) to}"
  using assms insert_offsets_exact[OF assms(1), of
      "psn_get (wrapping_sub from (psn_get (sw_start_psn w)))"
      "psn_get (wrapping_sub to (psn_get (sw_start_psn w)))"]
  by (simp add: sw_insert_def Let_def psn_offset_def PSN_MAX_WINDOW_SIZE_eq word_le_nat_alt)

theorem sw_insert_exact_witness:
  "window_cov (sw_insert (psn_new 1, psn_new 3) (sw_insert (psn_new 0xFFFFFF, psn_new 0xFFFFFF)
      (SlidingWindow_new (psn_new 0xFFFFFE) 6))) = {1..1} \<union> {3..5}"
proof -
  define w where "w = sw_insert (psn_new 0xFFFFFF, psn_new 0xFFFFFF) (SlidingWindow_new (psn_new 0xFFFFFE) 6)"
  have w: "w = \<lparr> sw_intervals = [(1, 1)], sw_start_psn = psn_new 0xFFFFFE, sw_num_of_packets = 6 \<rparr>"
    unfolding w_def by code_simp
  have "psn_offset (sw_start_psn w) (psn_new 1) = 3" "psn_offset (sw_start_psn w) (psn_new 3) = 5"
    "\<not> is_complete w" "psn_get (wrapping_sub (psn_new 1) (psn_get (sw_start_psn w))) = 3"
    "psn_get (wrapping_sub (psn_new 3) (psn_get (sw_start_psn w))) = 5"
    unfolding w by code_simp+
  moreover have "window_ok w" "window_cov w = {1..1}"
    by (auto simp: w sw_inv_def bt_invar_def ivs_ok_def coverage_def split: if_splits)
  ultimately show ?thesis
    using sw_insert_exact[of w "psn_new 1" "psn_new 3"]
    by (simp add: w_def[symmetric]) (simp add: w reaches_def)
qed

lemma sw_insert_single:
  assumes "window_ok w" "\<not> is_complete w" "psn_offset (sw_start_psn w) p < 2 ^ 23"
  shows "window_ok (sw_insert (p, p) w)"
    "window_cov (sw_insert (p, p) w) = insert (psn_offset (sw_start_psn w) p) (window_cov w)"
  using assms insert_offsets_exact[OF assms(1), of
      "psn_get (wrapping_sub p (psn_get (sw_start_psn w)))"
      "psn_get (wrapping_sub p (psn_get (sw_start_psn w)))"] reaches_single[OF assms(1)]
  by (simp_all add: sw_insert_def Let_def psn_offset_def PSN_MAX_WINDOW_SIZE_eq word_le_nat_alt)

lemma is_complete_iff:
  assumes inv: "window_ok w" and n: "0 < unat (sw_num_of_packets w)"
    and sub: "window_cov w \<subseteq> {0..<unat (sw_num_of_packets w)}"
  shows "is_complete w \<longleftrightarrow> window_cov w = {0..<unat (sw_num_of_packets w)}"
proof -
  let ?g = "bt_get (sw_intervals w)" and ?n = "unat (sw_num_of_packets w)"
  have ok: "bt_invar (sw_intervals w)" "ivs_ok ?g"
    using inv by (simp_all add: sw_inv_def)
  have n1: "unat (sw_num_of_packets w - 1) = ?n - 1"
    using unat_pred_iv[of 0] n by simp
  show ?thesis
  proof
    assume "is_complete w"
    then have "bt_first (sw_intervals w) = Some (0, sw_num_of_packets w - 1)"
      by (auto simp: is_complete_def split: option.splits)
    then have "?g 0 = Some (sw_num_of_packets w - 1)"
      using bt.first_Some[OF ok(1)] by blast
    then have "{0..?n - 1} \<subseteq> window_cov w"
      using n1 by (force simp: coverage_def)
    with sub n show "window_cov w = {0..<?n}"
      by (auto simp: subset_eq)
  next
    assume cov: "window_cov w = {0..<?n}"
    with n have "0 \<in> window_cov w"
      by simp
    then obtain e where e: "?g 0 = Some e"
      by (auto simp: coverage_def unat_eq_zero)
    then have "unat e \<in> window_cov w"
      unfolding coverage_def mem_Collect_eq by (intro exI[of _ 0] exI[of _ e]) simp
    with cov have "unat e < ?n"
      by simp
    moreover have "\<not> unat e + 1 < ?n"
    proof
      assume "unat e + 1 < ?n"
      with cov have "unat e + 1 \<in> window_cov w"
        by simp
      then obtain s' e' where s': "?g s' = Some e'" "unat s' \<le> unat e + 1" "unat e + 1 \<le> unat e'"
        by (auto simp: coverage_def)
      then have "s' \<noteq> 0"
        using e by auto
      then have "unat e + 1 < unat s'"
        using ivs_ok_sep[OF ok(2) e s'(1)] by (simp add: unat_gt_0)
      with s' show False
        by simp
    qed
    ultimately have "e = sw_num_of_packets w - 1"
      using n1 by (simp add: word_unat_eq_iff)
    moreover have "bt_first (sw_intervals w) = Some (0, e)"
    proof (cases "bt_first (sw_intervals w)")
      case None
      then show ?thesis
        using e by (simp add: bt_first_None)
    next
      case (Some p)
      then show ?thesis
        using bt.first_Some[OF ok(1), of "fst p" "snd p"] e by (cases p) force
    qed
    ultimately show "is_complete w"
      by (simp add: is_complete_def)
  qed
qed

definition receive_all :: "Psn list \<Rightarrow> SlidingWindow \<Rightarrow> SlidingWindow" where
  "receive_all ps w = fold (\<lambda>p. sw_insert (p, p)) ps w"

lemma coverage_empty [simp]: "coverage Map.empty = {}"
  by (simp add: coverage_def)

lemma window_ok_new [simp, invs]: "window_ok (SlidingWindow_new start n)"
  by (simp add: SlidingWindow_new_def sw_inv_def ivs_ok_def)

lemma window_cov_new [simp]: "window_cov (SlidingWindow_new start n) = {}"
  by (simp add: SlidingWindow_new_def)

lemma sw_insert_complete: "is_complete w \<Longrightarrow> sw_insert rng w = w"
  by (simp add: sw_insert_def split: prod.splits)

text \<open>
  One packet of the message: the invariant, the bound on the offsets covered and the
  set covered so far, with a complete window left as it is.
\<close>

lemma sw_receive_step:
  assumes "window_ok w" "0 < unat (sw_num_of_packets w)" "unat (sw_num_of_packets w) \<le> 2 ^ 23"
    and "window_cov w \<subseteq> {0..<unat (sw_num_of_packets w)}"
    and "psn_offset (sw_start_psn w) p < unat (sw_num_of_packets w)"
  shows "window_ok (sw_insert (p, p) w) \<and>
    window_cov (sw_insert (p, p) w) = insert (psn_offset (sw_start_psn w) p) (window_cov w)"
proof (cases "is_complete w")
  case True
  then show ?thesis
    using assms(1,5) is_complete_iff[OF assms(1,2,4)] by (simp add: sw_insert_complete insert_absorb)
next
  case False
  then show ?thesis
    using assms(3,5) sw_insert_single[OF assms(1) False, of p] by simp
qed

lemma receive_all_coverage:
  assumes "window_ok w" "0 < unat (sw_num_of_packets w)" "unat (sw_num_of_packets w) \<le> 2 ^ 23"
    and "window_cov w \<subseteq> {0..<unat (sw_num_of_packets w)}"
    and "\<forall>p \<in> set ps. psn_offset (sw_start_psn w) p < unat (sw_num_of_packets w)"
  shows "window_ok (receive_all ps w) \<and>
    window_cov (receive_all ps w) = window_cov w \<union> psn_offset (sw_start_psn w) ` set ps \<and>
    sw_num_of_packets (receive_all ps w) = sw_num_of_packets w"
  using assms
proof (induction ps arbitrary: w)
  case (Cons p ps)
  let ?w = "sw_insert (p, p) w"
  have step: "window_ok ?w" "window_cov ?w = insert (psn_offset (sw_start_psn w) p) (window_cov w)"
    using sw_receive_step[of w p] Cons.prems by simp_all
  have "window_cov ?w \<subseteq> {0..<unat (sw_num_of_packets w)}"
    using step(2) Cons.prems by auto
  with Cons.IH[of ?w] Cons.prems step show ?case
    by (simp add: receive_all_def)
qed (simp add: receive_all_def)

text \<open>
  C3. Whatever the order in which the packets of a message of \<open>n\<close> packets arrive, and
  however often each of them is repeated, the window of the message is complete
  exactly when each of the \<open>n\<close> sequence numbers has arrived.
\<close>

theorem complete_iff_all_received:
  assumes "0 < unat n" "unat n \<le> 2 ^ 23" "\<forall>p \<in> set ps. psn_offset start p < unat n"
  shows "is_complete (receive_all ps (SlidingWindow_new start n)) \<longleftrightarrow>
    psn_offset start ` set ps = {0..<unat n}"
proof -
  let ?w = "SlidingWindow_new start n"
  have w: "sw_start_psn ?w = start" "sw_num_of_packets ?w = n"
    by (simp_all add: SlidingWindow_new_def)
  note r = receive_all_coverage[of ?w ps, unfolded w, OF window_ok_new assms(1,2) _ assms(3), simplified]
  then have "window_cov (receive_all ps ?w) \<subseteq> {0..<unat n}"
    using assms(3) by auto
  then show ?thesis
    using is_complete_iff[of "receive_all ps ?w"] r assms(1) by simp
qed

theorem complete_iff_all_received_witness:
  "is_complete (receive_all (map psn_new [0, 0xFFFFFF, 0, 1, 0xFFFFFF])
      (SlidingWindow_new (psn_new 0xFFFFFF) 3)) \<and>
   \<not> is_complete (receive_all (map psn_new [1, 0xFFFFFF]) (SlidingWindow_new (psn_new 0xFFFFFF) 3))"
proof -
  have o: "psn_offset (psn_new 0xFFFFFF) (psn_new 0xFFFFFF) = 0"
    "psn_offset (psn_new 0xFFFFFF) (psn_new 0) = 1" "psn_offset (psn_new 0xFFFFFF) (psn_new 1) = 2"
    by code_simp+
  have "{0..<3} = {0, 1, 2 :: nat}" "{2, 0} \<noteq> {0, 1, 2 :: nat}"
    by auto
  then show ?thesis
    using complete_iff_all_received[of 3 "map psn_new [0, 0xFFFFFF, 0, 1, 0xFFFFFF]" "psn_new 0xFFFFFF"]
      complete_iff_all_received[of 3 "map psn_new [1, 0xFFFFFF]" "psn_new 0xFFFFFF"]
    by (simp add: o insert_commute)
qed

lemma gap_missing:
  assumes "sw_inv m" "m = pre @ [(s, right), (left, e)]"
    "unat right < n" "n < unat left"
  shows "n \<notin> coverage (bt_get m)"
proof
  assume "n \<in> coverage (bt_get m)"
  then obtain c d where c: "bt_get m c = Some d" "unat c \<le> n" "n \<le> unat d"
    by (auto simp: coverage_def)
  have ok: "bt_invar m" "ivs_ok (bt_get m)"
    using assms(1) by (simp_all add: sw_inv_def)
  have get: "bt_get m s = Some right"
    by (rule bt_get_mem[OF ok(1)]) (simp add: assms(2))
  have "c \<in> fst ` set m"
    using c(1) bt_get_dom[of m c] by simp
  then consider "c = left" | "c = s" | "unat c < unat s"
    using ok(1) unfolding assms(2) by (auto simp: bt_invar_def sorted_wrt_append word_less_nat_alt)
  then show False
  proof cases
    case 3
    then show False
      using ivs_ok_sep[OF ok(2) c(1) get] ivs_okD(1)[OF ok(2) get] c(3) assms(3) by linarith
  qed (use c assms(3,4) get in simp_all)
qed

text \<open>
  When the window holds at least two intervals, \<^const>\<open>get_recent_gap\<close> never panics, but the
  pair it returns is not the gap between the last two intervals: the gap is
  \<open>right + 1 .. left - 1\<close> (all of it missing, and not empty), and the code returns
  \<open>left + 1 .. right - 1\<close>, a range whose end is before its start.
\<close>

lemma get_recent_gap_inverted:
  assumes "window_ok w" "rev (sw_intervals w) = (left, e) # (s, right) # rest" "0 < right"
  shows "get_recent_gap w = Ok (Some (psn_new (left + 1), psn_new (right - 1))) \<and>
    unat (psn_get (psn_new (right - 1))) < unat (psn_get (psn_new (left + 1))) \<and>
    {unat right + 1..unat left - 1} \<noteq> {} \<and> {unat right + 1..unat left - 1} \<inter> window_cov w = {}"
proof -
  have ok: "bt_invar (sw_intervals w)" "ivs_ok (bt_get (sw_intervals w))"
    using assms(1) by (simp_all add: sw_inv_def)
  have iv: "sw_intervals w = rev rest @ [(s, right), (left, e)]"
    using arg_cong[OF assms(2), of rev] by simp
  have get: "bt_get (sw_intervals w) s = Some right" "bt_get (sw_intervals w) left = Some e"
    using bt_get_mem[OF ok(1)] iv by simp_all
  have "s < left"
    using ok(1) iv by (simp add: bt_invar_def sorted_wrt_append)
  then have sep: "unat right + 1 < unat left"
    using ivs_ok_sep[OF ok(2) get] by (simp add: word_less_nat_alt)
  have lt: "unat left < 2 ^ 23"
    using ivs_okD[OF ok(2) get(2)] by simp
  then have u: "unat (left + 1) = unat left + 1" "unat (right - 1) = unat right - 1"
    using unat_succ_iv unat_pred_iv[of 0 right] assms(3) by (simp_all add: word_less_nat_alt)
  then have "left + 1 \<noteq> right"
    using sep by auto
  then have "get_recent_gap w = Ok (Some (psn_new (left + 1), psn_new (right - 1)))"
    by (simp add: get_recent_gap_def assms(2))
  moreover have "unat (psn_get (psn_new (right - 1))) < unat (psn_get (psn_new (left + 1)))"
    using u sep lt by (simp add: unat_psn_new)
  moreover have "{unat right + 1..unat left - 1} \<inter> window_cov w = {}"
    using gap_missing[OF assms(1) iv] by auto
  ultimately show ?thesis
    using sep by auto
qed

text \<open>
  C14. For a window that has received the first packet and is in order, the
  recovery point is the sequence number of the first packet that has not arrived;
  the lookup of the interval at offset zero does not panic.
\<close>

theorem try_get_recover_psn_next:
  assumes "window_ok w" "\<not> is_out_of_order w" "0 \<in> window_cov w"
    and "\<not> is_complete w \<or> window_cov w = {0..<unat (sw_num_of_packets w)}"
  shows "\<exists>k. window_cov w = {0..<k} \<and>
    try_get_recover_psn w = Ok (Some (wrapping_add (sw_start_psn w) (of_nat k)))"
proof -
  let ?g = "bt_get (sw_intervals w)"
  have ok: "bt_invar (sw_intervals w)" "ivs_ok ?g"
    using assms(1) by (simp_all add: sw_inv_def)
  obtain e where e: "?g 0 = Some e"
    using assms(3) by (auto simp: coverage_def unat_eq_zero)
  have e23: "unat e < 2 ^ 23"
    using ivs_okD[OF ok(2) e] by simp
  have cov: "window_cov w = {0..<unat e + 1}"
  proof (cases "length (sw_intervals w) \<le> 1")
    case True
    then have "?g c = Some d \<longleftrightarrow> c = 0 \<and> d = e" for c d
      using bt_length_le_1[OF ok(1) True, of c 0] e by auto
    then show ?thesis
      by (auto simp: coverage_def)
  next
    case False
    then have c: "is_complete w"
      using assms(2) by (simp add: is_out_of_order_def)
    then have "?g 0 = Some (sw_num_of_packets w - 1)" 
      using bt.first_Some[OF ok(1)] by (fastforce simp: is_complete_def split: option.splits)
    moreover have "0 < unat (sw_num_of_packets w)"
      using c assms(3,4) by auto
    ultimately show ?thesis
      using e c assms(4) unat_pred_iv[of 0 "sw_num_of_packets w"] by simp
  qed
  have "e + 1 = of_nat (unat e + 1)"
    by simp
  with e assms(2) cov show ?thesis
    by (intro exI[of _ "unat e + 1"]) (simp add: try_get_recover_psn_def add.commute)
qed

theorem try_get_recover_psn_next_witness:
  "try_get_recover_psn (receive_all [psn_new 0xFFFFFF, psn_new 0] (SlidingWindow_new (psn_new 0xFFFFFF) 4))
     = Ok (Some (psn_new 1)) \<and>
   window_cov (receive_all [psn_new 0xFFFFFF, psn_new 0] (SlidingWindow_new (psn_new 0xFFFFFF) 4)) = {0..<2}"
proof -
  let ?w = "receive_all [psn_new 0xFFFFFF, psn_new 0] (SlidingWindow_new (psn_new 0xFFFFFF) 4)"
  have w: "?w = \<lparr> sw_intervals = [(0, 1)], sw_start_psn = psn_new 0xFFFFFF, sw_num_of_packets = 4 \<rparr>"
    by code_simp
  have cov: "window_cov ?w = {0..<2}"
    unfolding w by (auto simp: coverage_def split: if_splits)
  moreover have "window_ok ?w" "\<not> is_out_of_order ?w" "\<not> is_complete ?w"
    unfolding w by (auto simp: sw_inv_def bt_invar_def ivs_ok_def is_out_of_order_def is_complete_def
        bt_first_def split: if_splits)
  ultimately obtain k where k: "{0..<2} = {0..<k}"
    "try_get_recover_psn ?w = Ok (Some (wrapping_add (sw_start_psn ?w) (of_nat k)))"
    using try_get_recover_psn_next[of ?w] by auto
  have "k = 2"
    using arg_cong[OF k(1), of card] by simp
  moreover have "wrapping_add (sw_start_psn ?w) 2 = psn_new 1"
    unfolding w by code_simp
  ultimately show ?thesis
    using k cov by simp
qed

end
