(* ===== verification/Ringbuf.thy ===== *)
theory Ringbuf
  imports Prelude
begin

unbundle bit_operations_syntax

text \<open>
  The ring buffers between host and card, \<^verbatim>\<open>src/device/ringbuf.rs\<close>: the writer and the
  reader with their cached head and tail, the guard bit test for a full ring, the
  unsafe computation of a descriptor slot, and the reader that polls the memory
  itself. A writer borrows the fields of its ring, so its record extends the
  ring's. The registers of the card are outside the code: each read of a register
  is a value given to the operation, with the time elapsed, and each write is a
  value returned by it. A loop that waits for the card recurses over the values the
  register shows; \<open>Waiting\<close> means that none of them let it through.
\<close>

datatype DeviceError =
    DeviceE string
  | SchedulerE string
  | ParseDesc string
  | Timeout

datatype 'a wait = Ready 'a | Failed DeviceError | Waiting

definition RINGBUF_DEPTH :: usize where "RINGBUF_DEPTH = 128"
definition RINGBUF_ELEM_SIZE :: usize where "RINGBUF_ELEM_SIZE = 32"
definition RINGBUF_PAGE_SIZE :: usize where "RINGBUF_PAGE_SIZE = 4096"

subsection \<open>Index arithmetic\<close>

definition is_power_of_2 :: "usize \<Rightarrow> bool" where
  "is_power_of_2 v \<longleftrightarrow> v AND (v - 1) = 0"

definition is_full_helper :: "usize \<Rightarrow> usize \<Rightarrow> usize \<Rightarrow> usize \<Rightarrow> bool" where
  "is_full_helper head tail memory_idx_mask hardware_idx_guard_mask =
     (let head_guard = head AND hardware_idx_guard_mask;
          tail_guard = tail AND hardware_idx_guard_mask;
          head_low = head AND memory_idx_mask;
          tail_low = tail AND memory_idx_mask
      in head_guard \<noteq> tail_guard \<and> head_low = tail_low)"

definition is_empty_helper :: "usize \<Rightarrow> usize \<Rightarrow> bool" where
  "is_empty_helper head tail \<longleftrightarrow> head = tail"

definition wrapping_add_helper :: "usize \<Rightarrow> usize \<Rightarrow> usize \<Rightarrow> usize" where
  "wrapping_add_helper current cnt hardware_idx_mask = (current + cnt) AND hardware_idx_mask"

definition gen_hardware_idx_mask :: "usize \<Rightarrow> usize" where
  "gen_hardware_idx_mask depth = depth * 2 - 1"

definition gen_hardware_idx_guard_mask :: "usize \<Rightarrow> usize" where
  "gen_hardware_idx_guard_mask depth = depth"

definition gen_memory_idx_mask :: "usize \<Rightarrow> usize" where
  "gen_memory_idx_mask depth = depth - 1"

text \<open>The offset of the slice that the unsafe helper makes; the slice has \<open>element_size\<close> bytes.\<close>

definition get_descriptor_mut_helper :: "usize \<Rightarrow> usize \<Rightarrow> usize \<Rightarrow> usize" where
  "get_descriptor_mut_helper idx element_size idx_mask = (idx AND idx_mask) * element_size"

definition read_slice :: "u8 list \<Rightarrow> nat \<Rightarrow> nat \<Rightarrow> u8 list" where
  "read_slice buf off n = take n (drop off buf)"

definition write_slice :: "u8 list \<Rightarrow> nat \<Rightarrow> u8 list \<Rightarrow> u8 list" where
  "write_slice buf off bytes = take off buf @ bytes @ drop (off + length bytes) buf"

subsection \<open>Ring and writer\<close>

record Ringbuf =
  rb_buf :: "u8 list"
  rb_head :: usize
  rb_tail :: usize

text \<open>\<^verbatim>\<open>new\<close> asserts that the buffer is aligned, a multiple of the page size and large enough.\<close>

definition Ringbuf_new :: "usize \<Rightarrow> usize \<Rightarrow> usize \<Rightarrow> usize \<Rightarrow> u8 list \<Rightarrow> (panic, Ringbuf) result" where
  "Ringbuf_new depth elem_size page_size buf_addr buffer =
     (if buf_addr mod page_size \<noteq> 0 then Err Panic
      else if of_nat (length buffer) mod page_size \<noteq> 0 then Err Panic
      else if \<not> of_nat (length buffer) \<ge> depth * elem_size then Err Panic
      else Ok \<lparr> rb_buf = buffer, rb_head = 0, rb_tail = 0 \<rparr>)"

record RingbufWriter = Ringbuf +
  written_cnt :: usize

definition Ringbuf_write :: "Ringbuf \<Rightarrow> RingbufWriter" where
  "Ringbuf_write self =
     \<lparr> rb_buf = rb_buf self, rb_head = rb_head self, rb_tail = rb_tail self, written_cnt = 0 \<rparr>"

definition writer_would_it_full :: "usize \<Rightarrow> usize \<Rightarrow> usize \<Rightarrow> bool" where
  "writer_would_it_full depth new_head new_tail =
     is_full_helper new_head new_tail (gen_memory_idx_mask depth) (gen_hardware_idx_guard_mask depth)"

definition next_head_idx :: "usize \<Rightarrow> RingbufWriter \<Rightarrow> usize" where
  "next_head_idx depth self =
     wrapping_add_helper (rb_head self) (written_cnt self) (gen_hardware_idx_mask depth)"

text \<open>
  \<open>write_head\<close> is what the register write returns; a successful call returns the value
  written to the register.
\<close>

definition advance_head ::
  "usize \<Rightarrow> (DeviceError, unit) result \<Rightarrow> RingbufWriter \<Rightarrow> (DeviceError, u32) result \<times> RingbufWriter" where
  "advance_head depth write_head self =
     (let new_head = next_head_idx depth self;
          self = self\<lparr> rb_head := new_head \<rparr>
      in case write_head of
           Inl e \<Rightarrow> (Err e, self)
         | Inr _ \<Rightarrow> (Ok (ucast new_head), self\<lparr> written_cnt := 0 \<rparr>))"

text \<open>The loop on \<^verbatim>\<open>read_tail\<close>: the values read, each with the milliseconds elapsed.\<close>

fun wait_tail :: "usize \<Rightarrow> nat \<Rightarrow> usize \<Rightarrow> ((DeviceError, u32) result \<times> nat) list \<Rightarrow> u32 wait" where
  "wait_tail depth timeout_in_millis idx [] = Waiting"
| "wait_tail depth timeout_in_millis idx ((Inl e, elapsed) # polls) = Failed e"
| "wait_tail depth timeout_in_millis idx ((Inr new_tail, elapsed) # polls) =
     (if \<not> writer_would_it_full depth idx (ucast new_tail) then Ready new_tail
      else if timeout_in_millis > 0 \<and> elapsed > timeout_in_millis then Failed Timeout
      else wait_tail depth timeout_in_millis idx polls)"

text \<open>Returns the offset of the slot, the writer and the value written to the head register, if any.\<close>

definition writer_next_timeout ::
  "usize \<Rightarrow> usize \<Rightarrow> nat \<Rightarrow> (DeviceError, unit) result \<Rightarrow> ((DeviceError, u32) result \<times> nat) list \<Rightarrow>
   RingbufWriter \<Rightarrow> usize wait \<times> RingbufWriter \<times> u32 option" where
  "writer_next_timeout depth elem_size timeout_in_millis write_head polls self =
     (let idx = next_head_idx depth self;
          slot = get_descriptor_mut_helper idx elem_size (gen_memory_idx_mask depth)
      in if writer_would_it_full depth idx (rb_tail self) then
           (case advance_head depth write_head self of
              (Inl e, self) \<Rightarrow> (Failed e, self, None)
            | (Inr head, self) \<Rightarrow>
                (case wait_tail depth timeout_in_millis idx polls of
                   Ready new_tail \<Rightarrow>
                     (Ready slot,
                      self\<lparr> rb_tail := ucast new_tail, written_cnt := written_cnt self + 1 \<rparr>, Some head)
                 | Failed e \<Rightarrow> (Failed e, self, Some head)
                 | Waiting \<Rightarrow> (Waiting, self, Some head)))
         else (Ready slot, self\<lparr> written_cnt := written_cnt self + 1 \<rparr>, None))"

text \<open>Dropping the writer advances the head and gives the borrowed fields back.\<close>

definition writer_drop ::
  "usize \<Rightarrow> (DeviceError, unit) result \<Rightarrow> RingbufWriter \<Rightarrow> (DeviceError, u32) result \<times> Ringbuf" where
  "writer_drop depth write_head self =
     (case advance_head depth write_head self of (r, self) \<Rightarrow>
        (r, \<lparr> rb_buf = rb_buf self, rb_head = rb_head self, rb_tail = rb_tail self \<rparr>))"

subsection \<open>Reader\<close>

record RingbufReader = Ringbuf +
  read_cnt :: usize

definition Ringbuf_read :: "Ringbuf \<Rightarrow> RingbufReader" where
  "Ringbuf_read self =
     \<lparr> rb_buf = rb_buf self, rb_head = rb_head self, rb_tail = rb_tail self, read_cnt = 0 \<rparr>"

definition next_tail_idx :: "usize \<Rightarrow> RingbufReader \<Rightarrow> usize" where
  "next_tail_idx depth self =
     wrapping_add_helper (rb_tail self) (read_cnt self) (gen_hardware_idx_mask depth)"

definition reader_would_it_empty :: "usize \<Rightarrow> usize \<Rightarrow> bool" where
  "reader_would_it_empty new_head new_tail = is_empty_helper new_head new_tail"

definition reader_is_full :: "usize \<Rightarrow> RingbufReader \<Rightarrow> bool" where
  "reader_is_full depth self =
     is_full_helper (rb_head self) (rb_tail self) (gen_memory_idx_mask depth)
       (gen_hardware_idx_guard_mask depth)"

definition advance_tail ::
  "usize \<Rightarrow> (DeviceError, unit) result \<Rightarrow> RingbufReader \<Rightarrow> (DeviceError, u32) result \<times> RingbufReader" where
  "advance_tail depth write_tail self =
     (let new_tail = next_tail_idx depth self
      in case write_tail of
           Inl e \<Rightarrow> (Err e, self)
         | Inr _ \<Rightarrow> (Ok (ucast new_tail), self\<lparr> rb_tail := new_tail, read_cnt := 0 \<rparr>))"

fun wait_head :: "nat \<Rightarrow> usize \<Rightarrow> ((DeviceError, u32) result \<times> nat) list \<Rightarrow> u32 wait" where
  "wait_head timeout_in_millis next_tail [] = Waiting"
| "wait_head timeout_in_millis next_tail ((Inl e, elapsed) # polls) = Failed e"
| "wait_head timeout_in_millis next_tail ((Inr new_head, elapsed) # polls) =
     (if \<not> reader_would_it_empty (ucast new_head) next_tail then Ready new_head
      else if timeout_in_millis > 0 \<and> elapsed > timeout_in_millis then Failed Timeout
      else wait_head timeout_in_millis next_tail polls)"

definition reader_next_timeout ::
  "usize \<Rightarrow> usize \<Rightarrow> nat \<Rightarrow> (DeviceError, unit) result \<Rightarrow> ((DeviceError, u32) result \<times> nat) list \<Rightarrow>
   RingbufReader \<Rightarrow> usize wait \<times> RingbufReader \<times> u32 option" where
  "reader_next_timeout depth elem_size timeout_in_millis write_tail polls self =
     (case (if reader_is_full depth self
            then (case advance_tail depth write_tail self of
                    (Inl e, self) \<Rightarrow> (Some e, self, None)
                  | (Inr tail, self) \<Rightarrow> (None, self, Some tail))
            else (None, self, None)) of
        (Some e, self, w) \<Rightarrow> (Failed e, self, w)
      | (None, self, w) \<Rightarrow>
          (let next_tail = next_tail_idx depth self;
               slot = get_descriptor_mut_helper next_tail elem_size (gen_memory_idx_mask depth)
           in if reader_would_it_empty (rb_head self) next_tail then
                (case wait_head timeout_in_millis next_tail polls of
                   Ready new_head \<Rightarrow>
                     (Ready slot, self\<lparr> rb_head := ucast new_head, read_cnt := read_cnt self + 1 \<rparr>, w)
                 | Failed e \<Rightarrow> (Failed e, self, w)
                 | Waiting \<Rightarrow> (Waiting, self, w))
              else (Ready slot, self\<lparr> read_cnt := read_cnt self + 1 \<rparr>, w)))"

definition reader_drop ::
  "usize \<Rightarrow> (DeviceError, unit) result \<Rightarrow> RingbufReader \<Rightarrow> (DeviceError, u32) result \<times> Ringbuf" where
  "reader_drop depth write_tail self =
     (case advance_tail depth write_tail self of (r, self) \<Rightarrow>
        (r, \<lparr> rb_buf = rb_buf self, rb_head = rb_head self, rb_tail = rb_tail self \<rparr>))"

subsection \<open>Reader that polls the descriptor\<close>

text \<open>Each poll of the adaptor returns whether the descriptor is ready and the bytes it leaves there.\<close>

definition advance_idx :: "usize \<Rightarrow> Ringbuf \<Rightarrow> Ringbuf" where
  "advance_idx depth self =
     (let next_idx = wrapping_add_helper (rb_head self) 1 (gen_hardware_idx_mask depth)
      in self\<lparr> rb_head := next_idx, rb_tail := next_idx \<rparr>)"

fun poll_next_timeout ::
  "usize \<Rightarrow> usize \<Rightarrow> nat \<Rightarrow> ((DeviceError, bool) result \<times> u8 list \<times> nat) list \<Rightarrow> Ringbuf \<Rightarrow>
   usize wait \<times> Ringbuf" where
  "poll_next_timeout depth elem_size timeout_in_millis [] self = (Waiting, self)"
| "poll_next_timeout depth elem_size timeout_in_millis ((r, bytes, elapsed) # polls) self =
     (let slot = get_descriptor_mut_helper (rb_head self) elem_size (gen_memory_idx_mask depth);
          self = self\<lparr> rb_buf := write_slice (rb_buf self) (unat slot) bytes \<rparr>
      in case r of
           Inl e \<Rightarrow> (Failed e, self)
         | Inr True \<Rightarrow> (Ready slot, advance_idx depth self)
         | Inr False \<Rightarrow>
             (if timeout_in_millis > 0 \<and> elapsed > timeout_in_millis then (Failed Timeout, self)
              else poll_next_timeout depth elem_size timeout_in_millis polls self))"

subsection \<open>Indices as numbers\<close>

text \<open>
  The depth is a power of two, \<open>2 ^ k\<close>; hardware indices count modulo twice the depth.
  The lemmas hold for every depth the 32 bit registers can hold.
\<close>

lemma unat_two_power:
  assumes "k < 64"
  shows "unat (2 ^ k :: usize) = 2 ^ k"
proof -
  have "(2 :: nat) ^ k < 2 ^ 64"
    using assms by (intro power_strict_increasing) simp_all
  then show ?thesis
    using unat_of_nat[of "2 ^ k", where 'a = 64] by simp
qed

lemma hardware_mask: "gen_hardware_idx_mask (2 ^ k) = mask (Suc k)"
  by (simp add: gen_hardware_idx_mask_def mask_eq_exp_minus_1 mult.commute)

lemma memory_mask: "gen_memory_idx_mask (2 ^ k) = mask k"
  by (simp add: gen_memory_idx_mask_def mask_eq_exp_minus_1)

lemma unat_wrapping_add_helper:
  assumes "Suc k \<le> 64"
  shows "unat (wrapping_add_helper a b (gen_hardware_idx_mask (2 ^ k))) = (unat a + unat b) mod 2 ^ Suc k"
proof -
  have "(2 :: nat) ^ Suc k dvd 2 ^ 64"
    using assms by (rule le_imp_power_dvd)
  then show ?thesis
    by (simp only: wrapping_add_helper_def hardware_mask unat_and_mask unat_word_ariths)
      (simp add: mod_mod_cancel)
qed

lemma and_two_power_eq_iff:
  assumes "k < 64"
  shows "(a :: usize) AND 2 ^ k = b AND 2 ^ k \<longleftrightarrow> bit a k = bit b k"
proof
  assume "a AND 2 ^ k = b AND 2 ^ k"
  then have "bit (a AND 2 ^ k) k = bit (b AND 2 ^ k) k"
    by simp
  with assms show "bit a k = bit b k"
    by (simp add: bit_and_iff bit_exp_iff)
next
  assume "bit a k = bit b k"
  then show "a AND 2 ^ k = b AND 2 ^ k"
    by (intro bit_word_eqI) (auto simp: bit_and_iff bit_exp_iff)
qed

lemma bit_usize_iff: "k < 64 \<Longrightarrow> bit (a :: usize) k \<longleftrightarrow> odd (unat a div 2 ^ k)"
  using bit_unsigned_iff[where 'a = nat, of a k] bit_iff_odd[of "unat a" k] by simp

lemma and_mask_eq_iff:
  "(a :: usize) AND mask k = b AND mask k \<longleftrightarrow> unat a mod 2 ^ k = unat b mod 2 ^ k"
  by (simp add: word_unat_eq_iff unat_and_mask)

lemma is_full_helper_nat:
  assumes "k < 64"
  shows "is_full_helper h t (gen_memory_idx_mask (2 ^ k)) (gen_hardware_idx_guard_mask (2 ^ k)) \<longleftrightarrow>
    unat h mod 2 ^ k = unat t mod 2 ^ k \<and> odd (unat h div 2 ^ k) \<noteq> odd (unat t div 2 ^ k)"
  using assms
  by (auto simp: is_full_helper_def Let_def memory_mask gen_hardware_idx_guard_mask_def
      and_two_power_eq_iff bit_usize_iff and_mask_eq_iff)

text \<open>
  The guard bit test on two counters that run at most one depth apart, as the
  registers show them: it holds exactly when they are one depth apart.
\<close>

lemma guard_test_counters:
  assumes "b \<le> a" "a \<le> b + 2 ^ k"
  shows "((a mod 2 ^ Suc k) mod 2 ^ k = (b mod 2 ^ Suc k) mod 2 ^ k \<and>
      odd ((a mod 2 ^ Suc k) div 2 ^ k) \<noteq> odd ((b mod 2 ^ Suc k) div 2 ^ k)) \<longleftrightarrow> a = b + (2 :: nat) ^ k"
proof -
  have low: "(c mod (2 * 2 ^ k)) mod 2 ^ k = c mod (2 :: nat) ^ k" for c
    by (simp add: mod_mod_cancel)
  have high: "odd ((c mod (2 * 2 ^ k)) div 2 ^ k) = odd (c div (2 :: nat) ^ k)" for c
    by (subst mult.commute) (simp add: mod_mult2_eq even_iff_mod_2_eq_zero)
  show ?thesis
  proof (cases "a = b + 2 ^ k")
    case True
    then show ?thesis
      by (simp add: low high div_add_self2)
  next
    case False
    with assms have lt: "a - b < 2 ^ k"
      by simp
    have "a = b" if "a mod 2 ^ k = b mod 2 ^ k"
    proof -
      have "(a - b) mod 2 ^ k = 0"
        using that assms(1) by (metis mod_eq_dvd_iff_nat dvd_imp_mod_0)
      with lt assms(1) show ?thesis
        by simp
    qed
    with False show ?thesis
      by (auto simp: low high)
  qed
qed

lemma writer_full_iff:
  assumes "Suc k \<le> 64" "unat h = a mod 2 ^ Suc k" "unat t = b mod 2 ^ Suc k" "b \<le> a" "a \<le> b + 2 ^ k"
  shows "writer_would_it_full (2 ^ k) h t \<longleftrightarrow> a = b + 2 ^ k"
  using assms guard_test_counters[of b a k]
  by (simp add: writer_would_it_full_def is_full_helper_nat)

subsection \<open>Slots\<close>

lemma unat_slot:
  assumes "k < 64" "2 ^ k * unat e < 2 ^ 64"
  shows "unat (get_descriptor_mut_helper i e (gen_memory_idx_mask (2 ^ k))) = (unat i mod 2 ^ k) * unat e"
proof -
  have "(unat i mod 2 ^ k) * unat e \<le> 2 ^ k * unat e"
    by (simp add: less_imp_le)
  with assms(2) have "(unat i mod 2 ^ k) * unat e < 2 ^ 64"
    by linarith
  then show ?thesis
    by (simp add: get_descriptor_mut_helper_def memory_mask unat_word_ariths unat_and_mask)
qed

text \<open>
  The slice that the unsafe helper makes for a descriptor lies inside the buffer of
  every ring that \<^const>\<open>Ringbuf_new\<close> accepts, whatever the index.
\<close>

lemma descriptor_slice_in_bounds:
  assumes "Ringbuf_new (2 ^ k) e page addr buffer = Ok rb"
    and "k < 64" "2 ^ k * unat e < 2 ^ 64" "length buffer < 2 ^ 64"
  shows "unat (get_descriptor_mut_helper i e (gen_memory_idx_mask (2 ^ k))) + unat e \<le> length (rb_buf rb)"
proof -
  have "(2 ^ k) * e \<le> (of_nat (length buffer) :: usize)" "rb_buf rb = buffer"
    using assms(1) by (auto simp: Ringbuf_new_def split: if_splits)
  moreover have "unat ((2 ^ k) * e) = 2 ^ k * unat e"
    using assms(2,3) by (simp add: unat_word_ariths unat_two_power)
  ultimately have "2 ^ k * unat e \<le> length (rb_buf rb)"
    using assms(4) by (simp add: word_le_nat_alt unat_of_nat)
  moreover have "Suc (unat i mod 2 ^ k) * unat e \<le> 2 ^ k * unat e"
    by (rule mult_le_mono1) (simp add: Suc_leI)
  ultimately show ?thesis
    using unat_slot[OF assms(2,3)] by simp
qed

lemma length_write_slice [simp]:
  "off + length bytes \<le> length buf \<Longrightarrow> length (write_slice buf off bytes) = length buf"
  by (simp add: write_slice_def)

lemma read_write_slice_same:
  "off + length bytes \<le> length buf \<Longrightarrow> read_slice (write_slice buf off bytes) off (length bytes) = bytes"
  by (simp add: read_slice_def write_slice_def)

lemma nth_write_slice:
  "off + length bytes \<le> length buf \<Longrightarrow> j < length buf \<Longrightarrow>
     write_slice buf off bytes ! j = (if off \<le> j \<and> j < off + length bytes then bytes ! (j - off) else buf ! j)"
  by (auto simp: write_slice_def nth_append)

lemma read_write_slice_other:
  assumes "off + length bytes \<le> length buf" "off' + n \<le> length buf"
    and "off' + n \<le> off \<or> off + length bytes \<le> off'"
  shows "read_slice (write_slice buf off bytes) off' n = read_slice buf off' n"
  by (rule nth_equalityI) (use assms in \<open>auto simp: read_slice_def nth_write_slice\<close>)

lemma slots_disjoint:
  assumes "i \<noteq> (j :: nat)"
  shows "i * e + e \<le> j * e \<or> j * e + e \<le> i * e"
proof (cases "i < j")
  case True
  then have "Suc i * e \<le> j * e"
    by (intro mult_le_mono1) simp
  then show ?thesis
    by simp
next
  case False
  with assms have "Suc j * e \<le> i * e"
    by (intro mult_le_mono1) simp
  then show ?thesis
    by simp
qed

lemma slot_fits:
  assumes "2 ^ k * e \<le> (n :: nat)"
  shows "(i mod 2 ^ k) * e + e \<le> n"
proof -
  have "Suc (i mod 2 ^ k) * e \<le> 2 ^ k * e"
    by (rule mult_le_mono1) (simp add: Suc_leI)
  with assms show ?thesis
    by simp
qed

lemma distinct_slots:
  assumes "i < n" "n < i + 2 ^ k"
  shows "i mod 2 ^ k \<noteq> n mod (2 :: nat) ^ k"
proof
  assume "i mod 2 ^ k = n mod 2 ^ k"
  then have "2 ^ k dvd n - i"
    using assms(1) by (metis less_imp_le mod_eq_dvd_iff_nat)
  then have "2 ^ k \<le> n - i"
    using assms(1) by (intro dvd_imp_le) simp_all
  with assms show False
    by linarith
qed

subsection \<open>Lossless ordered links\<close>

text \<open>
  What the rings promise their two sides: whatever steps are taken, the receiver has
  received a prefix of what the sender sent, and never more than a bounded number of
  items are under way.
\<close>

locale fifo_link =
  fixes step :: "'s \<Rightarrow> 's \<Rightarrow> bool"
    and inv :: "'s \<Rightarrow> bool"
    and sent :: "'s \<Rightarrow> 'd list"
    and received :: "'s \<Rightarrow> 'd list"
    and bound :: nat
  assumes inv_step: "inv s \<Longrightarrow> step s s' \<Longrightarrow> inv s'"
    and inv_prefix: "inv s \<Longrightarrow> received s = take (length (received s)) (sent s)"
    and inv_bound: "inv s \<Longrightarrow> length (sent s) \<le> length (received s) + bound"
begin

lemma inv_reach: "step\<^sup>*\<^sup>* s s' \<Longrightarrow> inv s \<Longrightarrow> inv s'"
  by (induction rule: rtranclp_induct) (auto intro: inv_step)

lemma fifo_reach:
  assumes "inv s" "step\<^sup>*\<^sup>* s s'"
  shows "\<exists>pending. sent s' = received s' @ pending \<and> length pending \<le> bound"
proof (intro exI conjI)
  have inv': "inv s'"
    using inv_reach assms by blast
  then show "sent s' = received s' @ drop (length (received s')) (sent s')"
    using inv_prefix[OF inv'] by (metis append_take_drop_id)
  show "length (drop (length (received s')) (sent s')) \<le> bound"
    using inv_bound[OF inv'] by simp
qed

end

subsection \<open>The ring to the card as a queue\<close>

text \<open>
  The driver writes descriptors into slots and publishes them by advancing the head
  register; the card takes the descriptor at its tail register while the registers
  differ. The two histories record what was written and what was taken. Every read
  of the tail register shows its present value, and every register write succeeds;
  the order of the steps of the two sides is arbitrary.
\<close>

record to_card =
  tc_writer :: RingbufWriter
  tc_csr_head :: u32
  tc_csr_tail :: u32
  tc_written :: "u8 list list"
  tc_taken :: "u8 list list"

definition publish :: "u32 option \<Rightarrow> to_card \<Rightarrow> to_card" where
  "publish p s = (case p of None \<Rightarrow> s | Some h \<Rightarrow> s\<lparr> tc_csr_head := h \<rparr>)"

inductive tc_step :: "usize \<Rightarrow> usize \<Rightarrow> to_card \<Rightarrow> to_card \<Rightarrow> bool" for depth elem_size where
  tc_next: "writer_next_timeout depth elem_size timeout (Inr ()) [(Inr (tc_csr_tail s), elapsed)] (tc_writer s)
      = (Ready slot, w, p) \<Longrightarrow> length d = unat elem_size \<Longrightarrow>
    tc_step depth elem_size s
      (publish p (s\<lparr> tc_writer := w\<lparr> rb_buf := write_slice (rb_buf w) (unat slot) d \<rparr>,
                     tc_written := tc_written s @ [d] \<rparr>))"
| tc_blocked: "writer_next_timeout depth elem_size timeout (Inr ()) [(Inr (tc_csr_tail s), elapsed)] (tc_writer s)
      = (r, w, p) \<Longrightarrow> \<forall>slot. r \<noteq> Ready slot \<Longrightarrow>
    tc_step depth elem_size s (publish p (s\<lparr> tc_writer := w \<rparr>))"
| tc_drop: "writer_drop depth (Inr ()) (tc_writer s) = (Inr h, rb) \<Longrightarrow>
    tc_step depth elem_size s (s\<lparr> tc_writer := Ringbuf_write rb, tc_csr_head := h \<rparr>)"
| tc_take: "tc_csr_tail s \<noteq> tc_csr_head s \<Longrightarrow>
    slot = get_descriptor_mut_helper (ucast (tc_csr_tail s)) elem_size (gen_memory_idx_mask depth) \<Longrightarrow>
    tc_step depth elem_size s
      (s\<lparr> tc_csr_tail := ucast (wrapping_add_helper (ucast (tc_csr_tail s)) 1 (gen_hardware_idx_mask depth)),
          tc_taken := tc_taken s @ [read_slice (rb_buf (tc_writer s)) (unat slot) (unat elem_size)] \<rparr>)"

inductive_cases tc_stepE [consumes 1, case_names tc_next tc_blocked tc_drop tc_take]: "tc_step depth elem_size s s'"

definition tc_init :: "u8 list \<Rightarrow> to_card" where
  "tc_init buffer =
     \<lparr> tc_writer = Ringbuf_write \<lparr> rb_buf = buffer, rb_head = 0, rb_tail = 0 \<rparr>,
       tc_csr_head = 0, tc_csr_tail = 0, tc_written = [], tc_taken = [] \<rparr>"

text \<open>
  The invariant counts descriptors from the start: \<open>pub\<close> published, \<open>ct\<close> known by the
  writer to be taken. The registers and the cached indices are these counters modulo
  twice the depth.
\<close>

definition tc_rel :: "nat \<Rightarrow> usize \<Rightarrow> to_card \<Rightarrow> nat \<Rightarrow> nat \<Rightarrow> bool" where
  "tc_rel k e s pub ct \<longleftrightarrow>
     ct \<le> length (tc_taken s) \<and> length (tc_taken s) \<le> pub \<and> pub \<le> length (tc_written s) \<and>
     length (tc_written s) \<le> ct + 2 ^ k \<and>
     unat (rb_head (tc_writer s)) = pub mod 2 ^ Suc k \<and>
     unat (rb_tail (tc_writer s)) = ct mod 2 ^ Suc k \<and>
     unat (written_cnt (tc_writer s)) = length (tc_written s) - pub \<and>
     unat (tc_csr_head s) = pub mod 2 ^ Suc k \<and>
     unat (tc_csr_tail s) = length (tc_taken s) mod 2 ^ Suc k \<and>
     tc_taken s = take (length (tc_taken s)) (tc_written s) \<and>
     2 ^ k * unat e \<le> length (rb_buf (tc_writer s)) \<and>
     (\<forall>i. length (tc_taken s) \<le> i \<and> i < length (tc_written s) \<longrightarrow>
        read_slice (rb_buf (tc_writer s)) ((i mod 2 ^ k) * unat e) (unat e) = tc_written s ! i)"

definition tc_inv :: "nat \<Rightarrow> usize \<Rightarrow> to_card \<Rightarrow> bool" where
  "tc_inv k e s \<longleftrightarrow> (\<exists>pub ct. tc_rel k e s pub ct)"

lemma unat_ucast_idx:
  assumes "k \<le> 31" "unat (i :: usize) = c mod 2 ^ Suc k"
  shows "unat (ucast i :: u32) = c mod 2 ^ Suc k"
proof -
  have "c mod 2 ^ Suc k < 2 ^ Suc k"
    by simp
  also have "\<dots> \<le> (2 :: nat) ^ 32"
    using assms(1) by (intro power_increasing) simp_all
  finally show ?thesis
    using assms(2) by (simp add: unsigned_ucast_eq take_bit_eq_mod)
qed

lemma tc_next_head_idx:
  assumes "tc_rel k e s pub ct" "k \<le> 31"
  shows "unat (next_head_idx (2 ^ k) (tc_writer s)) = length (tc_written s) mod 2 ^ Suc k"
proof -
  have "unat (next_head_idx (2 ^ k) (tc_writer s)) =
      (pub mod 2 ^ Suc k + (length (tc_written s) - pub)) mod 2 ^ Suc k"
    using assms by (simp add: next_head_idx_def unat_wrapping_add_helper tc_rel_def)
  also have "\<dots> = length (tc_written s) mod 2 ^ Suc k"
    using assms(1) by (subst mod_add_left_eq) (simp add: tc_rel_def)
  finally show ?thesis .
qed

lemma tc_rel_advance:
  assumes "tc_rel k e s pub ct" "k \<le> 31"
    and "advance_head (2 ^ k) (Inr ()) (tc_writer s) = (r, w)"
  shows "r = Inr (ucast (next_head_idx (2 ^ k) (tc_writer s)))"
    and "tc_rel k e (s\<lparr> tc_writer := w, tc_csr_head := ucast (next_head_idx (2 ^ k) (tc_writer s)) \<rparr>)
      (length (tc_written s)) ct"
proof -
  note idx = tc_next_head_idx[OF assms(1,2)]
  show "r = Inr (ucast (next_head_idx (2 ^ k) (tc_writer s)))"
    using assms(3) by (auto simp: advance_head_def Let_def)
  have "w = (tc_writer s)\<lparr> rb_head := next_head_idx (2 ^ k) (tc_writer s), written_cnt := 0 \<rparr>"
    using assms(3) by (auto simp: advance_head_def Let_def)
  then show "tc_rel k e (s\<lparr> tc_writer := w, tc_csr_head := ucast (next_head_idx (2 ^ k) (tc_writer s)) \<rparr>)
      (length (tc_written s)) ct"
    using assms(1) idx unat_ucast_idx[OF assms(2) idx] by (simp add: tc_rel_def)
qed

lemma tc_rel_see_tail:
  assumes "tc_rel k e s pub ct"
  shows "tc_rel k e (s\<lparr> tc_writer := (tc_writer s)\<lparr> rb_tail := ucast (tc_csr_tail s) \<rparr> \<rparr>)
    pub (length (tc_taken s))"
  using assms by (auto simp: tc_rel_def unat_ucast_up)

lemma tc_rel_fill:
  assumes rel: "tc_rel k e s pub ct" and k: "k \<le> 31" "2 ^ k * unat e < 2 ^ 64"
    and room: "length (tc_written s) < ct + 2 ^ k" and d: "length d = unat e"
    and slot: "slot = get_descriptor_mut_helper (next_head_idx (2 ^ k) (tc_writer s)) e (gen_memory_idx_mask (2 ^ k))"
  shows "tc_rel k e (s\<lparr> tc_writer := (tc_writer s)\<lparr> written_cnt := written_cnt (tc_writer s) + 1,
      rb_buf := write_slice (rb_buf (tc_writer s)) (unat slot) d \<rparr>, tc_written := tc_written s @ [d] \<rparr>) pub ct"
proof -
  let ?n = "length (tc_written s)" and ?buf = "rb_buf (tc_writer s)"
  have off: "unat slot = (?n mod 2 ^ k) * unat e"
    using unat_slot[of k e] tc_next_head_idx[OF rel k(1)] k slot by (simp add: mod_mod_cancel)
  have size: "2 ^ k * unat e \<le> length ?buf"
    using rel by (simp add: tc_rel_def)
  note inb = slot_fits[OF size]
  have "?n - pub < 2 ^ 64 - 1"
  proof -
    have "?n - pub \<le> 2 ^ k"
      using rel unfolding tc_rel_def by linarith
    also have "\<dots> \<le> (2 :: nat) ^ 31"
      using k(1) by (intro power_increasing) simp_all
    finally show ?thesis
      by simp
  qed
  then have cnt: "unat (written_cnt (tc_writer s) + 1) = ?n + 1 - pub"
    using rel by (subst unat_add_no_wrap) (auto simp: tc_rel_def)
  have other: "read_slice (write_slice ?buf (unat slot) d) ((i mod 2 ^ k) * unat e) (unat e) = tc_written s ! i"
    if i: "length (tc_taken s) \<le> i" "i < ?n" for i
  proof -
    have "i mod 2 ^ k \<noteq> ?n mod 2 ^ k"
      using i room rel by (intro distinct_slots) (auto simp: tc_rel_def)
    then have "read_slice (write_slice ?buf (unat slot) d) ((i mod 2 ^ k) * unat e) (unat e)
        = read_slice ?buf ((i mod 2 ^ k) * unat e) (unat e)"
      using slots_disjoint[of "i mod 2 ^ k" "?n mod 2 ^ k" "unat e"] inb[of i] inb[of ?n] off d
      by (intro read_write_slice_other) auto
    with i rel show ?thesis
      by (simp add: tc_rel_def)
  qed
  have same: "read_slice (write_slice ?buf (unat slot) d) ((?n mod 2 ^ k) * unat e) (unat e) = d"
    using read_write_slice_same[of "unat slot" d ?buf] inb[of ?n] off d by simp
  show ?thesis
    using rel room cnt other same inb[of ?n] off d
    by (auto simp: tc_rel_def nth_append less_Suc_eq)
qed

lemma publish_None [simp]: "publish None s = s"
  by (simp add: publish_def)

lemma publish_Some [simp]: "publish (Some h) s = s\<lparr> tc_csr_head := h \<rparr>"
  by (simp add: publish_def)

text \<open>
  One call of \<^const>\<open>writer_next_timeout\<close>: either it returns the slot of the next descriptor and
  there is room for it, or the ring is full and the writer has published all it wrote.
\<close>

lemma tc_rel_next:
  assumes rel: "tc_rel k e s pub ct" and k: "k \<le> 31"
    and next_eq: "writer_next_timeout (2 ^ k) e timeout (Inr ()) [(Inr (tc_csr_tail s), elapsed)] (tc_writer s) = (r, w, p)"
  obtains (room) pub' ct' w' where
    "r = Ready (get_descriptor_mut_helper (next_head_idx (2 ^ k) w') e (gen_memory_idx_mask (2 ^ k)))"
    "tc_rel k e (publish p (s\<lparr> tc_writer := w' \<rparr>)) pub' ct'"
    "length (tc_written s) < ct' + 2 ^ k" "w = w'\<lparr> written_cnt := written_cnt w' + 1 \<rparr>"
  | (full) "\<forall>slot. r \<noteq> Ready slot" "tc_rel k e (publish p (s\<lparr> tc_writer := w \<rparr>)) (length (tc_written s)) ct"
    "length (tc_written s) = length (tc_taken s) + 2 ^ k"
proof (cases "writer_would_it_full (2 ^ k) (next_head_idx (2 ^ k) (tc_writer s)) (rb_tail (tc_writer s))")
  case False
  have "length (tc_written s) \<noteq> ct + 2 ^ k"
    using False writer_full_iff[of k _ "length (tc_written s)" _ ct] tc_next_head_idx[OF rel k] rel k
    by (simp add: tc_rel_def)
  with rel have "length (tc_written s) < ct + 2 ^ k"
    by (simp add: tc_rel_def)
  moreover have "r = Ready (get_descriptor_mut_helper (next_head_idx (2 ^ k) (tc_writer s)) e (gen_memory_idx_mask (2 ^ k)))"
    "p = None" "w = (tc_writer s)\<lparr> written_cnt := written_cnt (tc_writer s) + 1 \<rparr>"
    using next_eq False by (simp_all add: writer_next_timeout_def Let_def)
  ultimately show thesis
    using room[of "tc_writer s" pub ct] rel by simp
next
  case True
  let ?idx = "next_head_idx (2 ^ k) (tc_writer s)"
  obtain w1 where adv: "advance_head (2 ^ k) (Inr ()) (tc_writer s) = (Inr (ucast ?idx), w1)"
    using tc_rel_advance(1)[OF rel k] by (cases "advance_head (2 ^ k) (Inr ()) (tc_writer s)") auto
  have w1: "w1 = (tc_writer s)\<lparr> rb_head := ?idx, written_cnt := 0 \<rparr>"
    using adv by (simp add: advance_head_def Let_def)
  define s1 where "s1 = s\<lparr> tc_writer := w1, tc_csr_head := ucast ?idx \<rparr>"
  have rel1: "tc_rel k e s1 (length (tc_written s)) ct"
    using tc_rel_advance(2)[OF rel k adv] by (simp add: s1_def)
  have idx1: "next_head_idx (2 ^ k) w1 = ?idx"
    using tc_next_head_idx[OF rel1 k] tc_next_head_idx[OF rel k]
    by (simp add: s1_def word_unat_eq_iff)
  have full_iff: "writer_would_it_full (2 ^ k) ?idx (ucast (tc_csr_tail s)) \<longleftrightarrow>
      length (tc_written s) = length (tc_taken s) + 2 ^ k"
    using writer_full_iff[of k ?idx "length (tc_written s)" "ucast (tc_csr_tail s)" "length (tc_taken s)"]
      tc_next_head_idx[OF rel k] rel k
    by (simp add: tc_rel_def unat_ucast_up)
  show thesis
  proof (cases "length (tc_written s) = length (tc_taken s) + 2 ^ k")
    case fl: True
    then have "\<forall>slot. r \<noteq> Ready slot" "w = w1" "p = Some (ucast ?idx)"
      using next_eq True adv full_iff by (auto simp: writer_next_timeout_def Let_def split: if_splits)
    then show thesis
      using full rel1 fl by (simp add: s1_def)
  next
    case nf: False
    let ?w' = "w1\<lparr> rb_tail := ucast (tc_csr_tail s) \<rparr>"
    have r: "r = Ready (get_descriptor_mut_helper ?idx e (gen_memory_idx_mask (2 ^ k)))"
      "p = Some (ucast ?idx)" "w = ?w'\<lparr> written_cnt := written_cnt ?w' + 1 \<rparr>"
      using next_eq True adv full_iff nf by (auto simp: writer_next_timeout_def Let_def)
    have "tc_rel k e (publish p (s\<lparr> tc_writer := ?w' \<rparr>)) (length (tc_written s)) (length (tc_taken s))"
      using tc_rel_see_tail[OF rel1] r(2) by (cases s) (simp add: s1_def)
    moreover have "length (tc_written s) < length (tc_taken s) + 2 ^ k"
      using nf rel by (simp add: tc_rel_def)
    moreover have "next_head_idx (2 ^ k) ?w' = ?idx"
      using idx1 by (simp add: next_head_idx_def)
    ultimately show thesis
      using room[of ?w'] r by simp
  qed
qed

lemma tc_inv_step:
  assumes inv: "tc_inv k e s" and k: "k \<le> 31" "2 ^ k * unat e < 2 ^ 64"
    and step: "tc_step (2 ^ k) e s s'"
  shows "tc_inv k e s'"
proof -
  obtain pub ct where rel: "tc_rel k e s pub ct"
    using inv by (auto simp: tc_inv_def)
  from step show ?thesis
  proof (cases rule: tc_stepE)
    case (tc_next timeout elapsed slot w p d)
    from rel k(1) tc_next(2) show ?thesis
    proof (cases rule: tc_rel_next)
      case (room pub' ct' w')
      let ?s = "publish p (s\<lparr> tc_writer := w' \<rparr>)"
      have "tc_writer ?s = w'" "tc_written ?s = tc_written s"
        by (cases p; simp)+
      then have "tc_rel k e (?s\<lparr> tc_writer := w'\<lparr> written_cnt := written_cnt w' + 1,
          rb_buf := write_slice (rb_buf w') (unat slot) d \<rparr>, tc_written := tc_written s @ [d] \<rparr>) pub' ct'"
        using tc_rel_fill[OF room(2) k _ tc_next(3), of slot] room(1,3) by simp
      then show ?thesis
        unfolding tc_inv_def tc_next(1) room(4)
        by (intro exI[of _ pub'] exI[of _ ct']) (cases p; cases s; simp)
    qed simp
  next
    case (tc_blocked timeout elapsed r w p)
    from rel k(1) tc_blocked(2) show ?thesis
    proof (cases rule: tc_rel_next)
      case full
      then show ?thesis
        unfolding tc_inv_def tc_blocked(1) by blast
    qed (use tc_blocked(3) in simp)
  next
    case (tc_drop h rb)
    obtain w where adv: "advance_head (2 ^ k) (Inr ()) (tc_writer s) = (Inr h, w)"
      "rb = \<lparr> rb_buf = rb_buf w, rb_head = rb_head w, rb_tail = rb_tail w \<rparr>"
      using tc_drop(2) by (auto simp: writer_drop_def split: prod.splits)
    have "written_cnt w = 0"
      using adv(1) by (auto simp: advance_head_def Let_def)
    then have "w = Ringbuf_write rb"
      using adv(2) by (simp add: Ringbuf_write_def)
    then show ?thesis
      using tc_rel_advance[OF rel k(1) adv(1)] unfolding tc_inv_def tc_drop(1) by auto
  next
    case tc_take
    define slot where
      "slot = get_descriptor_mut_helper (ucast (tc_csr_tail s)) e (gen_memory_idx_mask (2 ^ k))"
    have "length (tc_taken s) \<noteq> pub"
      using tc_take(2) rel by (auto simp: tc_rel_def word_unat_eq_iff)
    with rel have lt: "length (tc_taken s) < pub" "pub \<le> length (tc_written s)"
      by (simp_all add: tc_rel_def)
    have off: "unat slot = (length (tc_taken s) mod 2 ^ k) * unat e"
      using unat_slot[of k e] rel k by (simp add: slot_def tc_rel_def unat_ucast_up mod_mod_cancel)
    have tail: "unat (wrapping_add_helper (ucast (tc_csr_tail s)) 1 (gen_hardware_idx_mask (2 ^ k))) =
        Suc (length (tc_taken s)) mod 2 ^ Suc k"
      using rel k(1) by (simp add: unat_wrapping_add_helper tc_rel_def unat_ucast_up mod_Suc_eq)
    have "tc_written s ! length (tc_taken s) = read_slice (rb_buf (tc_writer s)) (unat slot) (unat e)"
      using rel lt off by (simp add: tc_rel_def)
    then have "tc_taken s @ [read_slice (rb_buf (tc_writer s)) (unat slot) (unat e)] =
        take (Suc (length (tc_taken s))) (tc_written s)"
      using rel lt by (simp add: tc_rel_def take_Suc_conv_app_nth)
    with rel lt unat_ucast_idx[OF k(1) tail] have "tc_rel k e s' pub ct"
      unfolding tc_take(1) slot_def by (auto simp: tc_rel_def)
    then show ?thesis
      unfolding tc_inv_def by blast
  qed
qed

lemma tc_inv_init:
  assumes "2 ^ k * unat e \<le> length buffer"
  shows "tc_inv k e (tc_init buffer)"
  unfolding tc_inv_def using assms
  by (intro exI[of _ 0]) (simp add: tc_rel_def tc_init_def Ringbuf_write_def)

text \<open>The to-card ring of the driver: 128 descriptors of 32 bytes.\<close>

abbreviation driver_tc_step :: "to_card \<Rightarrow> to_card \<Rightarrow> bool" where
  "driver_tc_step \<equiv> tc_step RINGBUF_DEPTH RINGBUF_ELEM_SIZE"

lemma depth_power: "RINGBUF_DEPTH = 2 ^ 7"
  by (simp add: RINGBUF_DEPTH_def)

interpretation to_card_ring: fifo_link driver_tc_step "tc_inv 7 RINGBUF_ELEM_SIZE" tc_written tc_taken 128
proof unfold_locales
  show "tc_inv 7 RINGBUF_ELEM_SIZE s \<Longrightarrow> driver_tc_step s s' \<Longrightarrow> tc_inv 7 RINGBUF_ELEM_SIZE s'" for s s'
    using tc_inv_step[of 7 RINGBUF_ELEM_SIZE s s'] by (simp add: depth_power RINGBUF_ELEM_SIZE_def)
qed (auto simp: tc_inv_def tc_rel_def)

text \<open>
  C4. The ring to the card is a lossless ordered queue: from an empty ring over any
  buffer of at least a page, after any interleaving of driver steps (taking a slot
  and filling it, blocking, publishing on drop) and card steps, the descriptors taken
  by the card are a prefix of those written by the driver, in order and unchanged, and
  at most 128 are under way. No descriptor is overwritten before it is taken.
\<close>

theorem to_card_fifo:
  assumes "4096 \<le> length buffer" "driver_tc_step\<^sup>*\<^sup>* (tc_init buffer) s"
  shows "\<exists>pending. tc_written s = tc_taken s @ pending \<and> length pending \<le> 128"
proof (rule to_card_ring.fifo_reach[OF _ assms(2)])
  show "tc_inv 7 RINGBUF_ELEM_SIZE (tc_init buffer)"
    using assms(1) by (intro tc_inv_init) (simp add: RINGBUF_ELEM_SIZE_def)
qed

theorem to_card_fifo_witness:
  "\<exists>s. driver_tc_step\<^sup>*\<^sup>* (tc_init (replicate 4096 0)) s \<and> tc_written s = [replicate 32 7] \<and>
     (\<exists>pending. tc_written s = tc_taken s @ pending \<and> length pending \<le> 128)"
proof -
  let ?s = "tc_init (replicate 4096 0)" and ?d = "replicate 32 (7 :: u8)"
  let ?w = "(tc_writer ?s)\<lparr> written_cnt := 1 \<rparr>"
  have "writer_next_timeout RINGBUF_DEPTH RINGBUF_ELEM_SIZE 0 (Inr ()) [(Inr (tc_csr_tail ?s), 0)] (tc_writer ?s)
      = (Ready 0, ?w, None)"
    by (simp add: tc_init_def Ringbuf_write_def writer_next_timeout_def next_head_idx_def
        writer_would_it_full_def is_full_helper_def wrapping_add_helper_def get_descriptor_mut_helper_def)
  from tc_next[OF this, of ?d]
  have "driver_tc_step ?s (publish None (?s\<lparr> tc_writer :=
      ?w\<lparr> rb_buf := write_slice (rb_buf ?w) (unat (0 :: usize)) ?d \<rparr>, tc_written := tc_written ?s @ [?d] \<rparr>))"
    by (simp add: RINGBUF_ELEM_SIZE_def)
  then have step: "driver_tc_step\<^sup>*\<^sup>* ?s (?s\<lparr> tc_writer :=
      ?w\<lparr> rb_buf := write_slice (rb_buf ?w) (unat (0 :: usize)) ?d \<rparr>, tc_written := tc_written ?s @ [?d] \<rparr>)"
    unfolding publish_None by (rule r_into_rtranclp)
  show ?thesis
    using to_card_fifo[OF _ step] step
    by (intro exI[of _ "?s\<lparr> tc_writer :=
      ?w\<lparr> rb_buf := write_slice (rb_buf ?w) (unat (0 :: usize)) ?d \<rparr>, tc_written := tc_written ?s @ [?d] \<rparr>"])
      (simp add: tc_init_def)
qed

text \<open>
  When the register write fails, \<^const>\<open>advance_head\<close> has already moved the head but keeps
  the count of written descriptors. Dropping the writer then adds the count a second
  time: the head register is given an index that runs past the descriptors written,
  so the card is handed slots that hold old contents.
\<close>

lemma advance_head_error_publishes_twice:
  assumes "advance_head (2 ^ k) (Inl err) w = (Inl err, w')" "writer_drop (2 ^ k) (Inr ()) w' = (Inr h, rb)"
    and "k \<le> 31"
  shows "unat h = (unat (rb_head w) + 2 * unat (written_cnt w)) mod 2 ^ Suc k"
proof -
  let ?i = "next_head_idx (2 ^ k) w" and ?j = "next_head_idx (2 ^ k) w'"
  have w': "w' = w\<lparr> rb_head := ?i \<rparr>"
    using assms(1) by (auto simp: advance_head_def Let_def)
  have i: "unat ?i = (unat (rb_head w) + unat (written_cnt w)) mod 2 ^ Suc k"
    using assms(3) unfolding next_head_idx_def by (intro unat_wrapping_add_helper) simp
  have "unat ?j = (unat ?i + unat (written_cnt w)) mod 2 ^ Suc k"
    using assms(3) w' unfolding next_head_idx_def by (subst unat_wrapping_add_helper) simp_all
  also have "\<dots> = (unat (rb_head w) + unat (written_cnt w) + unat (written_cnt w)) mod 2 ^ Suc k"
    unfolding i by (rule mod_add_left_eq)
  finally have j: "unat ?j = (unat (rb_head w) + 2 * unat (written_cnt w)) mod 2 ^ Suc k"
    by (simp add: mult_2 add.assoc)
  have "h = ucast ?j"
    using assms(2) by (auto simp: writer_drop_def advance_head_def Let_def)
  then show ?thesis
    using unat_ucast_idx[OF assms(3) j] by simp
qed

subsection \<open>The ring to the host as a queue\<close>

text \<open>
  The other direction: the card puts a descriptor into the slot at its head register
  while the ring is not full, the driver's reader takes them and gives the slots back
  by advancing the tail register.
\<close>

record to_host =
  th_reader :: RingbufReader
  th_csr_head :: u32
  th_csr_tail :: u32
  th_put :: "u8 list list"
  th_got :: "u8 list list"

definition release :: "u32 option \<Rightarrow> to_host \<Rightarrow> to_host" where
  "release p s = (case p of None \<Rightarrow> s | Some t \<Rightarrow> s\<lparr> th_csr_tail := t \<rparr>)"

lemma release_simps [simp]:
  "release None s = s"
  "release (Some t) s = s\<lparr> th_csr_tail := t \<rparr>"
  by (simp_all add: release_def)

inductive th_step :: "usize \<Rightarrow> usize \<Rightarrow> to_host \<Rightarrow> to_host \<Rightarrow> bool" for depth elem_size where
  th_next: "reader_next_timeout depth elem_size timeout (Inr ()) [(Inr (th_csr_head s), elapsed)] (th_reader s)
      = (Ready slot, r, p) \<Longrightarrow>
    th_step depth elem_size s
      (release p (s\<lparr> th_reader := r,
                     th_got := th_got s @ [read_slice (rb_buf r) (unat slot) (unat elem_size)] \<rparr>))"
| th_blocked: "reader_next_timeout depth elem_size timeout (Inr ()) [(Inr (th_csr_head s), elapsed)] (th_reader s)
      = (x, r, p) \<Longrightarrow> \<forall>slot. x \<noteq> Ready slot \<Longrightarrow>
    th_step depth elem_size s (release p (s\<lparr> th_reader := r \<rparr>))"
| th_drop: "reader_drop depth (Inr ()) (th_reader s) = (Inr t, rb) \<Longrightarrow>
    th_step depth elem_size s (s\<lparr> th_reader := Ringbuf_read rb, th_csr_tail := t \<rparr>)"
| th_put: "\<not> writer_would_it_full depth (ucast (th_csr_head s)) (ucast (th_csr_tail s)) \<Longrightarrow>
    length d = unat elem_size \<Longrightarrow>
    slot = get_descriptor_mut_helper (ucast (th_csr_head s)) elem_size (gen_memory_idx_mask depth) \<Longrightarrow>
    th_step depth elem_size s
      (s\<lparr> th_csr_head := ucast (wrapping_add_helper (ucast (th_csr_head s)) 1 (gen_hardware_idx_mask depth)),
          th_reader := (th_reader s)\<lparr> rb_buf := write_slice (rb_buf (th_reader s)) (unat slot) d \<rparr>,
          th_put := th_put s @ [d] \<rparr>)"

inductive_cases th_stepE [consumes 1, case_names th_next th_blocked th_drop th_put]:
  "th_step depth elem_size s s'"

definition th_init :: "u8 list \<Rightarrow> to_host" where
  "th_init buffer =
     \<lparr> th_reader = Ringbuf_read \<lparr> rb_buf = buffer, rb_head = 0, rb_tail = 0 \<rparr>,
       th_csr_head = 0, th_csr_tail = 0, th_put = [], th_got = [] \<rparr>"

text \<open>\<open>rel\<close> counts the slots given back, \<open>hn\<close> the descriptors the reader knows of.\<close>

definition th_rel :: "nat \<Rightarrow> usize \<Rightarrow> to_host \<Rightarrow> nat \<Rightarrow> nat \<Rightarrow> bool" where
  "th_rel k e s rel hn \<longleftrightarrow>
     rel \<le> length (th_got s) \<and> length (th_got s) \<le> hn \<and> hn \<le> length (th_put s) \<and>
     length (th_put s) \<le> rel + 2 ^ k \<and>
     unat (rb_tail (th_reader s)) = rel mod 2 ^ Suc k \<and>
     unat (rb_head (th_reader s)) = hn mod 2 ^ Suc k \<and>
     unat (read_cnt (th_reader s)) = length (th_got s) - rel \<and>
     unat (th_csr_tail s) = rel mod 2 ^ Suc k \<and>
     unat (th_csr_head s) = length (th_put s) mod 2 ^ Suc k \<and>
     th_got s = take (length (th_got s)) (th_put s) \<and>
     2 ^ k * unat e \<le> length (rb_buf (th_reader s)) \<and>
     (\<forall>i. rel \<le> i \<and> i < length (th_put s) \<longrightarrow>
        read_slice (rb_buf (th_reader s)) ((i mod 2 ^ k) * unat e) (unat e) = th_put s ! i)"

definition th_inv :: "nat \<Rightarrow> usize \<Rightarrow> to_host \<Rightarrow> bool" where
  "th_inv k e s \<longleftrightarrow> (\<exists>rel hn. th_rel k e s rel hn)"

lemma th_next_tail_idx:
  assumes "th_rel k e s rel hn" "k \<le> 31"
  shows "unat (next_tail_idx (2 ^ k) (th_reader s)) = length (th_got s) mod 2 ^ Suc k"
proof -
  have "unat (next_tail_idx (2 ^ k) (th_reader s)) =
      (rel mod 2 ^ Suc k + (length (th_got s) - rel)) mod 2 ^ Suc k"
    using assms by (simp add: next_tail_idx_def unat_wrapping_add_helper th_rel_def)
  also have "\<dots> = length (th_got s) mod 2 ^ Suc k"
    using assms(1) by (subst mod_add_left_eq) (simp add: th_rel_def)
  finally show ?thesis .
qed

lemma th_rel_advance:
  assumes "th_rel k e s rel hn" "k \<le> 31"
    and "advance_tail (2 ^ k) (Inr ()) (th_reader s) = (x, r)"
  shows "x = Inr (ucast (next_tail_idx (2 ^ k) (th_reader s)))" "read_cnt r = 0"
    and "th_rel k e (s\<lparr> th_reader := r, th_csr_tail := ucast (next_tail_idx (2 ^ k) (th_reader s)) \<rparr>)
      (length (th_got s)) hn"
proof -
  note idx = th_next_tail_idx[OF assms(1,2)]
  show "x = Inr (ucast (next_tail_idx (2 ^ k) (th_reader s)))" "read_cnt r = 0"
    using assms(3) by (auto simp: advance_tail_def Let_def)
  have "r = (th_reader s)\<lparr> rb_tail := next_tail_idx (2 ^ k) (th_reader s), read_cnt := 0 \<rparr>"
    using assms(3) by (auto simp: advance_tail_def Let_def)
  then show "th_rel k e (s\<lparr> th_reader := r, th_csr_tail := ucast (next_tail_idx (2 ^ k) (th_reader s)) \<rparr>)
      (length (th_got s)) hn"
    using assms(1) idx unat_ucast_idx[OF assms(2) idx] by (auto simp: th_rel_def)
qed

lemma th_rel_see_head:
  "th_rel k e s rel hn \<Longrightarrow>
   th_rel k e (s\<lparr> th_reader := (th_reader s)\<lparr> rb_head := ucast (th_csr_head s) \<rparr> \<rparr>) rel (length (th_put s))"
  by (auto simp: th_rel_def unat_ucast_up)

lemma counters_eq_iff:
  assumes "b \<le> a" "a \<le> b + 2 ^ k"
  shows "a mod 2 ^ Suc k = b mod 2 ^ Suc k \<longleftrightarrow> a = (b :: nat)"
proof
  assume "a mod 2 ^ Suc k = b mod 2 ^ Suc k"
  then have "2 ^ Suc k dvd a - b"
    using assms(1) by (metis mod_eq_dvd_iff_nat)
  moreover have "a - b < 2 ^ Suc k"
    using assms(2) zero_less_power[of "2 :: nat" k] unfolding power_Suc by linarith
  ultimately show "a = b"
    using assms(1) dvd_imp_le by fastforce
qed simp

lemma th_rel_take:
  assumes rel: "th_rel k e s rel hn" and k: "k \<le> 31" "2 ^ k * unat e < 2 ^ 64"
    and avail: "length (th_got s) < hn"
    and slot: "slot = get_descriptor_mut_helper (next_tail_idx (2 ^ k) (th_reader s)) e (gen_memory_idx_mask (2 ^ k))"
  shows "th_rel k e (s\<lparr> th_reader := (th_reader s)\<lparr> read_cnt := read_cnt (th_reader s) + 1 \<rparr>,
      th_got := th_got s @ [read_slice (rb_buf (th_reader s)) (unat slot) (unat e)] \<rparr>) rel hn"
proof -
  let ?n = "length (th_got s)"
  have off: "unat slot = (?n mod 2 ^ k) * unat e"
    using unat_slot[of k e] th_next_tail_idx[OF rel k(1)] k slot by (simp add: mod_mod_cancel)
  have "?n - rel \<le> 2 ^ k"
    using rel unfolding th_rel_def by linarith
  also have "\<dots> \<le> (2 :: nat) ^ 31"
    using k(1) by (intro power_increasing) simp_all
  finally have "unat (read_cnt (th_reader s)) < 2 ^ 64 - 1"
    using rel by (simp add: th_rel_def)
  then have cnt: "unat (read_cnt (th_reader s) + 1) = ?n + 1 - rel"
    using rel by (subst unat_add_no_wrap) (auto simp: th_rel_def)
  have "th_put s ! ?n = read_slice (rb_buf (th_reader s)) (unat slot) (unat e)" "?n < length (th_put s)"
    using rel avail off by (auto simp: th_rel_def)
  then have "th_got s @ [read_slice (rb_buf (th_reader s)) (unat slot) (unat e)] = take (Suc ?n) (th_put s)"
    using rel by (simp add: th_rel_def take_Suc_conv_app_nth)
  with rel avail cnt show ?thesis
    by (auto simp: th_rel_def)
qed

text \<open>The first half of \<^const>\<open>reader_next_timeout\<close>: a full ring is given back before reading on.\<close>

lemma th_rel_full_phase:
  assumes rel: "th_rel k e s rel hn" and k: "k \<le> 31"
    and phase: "(if reader_is_full (2 ^ k) (th_reader s)
        then (case advance_tail (2 ^ k) (Inr ()) (th_reader s) of
                (Inl err, r) \<Rightarrow> (Some err, r, None) | (Inr t, r) \<Rightarrow> (None, r, Some t))
        else (None, th_reader s, None)) = (x, r, p)"
  shows "x = None" "\<exists>rel'. th_rel k e (release p (s\<lparr> th_reader := r \<rparr>)) rel' hn"
proof -
  have "x = None \<and> (\<exists>rel'. th_rel k e (release p (s\<lparr> th_reader := r \<rparr>)) rel' hn)"
  proof (cases "reader_is_full (2 ^ k) (th_reader s)")
    case True
    obtain y r' where adv: "advance_tail (2 ^ k) (Inr ()) (th_reader s) = (y, r')"
      by force
    note a = th_rel_advance[OF rel k adv]
    then have "x = None" "r = r'" "p = Some (ucast (next_tail_idx (2 ^ k) (th_reader s)))"
      using phase True adv by auto
    then show ?thesis
      using a(3) by auto
  next
    case False
    then have "x = None" "r = th_reader s" "p = None"
      using phase by auto
    then show ?thesis
      using rel by auto
  qed
  then show "x = None" "\<exists>rel'. th_rel k e (release p (s\<lparr> th_reader := r \<rparr>)) rel' hn"
    by auto
qed

lemma th_rel_next:
  assumes rel: "th_rel k e s rel hn" and k: "k \<le> 31"
    and next_eq: "reader_next_timeout (2 ^ k) e timeout (Inr ()) [(Inr (th_csr_head s), elapsed)] (th_reader s) = (x, r, p)"
  obtains (avail) rel' hn' r' where
    "x = Ready (get_descriptor_mut_helper (next_tail_idx (2 ^ k) r') e (gen_memory_idx_mask (2 ^ k)))"
    "th_rel k e (release p (s\<lparr> th_reader := r' \<rparr>)) rel' hn'" "length (th_got s) < hn'"
    "r = r'\<lparr> read_cnt := read_cnt r' + 1 \<rparr>"
  | (empty) rel' where "\<forall>slot. x \<noteq> Ready slot" "th_rel k e (release p (s\<lparr> th_reader := r \<rparr>)) rel' hn"
    "length (th_got s) = length (th_put s)"
proof -
  define first where "first = (if reader_is_full (2 ^ k) (th_reader s)
        then (case advance_tail (2 ^ k) (Inr ()) (th_reader s) of
                (Inl err, r) \<Rightarrow> (Some err, r, None) | (Inr t, r) \<Rightarrow> (None, r, Some t))
        else (None, th_reader s, None))"
  obtain x0 r0 p0 where first: "first = (x0, r0, p0)"
    by (cases first)
  note phase = first[unfolded first_def]
  define s0 where "s0 = release p0 (s\<lparr> th_reader := r0 \<rparr>)"
  have s0: "th_reader s0 = r0" "th_got s0 = th_got s" "th_put s0 = th_put s" "th_csr_head s0 = th_csr_head s"
    by (cases p0; simp add: s0_def)+
  have x0: "x0 = None"
    using th_rel_full_phase(1)[OF rel k phase] .
  obtain rel' where rel0: "th_rel k e s0 rel' hn"
    using th_rel_full_phase(2)[OF rel k phase] by (auto simp: s0_def)
  let ?idx = "next_tail_idx (2 ^ k) r0"
  have idx: "unat ?idx = length (th_got s) mod 2 ^ Suc k"
    using th_next_tail_idx[OF rel0 k] by (simp add: s0)
  have bounds: "length (th_got s) \<le> hn" "hn \<le> length (th_put s)" "length (th_put s) \<le> length (th_got s) + 2 ^ k"
    using rel0[unfolded th_rel_def s0] by auto
  have empty_iff: "reader_would_it_empty (rb_head r0) ?idx \<longleftrightarrow> hn = length (th_got s)"
    using rel0 s0 idx counters_eq_iff[of "length (th_got s)" hn k] bounds
    by (auto simp: reader_would_it_empty_def is_empty_helper_def word_unat_eq_iff th_rel_def)
  have empty_iff': "reader_would_it_empty (ucast (th_csr_head s)) ?idx \<longleftrightarrow> length (th_put s) = length (th_got s)"
    using rel0 s0 idx counters_eq_iff[of "length (th_got s)" "length (th_put s)" k] bounds
    by (auto simp: reader_would_it_empty_def is_empty_helper_def word_unat_eq_iff th_rel_def unat_ucast_up)
  show thesis
  proof (cases "hn = length (th_got s)")
    case False
    then have "x = Ready (get_descriptor_mut_helper ?idx e (gen_memory_idx_mask (2 ^ k)))" "p = p0"
      "r = r0\<lparr> read_cnt := read_cnt r0 + 1 \<rparr>"
      using next_eq phase x0 empty_iff by (auto simp: reader_next_timeout_def Let_def)
    then show thesis
      using avail[of r0 rel' hn] rel0 False bounds(1) by (simp add: s0_def)
  next
    case hn: True
    show thesis
    proof (cases "length (th_put s) = length (th_got s)")
      case True
      then have "\<forall>slot. x \<noteq> Ready slot" "p = p0" "r = r0"
        using next_eq phase x0 empty_iff empty_iff' hn
        by (auto simp: reader_next_timeout_def Let_def split: if_splits)
      then show thesis
        using empty[of rel'] rel0 True by (simp add: s0_def)
    next
      case False
      let ?r = "r0\<lparr> rb_head := ucast (th_csr_head s) \<rparr>"
      have x: "x = Ready (get_descriptor_mut_helper ?idx e (gen_memory_idx_mask (2 ^ k)))" "p = p0"
        "r = ?r\<lparr> read_cnt := read_cnt ?r + 1 \<rparr>"
        using next_eq phase x0 empty_iff empty_iff' hn False by (auto simp: reader_next_timeout_def Let_def)
      have "th_rel k e (release p (s\<lparr> th_reader := ?r \<rparr>)) rel' (length (th_put s))"
        using th_rel_see_head[OF rel0] x(2) unfolding s0 by (cases p0; cases s) (simp_all add: s0_def)
      moreover have "next_tail_idx (2 ^ k) ?r = ?idx"
        by (simp add: next_tail_idx_def)
      ultimately show thesis
        using avail[of ?r rel' "length (th_put s)"] x False bounds by simp
    qed
  qed
qed

lemma th_rel_put:
  assumes rel: "th_rel k e s rel hn" and k: "k \<le> 31" "2 ^ k * unat e < 2 ^ 64"
    and room: "\<not> writer_would_it_full (2 ^ k) (ucast (th_csr_head s)) (ucast (th_csr_tail s))"
    and d: "length d = unat e"
    and slot: "slot = get_descriptor_mut_helper (ucast (th_csr_head s)) e (gen_memory_idx_mask (2 ^ k))"
  shows "th_rel k e (s\<lparr> th_csr_head := ucast (wrapping_add_helper (ucast (th_csr_head s)) 1 (gen_hardware_idx_mask (2 ^ k))),
      th_reader := (th_reader s)\<lparr> rb_buf := write_slice (rb_buf (th_reader s)) (unat slot) d \<rparr>,
      th_put := th_put s @ [d] \<rparr>) rel hn"
proof -
  let ?n = "length (th_put s)" and ?buf = "rb_buf (th_reader s)"
  have head: "unat (ucast (th_csr_head s) :: usize) = ?n mod 2 ^ Suc k"
    "unat (ucast (th_csr_tail s) :: usize) = rel mod 2 ^ Suc k"
    using rel by (simp_all add: th_rel_def unat_ucast_up)
  have le: "rel \<le> ?n" "?n \<le> rel + 2 ^ k"
    using rel unfolding th_rel_def by linarith+
  then have lt: "?n < rel + 2 ^ k"
    using room writer_full_iff[OF _ head] k(1) by simp
  have off: "unat slot = (?n mod 2 ^ k) * unat e"
    using unat_slot[of k e] head(1) k slot by (simp add: mod_mod_cancel)
  have size: "2 ^ k * unat e \<le> length ?buf"
    using rel by (simp add: th_rel_def)
  note inb = slot_fits[OF size]
  have next_idx: "unat (wrapping_add_helper (ucast (th_csr_head s)) 1 (gen_hardware_idx_mask (2 ^ k))) =
      Suc ?n mod 2 ^ Suc k"
    using k(1) head(1) by (simp add: unat_wrapping_add_helper mod_Suc_eq)
  have other: "read_slice (write_slice ?buf (unat slot) d) ((i mod 2 ^ k) * unat e) (unat e) = th_put s ! i"
    if i: "rel \<le> i" "i < ?n" for i
  proof -
    have "read_slice (write_slice ?buf (unat slot) d) ((i mod 2 ^ k) * unat e) (unat e)
        = read_slice ?buf ((i mod 2 ^ k) * unat e) (unat e)"
      using slots_disjoint[OF distinct_slots, of i ?n k "unat e"] i lt inb[of i] inb[of ?n] off d
      by (intro read_write_slice_other) auto
    with i rel show ?thesis
      by (simp add: th_rel_def)
  qed
  have same: "read_slice (write_slice ?buf (unat slot) d) ((?n mod 2 ^ k) * unat e) (unat e) = d"
    using read_write_slice_same[of "unat slot" d ?buf] inb[of ?n] off d by simp
  show ?thesis
    using rel lt le other same inb[of ?n] off d unat_ucast_idx[OF k(1) next_idx]
    by (auto simp: th_rel_def nth_append less_Suc_eq)
qed

lemma th_inv_step:
  assumes inv: "th_inv k e s" and k: "k \<le> 31" "2 ^ k * unat e < 2 ^ 64"
    and step: "th_step (2 ^ k) e s s'"
  shows "th_inv k e s'"
proof -
  obtain rel hn where rel: "th_rel k e s rel hn"
    using inv by (auto simp: th_inv_def)
  from step show ?thesis
  proof (cases rule: th_stepE)
    case (th_next timeout elapsed slot r p)
    from rel k(1) th_next(2) show ?thesis
    proof (cases rule: th_rel_next)
      case (avail rel' hn' r')
      let ?s = "release p (s\<lparr> th_reader := r' \<rparr>)"
      have "th_reader ?s = r'" "th_got ?s = th_got s"
        by (cases p; simp)+
      then have "th_rel k e (?s\<lparr> th_reader := r'\<lparr> read_cnt := read_cnt r' + 1 \<rparr>,
          th_got := th_got s @ [read_slice (rb_buf r') (unat slot) (unat e)] \<rparr>) rel' hn'"
        using th_rel_take[OF avail(2) k, of slot] avail(1,3) by simp
      then show ?thesis
        unfolding th_inv_def th_next(1) avail(4)
        by (intro exI[of _ rel'] exI[of _ hn']) (cases p; cases s; simp)
    qed simp
  next
    case (th_blocked timeout elapsed x r p)
    from rel k(1) th_blocked(2) show ?thesis
    proof (cases rule: th_rel_next)
      case empty
      then show ?thesis
        unfolding th_inv_def th_blocked(1) by blast
    qed (use th_blocked(3) in simp)
  next
    case (th_drop t rb)
    obtain r where adv: "advance_tail (2 ^ k) (Inr ()) (th_reader s) = (Inr t, r)"
      "rb = \<lparr> rb_buf = rb_buf r, rb_head = rb_head r, rb_tail = rb_tail r \<rparr>"
      using th_drop(2) by (auto simp: reader_drop_def split: prod.splits)
    then have "r = Ringbuf_read rb"
      using th_rel_advance(2)[OF rel k(1) adv(1)] by (simp add: Ringbuf_read_def)
    then show ?thesis
      using th_rel_advance[OF rel k(1) adv(1)] unfolding th_inv_def th_drop(1) by auto
  next
    case (th_put d)
    then show ?thesis
      using th_rel_put[OF rel k th_put(2,3) refl] unfolding th_inv_def th_put(1) by blast
  qed
qed

abbreviation driver_th_step :: "to_host \<Rightarrow> to_host \<Rightarrow> bool" where
  "driver_th_step \<equiv> th_step RINGBUF_DEPTH RINGBUF_ELEM_SIZE"

interpretation to_host_ring: fifo_link driver_th_step "th_inv 7 RINGBUF_ELEM_SIZE" th_put th_got 128
proof unfold_locales
  show "th_inv 7 RINGBUF_ELEM_SIZE s \<Longrightarrow> driver_th_step s s' \<Longrightarrow> th_inv 7 RINGBUF_ELEM_SIZE s'" for s s'
    using th_inv_step[of 7 RINGBUF_ELEM_SIZE s s'] by (simp add: depth_power RINGBUF_ELEM_SIZE_def)
qed (auto simp: th_inv_def th_rel_def)

lemma th_inv_init:
  assumes "2 ^ k * unat e \<le> length buffer"
  shows "th_inv k e (th_init buffer)"
  unfolding th_inv_def using assms
  by (intro exI[of _ 0]) (simp add: th_rel_def th_init_def Ringbuf_read_def)

text \<open>
  C8. The ring to the host is a lossless ordered queue: after any interleaving of card
  steps (putting a descriptor while the guard bit test says there is room) and driver
  steps (taking a slot, blocking, giving slots back on drop), the descriptors the
  driver has read are a prefix of those the card has put, in order and unchanged, and at
  most 128 are under way.
\<close>

theorem to_host_fifo:
  assumes "4096 \<le> length buffer" "driver_th_step\<^sup>*\<^sup>* (th_init buffer) s"
  shows "\<exists>pending. th_put s = th_got s @ pending \<and> length pending \<le> 128"
proof (rule to_host_ring.fifo_reach[OF _ assms(2)])
  show "th_inv 7 RINGBUF_ELEM_SIZE (th_init buffer)"
    using assms(1) by (intro th_inv_init) (simp add: RINGBUF_ELEM_SIZE_def)
qed

theorem to_host_fifo_witness:
  "\<exists>s. driver_th_step\<^sup>*\<^sup>* (th_init (replicate 4096 0)) s \<and> th_put s = [replicate 32 7] \<and>
     (\<exists>pending. th_put s = th_got s @ pending \<and> length pending \<le> 128)"
proof -
  let ?s = "th_init (replicate 4096 0)" and ?d = "replicate 32 (7 :: u8)"
  have "\<not> writer_would_it_full RINGBUF_DEPTH (ucast (th_csr_head ?s)) (ucast (th_csr_tail ?s))"
    by (simp add: th_init_def writer_would_it_full_def is_full_helper_def)
  from th_put[OF this _ refl, of ?d RINGBUF_ELEM_SIZE]
  obtain s' where s': "driver_th_step ?s s'" "th_put s' = th_put ?s @ [?d]"
    by (fastforce simp: RINGBUF_ELEM_SIZE_def)
  then have "driver_th_step\<^sup>*\<^sup>* ?s s'"
    by (intro r_into_rtranclp)
  moreover have "th_put ?s = []"
    by (simp add: th_init_def)
  ultimately show ?thesis
    using to_host_fifo[of "replicate 4096 0" s'] s'(2) by auto
qed

end
