(* ===== verification/Layout.thy ===== *)
theory Layout
  imports Prelude
begin

unbundle bit_operations_syntax

text \<open>
  Bit fields over byte buffers, \<^verbatim>\<open>src/device/layout.rs\<close>. The two loops are those that the
  file writes out for the descriptors it reads from volatile memory; the accessors
  that the \<^verbatim>\<open>bitfield!\<close> macro generates for the other structs have the same meaning (bit
  \<open>i\<close> of a struct is bit \<open>i mod 8\<close> of byte \<open>i div 8\<close>), with a check of the index. A field is
  its most and its least significant bit. The theory ends with the layouts of all
  structs and with what a sequence of setters leaves in a buffer.
\<close>

type_synonym field = "nat \<times> nat"

subsection \<open>The loops\<close>

fun bit_range_loop :: "nat \<Rightarrow> nat \<Rightarrow> u8 list \<Rightarrow> 'a::len word \<Rightarrow> 'a word" where
  "bit_range_loop lsb 0 bytes value = value"
| "bit_range_loop lsb (Suc n) bytes value =
     (let i = lsb + n; v = bytes ! (i div 8)
      in bit_range_loop lsb n bytes (push_bit 1 value OR ucast ((drop_bit (i mod 8) v) AND 1)))"

definition get_field :: "field \<Rightarrow> u8 list \<Rightarrow> 'a::len word" where
  "get_field f bytes =
     (let msb = fst f; lsb = snd f;
          value = bit_range_loop lsb (msb + 1 - lsb) bytes 0;
          k = LENGTH('a) - (msb - lsb + 1)
      in drop_bit k (push_bit k value))"

text \<open>The generated accessors check the index of the byte; the loop on volatile memory does not.\<close>

definition bit_range :: "nat \<Rightarrow> nat \<Rightarrow> u8 list \<Rightarrow> (panic, 'a::len word) result" where
  "bit_range msb lsb bytes =
     (if length bytes \<le> msb div 8 then Err Panic else Ok (get_field (msb, lsb) bytes))"

fun set_bit_range_loop :: "nat \<Rightarrow> nat \<Rightarrow> 'a::len word \<Rightarrow> u8 list \<Rightarrow> u8 list" where
  "set_bit_range_loop i 0 value bytes = bytes"
| "set_bit_range_loop i (Suc n) value bytes =
     (let j = i div 8;
          b = (bytes ! j AND NOT (push_bit (i mod 8) 1)) OR push_bit (i mod 8) (ucast (value AND 1))
      in set_bit_range_loop (i + 1) n (drop_bit 1 value) (bytes[j := b]))"

definition set_bit_range :: "nat \<Rightarrow> nat \<Rightarrow> 'a::len word \<Rightarrow> u8 list \<Rightarrow> (panic, u8 list) result" where
  "set_bit_range msb lsb value bytes =
     (if length bytes \<le> msb div 8 then Err Panic
      else Ok (set_bit_range_loop lsb (msb + 1 - lsb) value bytes))"

subsection \<open>Bits of a buffer\<close>

definition buf_bit :: "u8 list \<Rightarrow> nat \<Rightarrow> bool" where
  "buf_bit bytes i = bit (bytes ! (i div 8)) (i mod 8)"

lemma bit_ucast_and_1: "bit (ucast ((w :: 'a::len word) AND 1) :: 'b::len word) n \<longleftrightarrow> n = 0 \<and> bit w 0"
  by (auto simp: bit_simps)

lemma bit_shift_in:
  "bit (push_bit 1 (v :: 'b::len word) OR ucast ((w :: 'a::len word) AND 1)) m \<longleftrightarrow>
     m < LENGTH('b) \<and> (if m = 0 then bit w 0 else bit v (m - 1))"
  unfolding bit_or_iff bit_push_bit_iff bit_ucast_and_1 by (cases m) auto

lemma bit_bit_range_loop:
  assumes "n \<le> LENGTH('a::len)"
  shows "bit (bit_range_loop lsb n bytes v :: 'a word) k \<longleftrightarrow>
    k < LENGTH('a) \<and> (if k < n then buf_bit bytes (lsb + k) else bit v (k - n))"
  using assms
proof (induction n arbitrary: v)
  case 0
  then show ?case
    using bit_imp_le_length by auto
next
  case (Suc n)
  let ?v = "push_bit 1 v OR ucast ((drop_bit ((lsb + n) mod 8) (bytes ! ((lsb + n) div 8))) AND 1)"
  have "bit (bit_range_loop lsb (Suc n) bytes v) k \<longleftrightarrow>
      k < LENGTH('a) \<and> (if k < n then buf_bit bytes (lsb + k) else bit ?v (k - n))"
    using Suc by (simp only: bit_range_loop.simps Let_def)
  also have "\<dots> \<longleftrightarrow> k < LENGTH('a) \<and> (if k < Suc n then buf_bit bytes (lsb + k) else bit v (k - Suc n))"
    unfolding bit_shift_in by (auto simp: buf_bit_def bit_drop_bit_eq less_Suc_eq)
  finally show ?case .
qed

lemma bit_get_field:
  assumes "snd f \<le> fst f" "fst f - snd f < LENGTH('a::len)"
  shows "bit (get_field f bytes :: 'a word) k \<longleftrightarrow> k \<le> fst f - snd f \<and> buf_bit bytes (snd f + k)"
  using assms by (auto simp: get_field_def Let_def bit_simps bit_bit_range_loop)

lemma length_set_bit_range_loop [simp]: "length (set_bit_range_loop i n v bytes) = length bytes"
  by (induction i n v bytes rule: set_bit_range_loop.induct) (simp_all add: Let_def)

lemma buf_bit_update:
  assumes "i div 8 < length bytes"
  shows "buf_bit (bytes[i div 8 := (bytes ! (i div 8) AND NOT (2 ^ (i mod 8))) OR push_bit (i mod 8) (ucast (v AND 1))]) j
    \<longleftrightarrow> (if j = i then bit v 0 else buf_bit bytes j)"
proof (cases "j div 8 = i div 8")
  case True
  have "j = i \<longleftrightarrow> j mod 8 = i mod 8"
    using True by (metis div_mult_mod_eq)
  then show ?thesis
    using assms True
    by (auto simp: buf_bit_def bit_simps bit_ucast_and_1)
next
  case False
  then show ?thesis
    using assms by (auto simp: buf_bit_def)
qed

lemma buf_bit_set_loop:
  assumes "n = 0 \<or> (i + n - 1) div 8 < length bytes"
  shows "buf_bit (set_bit_range_loop i n v bytes) j \<longleftrightarrow>
    (if i \<le> j \<and> j < i + n then bit v (j - i) else buf_bit bytes j)"
  using assms
proof (induction i n v bytes arbitrary: j rule: set_bit_range_loop.induct)
  case (2 i n v bytes)
  let ?b = "(bytes ! (i div 8) AND NOT (push_bit (i mod 8) 1)) OR push_bit (i mod 8) (ucast (v AND 1))"
  let ?bytes = "bytes[i div 8 := ?b]"
  have "i div 8 \<le> (i + n) div 8"
    by (rule div_le_mono) simp
  then have i: "i div 8 < length bytes"
    using 2 by simp
  have "buf_bit (set_bit_range_loop i (Suc n) v bytes) j =
      buf_bit (set_bit_range_loop (i + 1) n (drop_bit 1 v) ?bytes) j"
    by (simp add: Let_def)
  also have "\<dots> = (if i + 1 \<le> j \<and> j < i + 1 + n then bit (drop_bit 1 v) (j - (i + 1)) else buf_bit ?bytes j)"
    using 2 by (subst "2.IH") auto
  also have "\<dots> = (if i \<le> j \<and> j < i + Suc n then bit v (j - i) else buf_bit bytes j)"
    using buf_bit_update[OF i, of v j] by (auto simp: bit_simps Suc_diff_Suc)
  finally show ?case .
qed auto

lemma set_bit_range_Ok:
  assumes "lsb \<le> msb" "msb div 8 < length bytes"
  shows "\<exists>bytes'. set_bit_range msb lsb v bytes = Ok bytes' \<and> length bytes' = length bytes \<and>
    (\<forall>j. buf_bit bytes' j \<longleftrightarrow> (if lsb \<le> j \<and> j \<le> msb then bit v (j - lsb) else buf_bit bytes j))"
  using assms
  by (auto simp: set_bit_range_def buf_bit_set_loop)

subsection \<open>A sequence of setters\<close>

fun set_fields :: "(field \<times> u64) list \<Rightarrow> u8 list \<Rightarrow> (panic, u8 list) result" where
  "set_fields [] bytes = Ok bytes"
| "set_fields (((msb, lsb), v) # fs) bytes = result_bind (set_bit_range msb lsb v bytes) (set_fields fs)"

definition disjoint :: "field \<Rightarrow> field \<Rightarrow> bool" where
  "disjoint f g \<longleftrightarrow> fst f < snd g \<or> fst g < snd f"

fun layout_ok :: "nat \<Rightarrow> field list \<Rightarrow> bool" where
  "layout_ok n [] \<longleftrightarrow> True"
| "layout_ok n (f # fs) \<longleftrightarrow>
     snd f \<le> fst f \<and> fst f < 8 * n \<and> fst f - snd f < 64 \<and> list_all (disjoint f) fs \<and> layout_ok n fs"

lemma layout_ok_mono: "layout_ok n fs \<Longrightarrow> n \<le> m \<Longrightarrow> layout_ok m fs"
  by (induction fs) auto

definition field_holds :: "u8 list \<Rightarrow> field \<Rightarrow> u64 \<Rightarrow> bool" where
  "field_holds bytes f v \<longleftrightarrow> (\<forall>k \<le> fst f - snd f. buf_bit bytes (snd f + k) = bit v k)"

lemma set_fields_spec:
  assumes "layout_ok (length bytes) (map fst fs)"
  shows "\<exists>bytes'. set_fields fs bytes = Ok bytes' \<and> length bytes' = length bytes \<and>
    list_all (\<lambda>(f, v). field_holds bytes' f v) fs \<and>
    (\<forall>j. list_all (\<lambda>f. \<not> (snd f \<le> j \<and> j \<le> fst f)) (map fst fs) \<longrightarrow> buf_bit bytes' j = buf_bit bytes j)"
  using assms
proof (induction fs arbitrary: bytes)
  case (Cons x fs)
  obtain msb lsb v where x: "x = ((msb, lsb), v)"
    by (metis surj_pair)
  have r: "lsb \<le> msb" "msb div 8 < length bytes"
    using Cons.prems x by (auto simp: less_mult_imp_div_less mult.commute)
  obtain b1 where b1: "set_bit_range msb lsb v bytes = Ok b1" "length b1 = length bytes"
    and bits1: "\<And>j. buf_bit b1 j \<longleftrightarrow> (if lsb \<le> j \<and> j \<le> msb then bit v (j - lsb) else buf_bit bytes j)"
    using set_bit_range_Ok[OF r] by blast
  obtain b2 where b2: "set_fields fs b1 = Ok b2" "length b2 = length b1"
    "list_all (\<lambda>(f, v). field_holds b2 f v) fs"
    and frame: "\<And>j. list_all (\<lambda>f. \<not> (snd f \<le> j \<and> j \<le> fst f)) (map fst fs) \<Longrightarrow> buf_bit b2 j = buf_bit b1 j"
    using Cons.IH[of b1] Cons.prems b1(2) x by auto
  have away: "list_all (\<lambda>f. \<not> (snd f \<le> j \<and> j \<le> fst f)) (map fst fs)" if "lsb \<le> j" "j \<le> msb" for j
    using Cons.prems x that by (auto simp: list_all_iff disjoint_def)
  have "field_holds b2 (msb, lsb) v"
    using r(1) bits1 frame[OF away] by (auto simp: field_holds_def)
  with b1 b2 bits1 frame show ?case
    by (auto simp: x)
qed simp

lemma get_field_holds:
  assumes "field_holds bytes f v" "snd f \<le> fst f" "fst f - snd f < LENGTH('a::len)"
  shows "get_field f bytes = take_bit (fst f - snd f + 1) (ucast v :: 'a word)"
  using assms by (intro bit_word_eqI) (auto simp: bit_get_field bit_simps field_holds_def)

lemma set_fields_append:
  "set_fields (fs @ gs) bytes = result_bind (set_fields fs bytes) (set_fields gs)"
proof (induction fs arbitrary: bytes)
  case (Cons x fs)
  then show ?case
    by (cases x; cases "fst x"; cases "set_bit_range (fst (fst x)) (snd (fst x)) (snd x) bytes") simp_all
qed simp

subsection \<open>The layouts\<close>

text \<open>\<^verbatim>\<open>CmdQueueDescCommonHead\<close>\<close>

abbreviation CmdCommonHead_valid :: field where "CmdCommonHead_valid \<equiv> (0, 0)"
abbreviation CmdCommonHead_is_success_or_need_signal_cplt :: field where "CmdCommonHead_is_success_or_need_signal_cplt \<equiv> (1, 1)"
abbreviation CmdCommonHead_op_code :: field where "CmdCommonHead_op_code \<equiv> (7, 2)"
abbreviation CmdCommonHead_extra_segment_cnt :: field where "CmdCommonHead_extra_segment_cnt \<equiv> (11, 8)"
abbreviation CmdCommonHead_reserverd :: field where "CmdCommonHead_reserverd \<equiv> (31, 12)"
abbreviation CmdCommonHead_user_data :: field where "CmdCommonHead_user_data \<equiv> (63, 32)"

definition CmdQueueDescCommonHead :: "field list" where
  "CmdQueueDescCommonHead =
     [CmdCommonHead_valid,
      CmdCommonHead_is_success_or_need_signal_cplt,
      CmdCommonHead_op_code,
      CmdCommonHead_extra_segment_cnt,
      CmdCommonHead_reserverd,
      CmdCommonHead_user_data]"

text \<open>\<^verbatim>\<open>CmdQueueReqDescUpdateMrTable\<close>\<close>

abbreviation UpdateMrTable_mr_base_va :: field where "UpdateMrTable_mr_base_va \<equiv> (127, 64)"
abbreviation UpdateMrTable_mr_length :: field where "UpdateMrTable_mr_length \<equiv> (159, 128)"
abbreviation UpdateMrTable_mr_key :: field where "UpdateMrTable_mr_key \<equiv> (191, 160)"
abbreviation UpdateMrTable_pd_handler :: field where "UpdateMrTable_pd_handler \<equiv> (223, 192)"
abbreviation UpdateMrTable_acc_flags :: field where "UpdateMrTable_acc_flags \<equiv> (231, 224)"
abbreviation UpdateMrTable_pgt_offset :: field where "UpdateMrTable_pgt_offset \<equiv> (248, 232)"

definition CmdQueueReqDescUpdateMrTable :: "field list" where
  "CmdQueueReqDescUpdateMrTable =
     [UpdateMrTable_mr_base_va,
      UpdateMrTable_mr_length,
      UpdateMrTable_mr_key,
      UpdateMrTable_pd_handler,
      UpdateMrTable_acc_flags,
      UpdateMrTable_pgt_offset]"

text \<open>\<^verbatim>\<open>CmdQueueReqDescUpdatePGT\<close>\<close>

abbreviation UpdatePGT_dma_addr :: field where "UpdatePGT_dma_addr \<equiv> (127, 64)"
abbreviation UpdatePGT_start_index :: field where "UpdatePGT_start_index \<equiv> (159, 128)"
abbreviation UpdatePGT_dma_read_length :: field where "UpdatePGT_dma_read_length \<equiv> (191, 160)"

definition CmdQueueReqDescUpdatePGT :: "field list" where
  "CmdQueueReqDescUpdatePGT =
     [UpdatePGT_dma_addr,
      UpdatePGT_start_index,
      UpdatePGT_dma_read_length]"

text \<open>\<^verbatim>\<open>CmdQueueReqDescQpManagementSeg0\<close>\<close>

abbreviation QpManagementSeg0_is_valid :: field where "QpManagementSeg0_is_valid \<equiv> (64, 64)"
abbreviation QpManagementSeg0_is_error :: field where "QpManagementSeg0_is_error \<equiv> (65, 65)"
abbreviation QpManagementSeg0_qpn :: field where "QpManagementSeg0_qpn \<equiv> (95, 72)"
abbreviation QpManagementSeg0_pd_handler :: field where "QpManagementSeg0_pd_handler \<equiv> (127, 96)"
abbreviation QpManagementSeg0_qp_type :: field where "QpManagementSeg0_qp_type \<equiv> (131, 128)"
abbreviation QpManagementSeg0_rq_access_flags :: field where "QpManagementSeg0_rq_access_flags \<equiv> (143, 136)"
abbreviation QpManagementSeg0_pmtu :: field where "QpManagementSeg0_pmtu \<equiv> (146, 144)"
abbreviation QpManagementSeg0_peer_qpn :: field where "QpManagementSeg0_peer_qpn \<equiv> (175, 152)"

definition CmdQueueReqDescQpManagementSeg0 :: "field list" where
  "CmdQueueReqDescQpManagementSeg0 =
     [QpManagementSeg0_is_valid,
      QpManagementSeg0_is_error,
      QpManagementSeg0_qpn,
      QpManagementSeg0_pd_handler,
      QpManagementSeg0_qp_type,
      QpManagementSeg0_rq_access_flags,
      QpManagementSeg0_pmtu,
      QpManagementSeg0_peer_qpn]"

text \<open>\<^verbatim>\<open>CmdQueueReqDescSetNetworkParam\<close>\<close>

abbreviation SetNetworkParam_ip_gateway :: field where "SetNetworkParam_ip_gateway \<equiv> (95, 64)"
abbreviation SetNetworkParam_ip_netmask :: field where "SetNetworkParam_ip_netmask \<equiv> (127, 96)"
abbreviation SetNetworkParam_ip_addr :: field where "SetNetworkParam_ip_addr \<equiv> (159, 128)"
abbreviation SetNetworkParam_eth_mac_addr :: field where "SetNetworkParam_eth_mac_addr \<equiv> (239, 192)"

definition CmdQueueReqDescSetNetworkParam :: "field list" where
  "CmdQueueReqDescSetNetworkParam =
     [SetNetworkParam_ip_gateway,
      SetNetworkParam_ip_netmask,
      SetNetworkParam_ip_addr,
      SetNetworkParam_eth_mac_addr]"

text \<open>\<^verbatim>\<open>CmdQueueReqDescSetRawPacketReceiveMeta\<close>\<close>

abbreviation SetRawPacketReceiveMeta_write_base_addr :: field where "SetRawPacketReceiveMeta_write_base_addr \<equiv> (127, 64)"
abbreviation SetRawPacketReceiveMeta_write_mr_key :: field where "SetRawPacketReceiveMeta_write_mr_key \<equiv> (159, 128)"

definition CmdQueueReqDescSetRawPacketReceiveMeta :: "field list" where
  "CmdQueueReqDescSetRawPacketReceiveMeta =
     [SetRawPacketReceiveMeta_write_base_addr,
      SetRawPacketReceiveMeta_write_mr_key]"

text \<open>\<^verbatim>\<open>CmdQueueReqDescUpdateErrRecoverPoint\<close>\<close>

abbreviation UpdateErrRecoverPoint_psn :: field where "UpdateErrRecoverPoint_psn \<equiv> (87, 64)"
abbreviation UpdateErrRecoverPoint_qpn :: field where "UpdateErrRecoverPoint_qpn \<equiv> (119, 96)"

definition CmdQueueReqDescUpdateErrRecoverPoint :: "field list" where
  "CmdQueueReqDescUpdateErrRecoverPoint =
     [UpdateErrRecoverPoint_psn,
      UpdateErrRecoverPoint_qpn]"

text \<open>\<^verbatim>\<open>SendQueueDescCommonHead\<close>\<close>

abbreviation SendCommonHead_valid :: field where "SendCommonHead_valid \<equiv> (0, 0)"
abbreviation SendCommonHead_is_success_or_need_signal_cplt :: field where "SendCommonHead_is_success_or_need_signal_cplt \<equiv> (1, 1)"
abbreviation SendCommonHead_is_first :: field where "SendCommonHead_is_first \<equiv> (2, 2)"
abbreviation SendCommonHead_is_last :: field where "SendCommonHead_is_last \<equiv> (3, 3)"
abbreviation SendCommonHead_op_code :: field where "SendCommonHead_op_code \<equiv> (7, 4)"
abbreviation SendCommonHead_extra_segment_cnt :: field where "SendCommonHead_extra_segment_cnt \<equiv> (11, 8)"
abbreviation SendCommonHead_total_len :: field where "SendCommonHead_total_len \<equiv> (63, 32)"

definition SendQueueDescCommonHead :: "field list" where
  "SendQueueDescCommonHead =
     [SendCommonHead_valid,
      SendCommonHead_is_success_or_need_signal_cplt,
      SendCommonHead_is_first,
      SendCommonHead_is_last,
      SendCommonHead_op_code,
      SendCommonHead_extra_segment_cnt,
      SendCommonHead_total_len]"

text \<open>\<^verbatim>\<open>SendQueueReqDescSeg0\<close>\<close>

abbreviation SendSeg0_raddr :: field where "SendSeg0_raddr \<equiv> (127, 64)"
abbreviation SendSeg0_rkey :: field where "SendSeg0_rkey \<equiv> (159, 128)"
abbreviation SendSeg0_dqp_ip :: field where "SendSeg0_dqp_ip \<equiv> (191, 160)"
abbreviation SendSeg0_pkey :: field where "SendSeg0_pkey \<equiv> (207, 192)"

definition SendQueueReqDescSeg0 :: "field list" where
  "SendQueueReqDescSeg0 =
     [SendSeg0_raddr,
      SendSeg0_rkey,
      SendSeg0_dqp_ip,
      SendSeg0_pkey]"

text \<open>\<^verbatim>\<open>SendQueueReqDescSeg1\<close>\<close>

abbreviation SendSeg1_pmtu :: field where "SendSeg1_pmtu \<equiv> (2, 0)"
abbreviation SendSeg1_flags :: field where "SendSeg1_flags \<equiv> (12, 8)"
abbreviation SendSeg1_qp_type :: field where "SendSeg1_qp_type \<equiv> (19, 16)"
abbreviation SendSeg1_seg_cnt :: field where "SendSeg1_seg_cnt \<equiv> (26, 24)"
abbreviation SendSeg1_psn :: field where "SendSeg1_psn \<equiv> (55, 32)"
abbreviation SendSeg1_mac_addr :: field where "SendSeg1_mac_addr \<equiv> (111, 64)"
abbreviation SendSeg1_dqpn :: field where "SendSeg1_dqpn \<equiv> (151, 128)"
abbreviation SendSeg1_imm :: field where "SendSeg1_imm \<equiv> (191, 160)"

definition SendQueueReqDescSeg1 :: "field list" where
  "SendQueueReqDescSeg1 =
     [SendSeg1_pmtu,
      SendSeg1_flags,
      SendSeg1_qp_type,
      SendSeg1_seg_cnt,
      SendSeg1_psn,
      SendSeg1_mac_addr,
      SendSeg1_dqpn,
      SendSeg1_imm]"

text \<open>\<^verbatim>\<open>SendQueueReqDescFragSGE\<close>\<close>

abbreviation SendFragSGE_lkey :: field where "SendFragSGE_lkey \<equiv> (31, 0)"
abbreviation SendFragSGE_len :: field where "SendFragSGE_len \<equiv> (63, 32)"
abbreviation SendFragSGE_laddr :: field where "SendFragSGE_laddr \<equiv> (127, 64)"

definition SendQueueReqDescFragSGE :: "field list" where
  "SendQueueReqDescFragSGE =
     [SendFragSGE_lkey,
      SendFragSGE_len,
      SendFragSGE_laddr]"

text \<open>\<^verbatim>\<open>MetaReportQueueDescFragRETH\<close>\<close>

abbreviation MetaFragRETH_va :: field where "MetaFragRETH_va \<equiv> (63, 0)"
abbreviation MetaFragRETH_rkey :: field where "MetaFragRETH_rkey \<equiv> (95, 64)"
abbreviation MetaFragRETH_dlen :: field where "MetaFragRETH_dlen \<equiv> (127, 96)"

definition MetaReportQueueDescFragRETH :: "field list" where
  "MetaReportQueueDescFragRETH =
     [MetaFragRETH_va,
      MetaFragRETH_rkey,
      MetaFragRETH_dlen]"

text \<open>\<^verbatim>\<open>MetaReportQueueDescFragImmDT\<close>\<close>

abbreviation MetaFragImmDT_imm :: field where "MetaFragImmDT_imm \<equiv> (32, 0)"

definition MetaReportQueueDescFragImmDT :: "field list" where
  "MetaReportQueueDescFragImmDT =
     [MetaFragImmDT_imm]"

text \<open>\<^verbatim>\<open>MetaReportQueueDescFragAETH\<close>\<close>

abbreviation MetaFragAETH_psn :: field where "MetaFragAETH_psn \<equiv> (23, 0)"
abbreviation MetaFragAETH_msn :: field where "MetaFragAETH_msn \<equiv> (47, 24)"
abbreviation MetaFragAETH_aeth_value :: field where "MetaFragAETH_aeth_value \<equiv> (52, 48)"
abbreviation MetaFragAETH_aeth_code :: field where "MetaFragAETH_aeth_code \<equiv> (54, 53)"

definition MetaReportQueueDescFragAETH :: "field list" where
  "MetaReportQueueDescFragAETH =
     [MetaFragAETH_psn,
      MetaFragAETH_msn,
      MetaFragAETH_aeth_value,
      MetaFragAETH_aeth_code]"

text \<open>\<^verbatim>\<open>MetaReportQueueDescBthReth\<close>\<close>

abbreviation MetaBthReth_expected_psn :: field where "MetaBthReth_expected_psn \<equiv> (23, 0)"
abbreviation MetaBthReth_req_status :: field where "MetaBthReth_req_status \<equiv> (31, 24)"
abbreviation MetaBthReth_bth :: field where "MetaBthReth_bth \<equiv> (95, 32)"
abbreviation MetaBthReth_reth :: field where "MetaBthReth_reth \<equiv> (223, 96)"
abbreviation MetaBthReth_msn :: field where "MetaBthReth_msn \<equiv> (247, 224)"
abbreviation MetaBthReth_can_auto_ack :: field where "MetaBthReth_can_auto_ack \<equiv> (255, 255)"

definition MetaReportQueueDescBthReth :: "field list" where
  "MetaReportQueueDescBthReth =
     [MetaBthReth_expected_psn,
      MetaBthReth_req_status,
      MetaBthReth_bth,
      MetaBthReth_reth,
      MetaBthReth_msn,
      MetaBthReth_can_auto_ack]"

text \<open>\<^verbatim>\<open>MetaReportQueueDescFragBTH\<close>\<close>

abbreviation MetaFragBTH_trans_type :: field where "MetaFragBTH_trans_type \<equiv> (2, 0)"
abbreviation MetaFragBTH_opcode :: field where "MetaFragBTH_opcode \<equiv> (7, 3)"
abbreviation MetaFragBTH_qpn :: field where "MetaFragBTH_qpn \<equiv> (31, 8)"
abbreviation MetaFragBTH_psn :: field where "MetaFragBTH_psn \<equiv> (55, 32)"
abbreviation MetaFragBTH_solicited :: field where "MetaFragBTH_solicited \<equiv> (56, 56)"
abbreviation MetaFragBTH_ack_req :: field where "MetaFragBTH_ack_req \<equiv> (57, 57)"
abbreviation MetaFragBTH_pad_cnt :: field where "MetaFragBTH_pad_cnt \<equiv> (63, 58)"

definition MetaReportQueueDescFragBTH :: "field list" where
  "MetaReportQueueDescFragBTH =
     [MetaFragBTH_trans_type,
      MetaFragBTH_opcode,
      MetaFragBTH_qpn,
      MetaFragBTH_psn,
      MetaFragBTH_solicited,
      MetaFragBTH_ack_req,
      MetaFragBTH_pad_cnt]"

text \<open>\<^verbatim>\<open>MetaReportQueueDescFragSecondaryRETH\<close>\<close>

abbreviation MetaFragSecondaryRETH_secondary_va :: field where "MetaFragSecondaryRETH_secondary_va \<equiv> (63, 0)"
abbreviation MetaFragSecondaryRETH_secondary_rkey :: field where "MetaFragSecondaryRETH_secondary_rkey \<equiv> (95, 64)"

definition MetaReportQueueDescFragSecondaryRETH :: "field list" where
  "MetaReportQueueDescFragSecondaryRETH =
     [MetaFragSecondaryRETH_secondary_va,
      MetaFragSecondaryRETH_secondary_rkey]"

text \<open>\<^verbatim>\<open>Ipv4\<close>\<close>

abbreviation Ipv4_version_and_len :: field where "Ipv4_version_and_len \<equiv> (7, 0)"
abbreviation Ipv4_dscp_ecn :: field where "Ipv4_dscp_ecn \<equiv> (15, 8)"
abbreviation Ipv4_total_length :: field where "Ipv4_total_length \<equiv> (31, 16)"
abbreviation Ipv4_identification :: field where "Ipv4_identification \<equiv> (47, 32)"
abbreviation Ipv4_fragment_offset :: field where "Ipv4_fragment_offset \<equiv> (63, 48)"
abbreviation Ipv4_ttl :: field where "Ipv4_ttl \<equiv> (71, 64)"
abbreviation Ipv4_protocol :: field where "Ipv4_protocol \<equiv> (79, 72)"
abbreviation Ipv4_checksum :: field where "Ipv4_checksum \<equiv> (95, 80)"
abbreviation Ipv4_source :: field where "Ipv4_source \<equiv> (127, 96)"
abbreviation Ipv4_destination :: field where "Ipv4_destination \<equiv> (159, 128)"

definition Ipv4 :: "field list" where
  "Ipv4 =
     [Ipv4_version_and_len,
      Ipv4_dscp_ecn,
      Ipv4_total_length,
      Ipv4_identification,
      Ipv4_fragment_offset,
      Ipv4_ttl,
      Ipv4_protocol,
      Ipv4_checksum,
      Ipv4_source,
      Ipv4_destination]"

text \<open>\<^verbatim>\<open>Udp\<close>\<close>

abbreviation Udp_src_port :: field where "Udp_src_port \<equiv> (15, 0)"
abbreviation Udp_dst_port :: field where "Udp_dst_port \<equiv> (31, 16)"
abbreviation Udp_length :: field where "Udp_length \<equiv> (47, 32)"
abbreviation Udp_checksum :: field where "Udp_checksum \<equiv> (63, 48)"

definition Udp :: "field list" where
  "Udp =
     [Udp_src_port,
      Udp_dst_port,
      Udp_length,
      Udp_checksum]"

text \<open>\<^verbatim>\<open>Bth\<close>\<close>

abbreviation Bth_opcode :: field where "Bth_opcode \<equiv> (7, 0)"
abbreviation Bth_pad_count :: field where "Bth_pad_count \<equiv> (11, 10)"
abbreviation Bth_pkey :: field where "Bth_pkey \<equiv> (31, 16)"
abbreviation Bth_ecn_and_resv6 :: field where "Bth_ecn_and_resv6 \<equiv> (39, 32)"
abbreviation Bth_dqpn :: field where "Bth_dqpn \<equiv> (63, 40)"
abbreviation Bth_psn :: field where "Bth_psn \<equiv> (95, 72)"

definition Bth :: "field list" where
  "Bth =
     [Bth_opcode,
      Bth_pad_count,
      Bth_pkey,
      Bth_ecn_and_resv6,
      Bth_dqpn,
      Bth_psn]"

text \<open>\<^verbatim>\<open>Aeth\<close>\<close>

abbreviation Aeth_aeth_value :: field where "Aeth_aeth_value \<equiv> (4, 0)"
abbreviation Aeth_aeth_code :: field where "Aeth_aeth_code \<equiv> (6, 5)"
abbreviation Aeth_msn :: field where "Aeth_msn \<equiv> (31, 16)"

definition Aeth :: "field list" where
  "Aeth =
     [Aeth_aeth_value,
      Aeth_aeth_code,
      Aeth_msn]"

text \<open>\<^verbatim>\<open>NReth\<close>\<close>

abbreviation NReth_last_retry_psn :: field where "NReth_last_retry_psn \<equiv> (23, 0)"

definition NReth :: "field list" where
  "NReth =
     [NReth_last_retry_psn]"

text \<open>\<^verbatim>\<open>Mac\<close>\<close>

abbreviation Mac_dst_mac_addr :: field where "Mac_dst_mac_addr \<equiv> (47, 0)"
abbreviation Mac_src_mac_addr :: field where "Mac_src_mac_addr \<equiv> (95, 48)"
abbreviation Mac_network_layer_type :: field where "Mac_network_layer_type \<equiv> (111, 96)"

definition Mac :: "field list" where
  "Mac =
     [Mac_dst_mac_addr,
      Mac_src_mac_addr,
      Mac_network_layer_type]"

end
