(* ===== verification/Descriptors.thy ===== *)
theory Descriptors
  imports Layout Rdma_Types Ringbuf
begin

unbundle bit_operations_syntax

text \<open>
  The descriptors that cross the ring buffers, \<^verbatim>\<open>src/device/types.rs\<close>: the control and
  work descriptors sent to the card with their encoders, the descriptors received
  from it with their decoders, and the builder of work descriptors. An encoder is the
  list of its setter calls. The text of a parse error is reduced to its constant part.
\<close>

subsection \<open>Control descriptors\<close>

record ToCardCtrlRbDescCommon =
  cc_op_id :: u32

record ToCardCtrlRbDescUpdateMrTable =
  um_common :: ToCardCtrlRbDescCommon
  um_addr :: u64
  um_len :: u32
  um_key :: Key
  um_pd_hdl :: u32
  um_acc_flags :: MemAccessTypeFlag
  um_pgt_offset :: u32

record ToCardCtrlRbDescUpdatePageTable =
  up_common :: ToCardCtrlRbDescCommon
  up_start_addr :: u64
  up_pgt_idx :: u32
  up_pgte_cnt :: u32

record ToCardCtrlRbDescQpManagement =
  qm_common :: ToCardCtrlRbDescCommon
  qm_is_valid :: bool
  qm_qpn :: Qpn
  qm_pd_hdl :: u32
  qm_qp_type :: QpType
  qm_rq_acc_flags :: MemAccessTypeFlag
  qm_pmtu :: Pmtu
  qm_peer_qpn :: Qpn

record ToCardCtrlRbDescSetNetworkParam =
  sn_common :: ToCardCtrlRbDescCommon
  sn_gateway :: Ipv4Addr
  sn_netmask :: Ipv4Addr
  sn_ipaddr :: Ipv4Addr
  sn_macaddr :: MacAddress

record ToCardCtrlRbDescSetRawPacketReceiveMeta =
  rm_common :: ToCardCtrlRbDescCommon
  rm_base_write_addr :: u64
  rm_key :: Key

record ToCardCtrlRbDescUpdateErrPsnRecoverPoint =
  ep_common :: ToCardCtrlRbDescCommon
  ep_qpn :: Qpn
  ep_recover_psn :: Psn

datatype ToCardCtrlRbDesc =
    UpdateMrTable ToCardCtrlRbDescUpdateMrTable
  | UpdatePageTable ToCardCtrlRbDescUpdatePageTable
  | QpManagement ToCardCtrlRbDescQpManagement
  | SetNetworkParam ToCardCtrlRbDescSetNetworkParam
  | SetRawPacketReceiveMeta ToCardCtrlRbDescSetRawPacketReceiveMeta
  | UpdateErrorPsnRecoverPoint ToCardCtrlRbDescUpdateErrPsnRecoverPoint

fun set_id :: "u32 \<Rightarrow> ToCardCtrlRbDesc \<Rightarrow> ToCardCtrlRbDesc" where
  "set_id i (UpdateMrTable d) = UpdateMrTable (d\<lparr> um_common := (um_common d)\<lparr> cc_op_id := i \<rparr> \<rparr>)"
| "set_id i (UpdatePageTable d) = UpdatePageTable (d\<lparr> up_common := (up_common d)\<lparr> cc_op_id := i \<rparr> \<rparr>)"
| "set_id i (QpManagement d) = QpManagement (d\<lparr> qm_common := (qm_common d)\<lparr> cc_op_id := i \<rparr> \<rparr>)"
| "set_id i (SetNetworkParam d) = SetNetworkParam (d\<lparr> sn_common := (sn_common d)\<lparr> cc_op_id := i \<rparr> \<rparr>)"
| "set_id i (SetRawPacketReceiveMeta d) =
     SetRawPacketReceiveMeta (d\<lparr> rm_common := (rm_common d)\<lparr> cc_op_id := i \<rparr> \<rparr>)"
| "set_id i (UpdateErrorPsnRecoverPoint d) =
     UpdateErrorPsnRecoverPoint (d\<lparr> ep_common := (ep_common d)\<lparr> cc_op_id := i \<rparr> \<rparr>)"

datatype CtrlRbDescOpcode =
    OpUpdateMrTable | OpUpdatePageTable | OpQpManagement | OpSetNetworkParam
  | OpSetRawPacketReceiveMeta | OpUpdateErrorPsnRecoverPoint

fun CtrlRbDescOpcode_discr :: "CtrlRbDescOpcode \<Rightarrow> u8" where
  "CtrlRbDescOpcode_discr OpUpdateMrTable = 0"
| "CtrlRbDescOpcode_discr OpUpdatePageTable = 1"
| "CtrlRbDescOpcode_discr OpQpManagement = 2"
| "CtrlRbDescOpcode_discr OpSetNetworkParam = 3"
| "CtrlRbDescOpcode_discr OpSetRawPacketReceiveMeta = 4"
| "CtrlRbDescOpcode_discr OpUpdateErrorPsnRecoverPoint = 5"

definition CtrlRbDescOpcode_try_from :: "u8 \<Rightarrow> CtrlRbDescOpcode option" where
  "CtrlRbDescOpcode_try_from v =
     (if v = 0 then Some OpUpdateMrTable else if v = 1 then Some OpUpdatePageTable
      else if v = 2 then Some OpQpManagement else if v = 3 then Some OpSetNetworkParam
      else if v = 4 then Some OpSetRawPacketReceiveMeta
      else if v = 5 then Some OpUpdateErrorPsnRecoverPoint else None)"

record ToHostCtrlRbDescCommon =
  hc_op_id :: u32
  hc_opcode :: CtrlRbDescOpcode
  hc_is_success :: bool

record ToHostCtrlRbDesc =
  hd_common :: ToHostCtrlRbDescCommon

text \<open>\<^verbatim>\<open>Ipv4Addr::octets\<close>.\<close>

definition octets :: "Ipv4Addr \<Rightarrow> u8 list" where
  "octets ip = [ucast (drop_bit 24 ip), ucast (drop_bit 16 ip), ucast (drop_bit 8 ip), ucast ip]"

definition write_common_header :: "CtrlRbDescOpcode \<Rightarrow> u32 \<Rightarrow> (field \<times> u64) list" where
  "write_common_header opcode op_id =
     [(CmdCommonHead_valid, 1),
      (CmdCommonHead_reserverd, 0),
      (CmdCommonHead_is_success_or_need_signal_cplt, 0),
      (CmdCommonHead_op_code, ucast (CtrlRbDescOpcode_discr opcode)),
      (CmdCommonHead_extra_segment_cnt, 0),
      (CmdCommonHead_user_data, ucast op_id)]"

definition write_update_mr_table :: "ToCardCtrlRbDescUpdateMrTable \<Rightarrow> (field \<times> u64) list" where
  "write_update_mr_table desc =
     [(UpdateMrTable_mr_base_va, um_addr desc),
      (UpdateMrTable_mr_length, ucast (um_len desc)),
      (UpdateMrTable_mr_key, ucast (key_get (um_key desc))),
      (UpdateMrTable_pd_handler, ucast (um_pd_hdl desc)),
      (UpdateMrTable_acc_flags, ucast (um_acc_flags desc)),
      (UpdateMrTable_pgt_offset, ucast (um_pgt_offset desc))]"

definition write_update_page_table :: "ToCardCtrlRbDescUpdatePageTable \<Rightarrow> (field \<times> u64) list" where
  "write_update_page_table desc =
     [(UpdatePGT_dma_addr, up_start_addr desc),
      (UpdatePGT_start_index, ucast (up_pgt_idx desc)),
      (UpdatePGT_dma_read_length, ucast (up_pgte_cnt desc * 8))]"

definition write_qp_management :: "ToCardCtrlRbDescQpManagement \<Rightarrow> (field \<times> u64) list" where
  "write_qp_management desc =
     [(QpManagementSeg0_is_valid, of_bool (qm_is_valid desc)),
      (QpManagementSeg0_is_error, 0),
      (QpManagementSeg0_qpn, ucast (psn_get (qm_qpn desc))),
      (QpManagementSeg0_pd_handler, ucast (qm_pd_hdl desc)),
      (QpManagementSeg0_qp_type, ucast (QpType_discr (qm_qp_type desc))),
      (QpManagementSeg0_rq_access_flags, ucast (qm_rq_acc_flags desc)),
      (QpManagementSeg0_pmtu, ucast (Pmtu_discr (qm_pmtu desc))),
      (QpManagementSeg0_peer_qpn, ucast (psn_get (qm_peer_qpn desc)))]"

definition write_set_network_param :: "ToCardCtrlRbDescSetNetworkParam \<Rightarrow> (field \<times> u64) list" where
  "write_set_network_param desc =
     [(SetNetworkParam_eth_mac_addr, u8_slice_to_u64 (sn_macaddr desc)),
      (SetNetworkParam_ip_addr, u8_slice_to_u64 (octets (sn_ipaddr desc))),
      (SetNetworkParam_ip_gateway, u8_slice_to_u64 (octets (sn_gateway desc))),
      (SetNetworkParam_ip_netmask, u8_slice_to_u64 (octets (sn_netmask desc)))]"

definition write_set_raw_packet_receive_meta ::
  "ToCardCtrlRbDescSetRawPacketReceiveMeta \<Rightarrow> (field \<times> u64) list" where
  "write_set_raw_packet_receive_meta desc =
     [(SetRawPacketReceiveMeta_write_base_addr, rm_base_write_addr desc),
      (SetRawPacketReceiveMeta_write_mr_key, ucast (key_get (rm_key desc)))]"

definition write_update_err_psn_recover_point ::
  "ToCardCtrlRbDescUpdateErrPsnRecoverPoint \<Rightarrow> (field \<times> u64) list" where
  "write_update_err_psn_recover_point desc =
     [(UpdateErrRecoverPoint_qpn, ucast (psn_get (ep_qpn desc))),
      (UpdateErrRecoverPoint_psn, ucast (psn_get (ep_recover_psn desc)))]"

text \<open>The setter calls of \<^verbatim>\<open>ToCardCtrlRbDesc::write\<close>, and the call itself.\<close>

fun ctrl_setters :: "ToCardCtrlRbDesc \<Rightarrow> (field \<times> u64) list" where
  "ctrl_setters (UpdateMrTable desc) =
     write_common_header OpUpdateMrTable (cc_op_id (um_common desc)) @ write_update_mr_table desc"
| "ctrl_setters (UpdatePageTable desc) =
     write_common_header OpUpdatePageTable (cc_op_id (up_common desc)) @ write_update_page_table desc"
| "ctrl_setters (QpManagement desc) =
     write_common_header OpQpManagement (cc_op_id (qm_common desc)) @ write_qp_management desc"
| "ctrl_setters (SetNetworkParam desc) =
     write_common_header OpSetNetworkParam (cc_op_id (sn_common desc)) @ write_set_network_param desc"
| "ctrl_setters (SetRawPacketReceiveMeta desc) =
     write_common_header OpSetRawPacketReceiveMeta (cc_op_id (rm_common desc)) @
     write_set_raw_packet_receive_meta desc"
| "ctrl_setters (UpdateErrorPsnRecoverPoint desc) =
     write_common_header OpUpdateErrorPsnRecoverPoint (cc_op_id (ep_common desc)) @
     write_update_err_psn_recover_point desc"

definition ctrl_write :: "ToCardCtrlRbDesc \<Rightarrow> u8 list \<Rightarrow> (panic, u8 list) result" where
  "ctrl_write desc dst = set_fields (ctrl_setters desc) dst"

definition fld :: "field \<Rightarrow> u8 list \<Rightarrow> (panic, 'a::len word) result" where
  "fld f bytes = bit_range (fst f) (snd f) bytes"

text \<open>\<^verbatim>\<open>ToHostCtrlRbDesc::read\<close>: the two asserts panic, an unknown opcode is an error.\<close>

definition ctrl_read :: "u8 list \<Rightarrow> (panic, (DeviceError, ToHostCtrlRbDesc) result) result" where
  "ctrl_read src =
     result_bind (fld CmdCommonHead_valid src) (\<lambda>valid :: u32.
     if valid = 0 then Err Panic else
     result_bind (fld CmdCommonHead_extra_segment_cnt src) (\<lambda>extra_segment_cnt :: u32.
     if extra_segment_cnt \<noteq> 0 then Err Panic else
     result_bind (fld CmdCommonHead_is_success_or_need_signal_cplt src) (\<lambda>is_success :: u32.
     result_bind (fld CmdCommonHead_op_code src) (\<lambda>op_code :: u32.
     case CtrlRbDescOpcode_try_from (ucast op_code) of
       None \<Rightarrow> Ok (Err (ParseDesc ''CtrlRbDescOpcode can not be parsed''))
     | Some opcode \<Rightarrow>
         result_bind (fld CmdCommonHead_user_data src) (\<lambda>user_data :: u32.
         Ok (Ok \<lparr> hd_common =
           \<lparr> hc_op_id = u32_to_le user_data, hc_opcode = opcode, hc_is_success = (is_success \<noteq> 0) \<rparr> \<rparr>))))))"

subsection \<open>The control descriptor as the card sees it\<close>

fun ctrl_op_id :: "ToCardCtrlRbDesc \<Rightarrow> u32" where
  "ctrl_op_id (UpdateMrTable d) = cc_op_id (um_common d)"
| "ctrl_op_id (UpdatePageTable d) = cc_op_id (up_common d)"
| "ctrl_op_id (QpManagement d) = cc_op_id (qm_common d)"
| "ctrl_op_id (SetNetworkParam d) = cc_op_id (sn_common d)"
| "ctrl_op_id (SetRawPacketReceiveMeta d) = cc_op_id (rm_common d)"
| "ctrl_op_id (UpdateErrorPsnRecoverPoint d) = cc_op_id (ep_common d)"

fun ctrl_opcode :: "ToCardCtrlRbDesc \<Rightarrow> CtrlRbDescOpcode" where
  "ctrl_opcode (UpdateMrTable d) = OpUpdateMrTable"
| "ctrl_opcode (UpdatePageTable d) = OpUpdatePageTable"
| "ctrl_opcode (QpManagement d) = OpQpManagement"
| "ctrl_opcode (SetNetworkParam d) = OpSetNetworkParam"
| "ctrl_opcode (SetRawPacketReceiveMeta d) = OpSetRawPacketReceiveMeta"
| "ctrl_opcode (UpdateErrorPsnRecoverPoint d) = OpUpdateErrorPsnRecoverPoint"

lemmas ctrl_body_defs = write_update_mr_table_def write_update_page_table_def write_qp_management_def
  write_set_network_param_def write_set_raw_packet_receive_meta_def
  write_update_err_psn_recover_point_def

lemma ctrl_layout_ok: "layout_ok 32 (map fst (ctrl_setters d))"
  by (cases d) (simp_all add: write_common_header_def ctrl_body_defs disjoint_def)

lemma ctrl_setters_header:
  "\<exists>body. ctrl_setters d = write_common_header (ctrl_opcode d) (ctrl_op_id d) @ body"
  by (cases d) simp_all

lemma fld_holds:
  assumes "field_holds bytes f v" "snd f \<le> fst f" "fst f - snd f < LENGTH('a::len)" "fst f div 8 < length bytes"
  shows "fld f bytes = Ok (take_bit (fst f - snd f + 1) (ucast v :: 'a word))"
  using assms get_field_holds[OF assms(1-3)] by (simp add: fld_def bit_range_def)

lemma CtrlRbDescOpcode_try_from_discr: "CtrlRbDescOpcode_try_from (CtrlRbDescOpcode_discr c) = Some c"
  by (cases c) (simp_all add: CtrlRbDescOpcode_try_from_def)

lemma opcode_survives:
  "CtrlRbDescOpcode_try_from (ucast (take_bit 6 (ucast (ucast (CtrlRbDescOpcode_discr c) :: u64) :: u32))) = Some c"
  by (cases c) (simp_all add: CtrlRbDescOpcode_try_from_def)

lemma u32_survives: "take_bit 32 (ucast (ucast (w :: u32) :: u64) :: u32) = w"
  by (rule bit_word_eqI) (auto simp: bit_simps)



subsection \<open>Work descriptors to the card\<close>

record DescSge =
  ds_addr :: u64
  ds_len :: u32
  ds_key :: Key

definition DescSge_from :: "Sge \<Rightarrow> DescSge" where
  "DescSge_from sge = \<lparr> ds_addr = sge_addr sge, ds_len = sge_len sge, ds_key = sge_key sge \<rparr>"

record ToCardWorkRbDescCommon =
  wc_total_len :: u32
  wc_raddr :: u64
  wc_rkey :: Key
  wc_dqp_ip :: Ipv4Addr
  wc_dqpn :: Qpn
  wc_mac_addr :: MacAddress
  wc_pmtu :: Pmtu
  wc_flags :: WorkReqSendFlag
  wc_qp_type :: QpType
  wc_psn :: Psn
  wc_msn :: Msn

definition ToCardWorkRbDescCommon_default :: ToCardWorkRbDescCommon where
  "ToCardWorkRbDescCommon_default =
     \<lparr> wc_total_len = 0, wc_raddr = 0, wc_rkey = Key 0, wc_dqp_ip = 0, wc_dqpn = ThreeBytesStruct 0,
       wc_mac_addr = [0, 0, 0, 0, 0, 0], wc_pmtu = Mtu256, wc_flags = 0, wc_qp_type = Rc,
       wc_psn = ThreeBytesStruct 0, wc_msn = Msn_default \<rparr>"

record ToCardWorkRbDescRead =
  cr_common :: ToCardWorkRbDescCommon
  cr_sge :: DescSge

record ToCardWorkRbDescWrite =
  cw_common :: ToCardWorkRbDescCommon
  cw_is_last :: bool
  cw_is_first :: bool
  cw_sge0 :: DescSge
  cw_sge1 :: "DescSge option"
  cw_sge2 :: "DescSge option"
  cw_sge3 :: "DescSge option"

record ToCardWorkRbDescWriteWithImm = ToCardWorkRbDescWrite +
  ci_imm :: u32

datatype ToCardWorkRbDesc =
    CRead ToCardWorkRbDescRead
  | CWrite ToCardWorkRbDescWrite
  | CWriteWithImm ToCardWorkRbDescWriteWithImm
  | CReadResp ToCardWorkRbDescWrite

datatype ToCardWorkRbDescOpcode = CoWrite | CoWriteWithImm | CoRead | CoReadResp

fun ToCardWorkRbDescOpcode_discr :: "ToCardWorkRbDescOpcode \<Rightarrow> u32" where
  "ToCardWorkRbDescOpcode_discr CoWrite = 0"
| "ToCardWorkRbDescOpcode_discr CoWriteWithImm = 1"
| "ToCardWorkRbDescOpcode_discr CoRead = 4"
| "ToCardWorkRbDescOpcode_discr CoReadResp = 12"

fun work_common :: "ToCardWorkRbDesc \<Rightarrow> ToCardWorkRbDescCommon" where
  "work_common (CRead d) = cr_common d"
| "work_common (CWrite d) = cw_common d"
| "work_common (CWriteWithImm d) = cw_common d"
| "work_common (CReadResp d) = cw_common d"

fun serialized_desc_cnt :: "ToCardWorkRbDesc \<Rightarrow> u32" where
  "serialized_desc_cnt (CRead _) = 2 + 1"
| "serialized_desc_cnt (CWrite d) = 2 + (1 + of_bool (cw_sge2 d \<noteq> None))"
| "serialized_desc_cnt (CReadResp d) = 2 + (1 + of_bool (cw_sge2 d \<noteq> None))"
| "serialized_desc_cnt (CWriteWithImm d) = 2 + (1 + of_bool (cw_sge2 d \<noteq> None))"

definition write_0 :: "ToCardWorkRbDesc \<Rightarrow> (field \<times> u64) list" where
  "write_0 self =
     (let common = work_common self;
          (opcode, is_first, is_last) =
            (case self of
               CRead _ \<Rightarrow> (CoRead, True, True)
             | CWrite d \<Rightarrow> (CoWrite, cw_is_first d, cw_is_last d)
             | CWriteWithImm d \<Rightarrow> (CoWriteWithImm, cw_is_first d, cw_is_last d)
             | CReadResp d \<Rightarrow> (CoReadResp, cw_is_first d, cw_is_last d));
          extra_segment_cnt = serialized_desc_cnt self - 1
      in [(SendCommonHead_valid, 1),
          (SendCommonHead_is_success_or_need_signal_cplt, 0),
          (SendCommonHead_is_first, of_bool is_first),
          (SendCommonHead_is_last, of_bool is_last),
          (SendCommonHead_op_code, ucast (ToCardWorkRbDescOpcode_discr opcode)),
          (SendCommonHead_extra_segment_cnt, ucast extra_segment_cnt),
          (SendCommonHead_total_len, ucast (wc_total_len common)),
          (SendSeg0_raddr, wc_raddr common),
          (SendSeg0_rkey, ucast (key_get (wc_rkey common))),
          (SendSeg0_dqp_ip, u8_slice_to_u64 (octets (wc_dqp_ip common))),
          (SendSeg0_pkey, ucast (msn_get (wc_msn common)))])"

definition sge_cnt :: "('a) ToCardWorkRbDescWrite_scheme \<Rightarrow> u8" where
  "sge_cnt d = 1 + of_bool (cw_sge1 d \<noteq> None) + of_bool (cw_sge2 d \<noteq> None) + of_bool (cw_sge3 d \<noteq> None)"

definition write_1 :: "ToCardWorkRbDesc \<Rightarrow> (field \<times> u64) list" where
  "write_1 self =
     (let common = work_common self;
          cnt = (case self of CRead _ \<Rightarrow> 1 | CWrite d \<Rightarrow> sge_cnt d | CReadResp d \<Rightarrow> sge_cnt d
                   | CWriteWithImm d \<Rightarrow> sge_cnt d)
      in [(SendSeg1_pmtu, ucast (Pmtu_discr (wc_pmtu common))),
          (SendSeg1_flags, ucast (wc_flags common)),
          (SendSeg1_qp_type, ucast (QpType_discr (wc_qp_type common))),
          (SendSeg1_seg_cnt, ucast cnt),
          (SendSeg1_psn, ucast (psn_get (wc_psn common))),
          (SendSeg1_mac_addr, u8_slice_to_u64 (wc_mac_addr common)),
          (SendSeg1_dqpn, ucast (psn_get (wc_dqpn common))),
          (SendSeg1_imm, (case self of CWriteWithImm d \<Rightarrow> ucast (ci_imm d) | _ \<Rightarrow> 0))])"

text \<open>A field of the struct that starts at byte \<open>off\<close> of the slot.\<close>

definition at_byte :: "nat \<Rightarrow> field \<Rightarrow> field" where
  "at_byte off f = (8 * off + fst f, 8 * off + snd f)"

definition write_2 :: "ToCardWorkRbDesc \<Rightarrow> u8 list \<Rightarrow> (panic, u8 list) result" where
  "write_2 self dst =
     (let (sge0, sge1) =
        (case self of CRead d \<Rightarrow> (cr_sge d, None) | CWrite d \<Rightarrow> (cw_sge0 d, cw_sge1 d)
           | CReadResp d \<Rightarrow> (cw_sge0 d, cw_sge1 d) | CWriteWithImm d \<Rightarrow> (cw_sge0 d, cw_sge1 d))
      in result_bind
           (set_fields [(at_byte 16 SendFragSGE_laddr, ds_addr sge0),
                        (at_byte 16 SendFragSGE_len, ucast (ds_len sge0)),
                        (at_byte 16 SendFragSGE_lkey, ucast (key_get (ds_key sge0)))] dst)
           (\<lambda>dst. case sge1 of
              Some sge1 \<Rightarrow>
                set_fields [(SendFragSGE_laddr, ds_addr sge1), (SendFragSGE_len, ucast (ds_len sge1)),
                            (SendFragSGE_lkey, ucast (key_get (ds_key sge1)))] dst
            | None \<Rightarrow> Ok (write_slice dst 0 (replicate 16 0))))"

definition sge_or_zero :: "nat \<Rightarrow> DescSge option \<Rightarrow> (field \<times> u64) list" where
  "sge_or_zero off sge =
     (case sge of
        Some sge \<Rightarrow> [(at_byte off SendFragSGE_lkey, ucast (key_get (ds_key sge))),
                       (at_byte off SendFragSGE_len, ucast (ds_len sge)),
                       (at_byte off SendFragSGE_laddr, ds_addr sge)]
      | None \<Rightarrow> [(at_byte off SendFragSGE_lkey, 0), (at_byte off SendFragSGE_len, 0),
                 (at_byte off SendFragSGE_laddr, 0)])"

definition write_3 :: "ToCardWorkRbDesc \<Rightarrow> (field \<times> u64) list" where
  "write_3 self =
     (let (sge2, sge3) =
        (case self of CRead _ \<Rightarrow> (None, None) | CWrite d \<Rightarrow> (cw_sge2 d, cw_sge3 d)
           | CReadResp d \<Rightarrow> (cw_sge2 d, cw_sge3 d) | CWriteWithImm d \<Rightarrow> (cw_sge2 d, cw_sge3 d))
      in sge_or_zero 0 sge3 @ sge_or_zero 16 sge2)"

subsection \<open>The work descriptor as the card sees it\<close>

fun work_sges :: "ToCardWorkRbDesc \<Rightarrow> DescSge \<times> DescSge option \<times> DescSge option \<times> DescSge option" where
  "work_sges (CRead d) = (cr_sge d, None, None, None)"
| "work_sges (CWrite d) = (cw_sge0 d, cw_sge1 d, cw_sge2 d, cw_sge3 d)"
| "work_sges (CReadResp d) = (cw_sge0 d, cw_sge1 d, cw_sge2 d, cw_sge3 d)"
| "work_sges (CWriteWithImm d) = (cw_sge0 d, cw_sge1 d, cw_sge2 d, cw_sge3 d)"

definition sge_at :: "nat \<Rightarrow> u8 list \<Rightarrow> DescSge" where
  "sge_at off bytes =
     \<lparr> ds_addr = get_field (at_byte off SendFragSGE_laddr) bytes,
       ds_len = get_field (at_byte off SendFragSGE_len) bytes,
       ds_key = Key (get_field (at_byte off SendFragSGE_lkey) bytes) \<rparr>"

definition zero_sge :: DescSge where
  "zero_sge = \<lparr> ds_addr = 0, ds_len = 0, ds_key = Key 0 \<rparr>"

definition sge_default :: "DescSge option \<Rightarrow> DescSge" where
  "sge_default s = (case s of None \<Rightarrow> zero_sge | Some s \<Rightarrow> s)"

lemma u64_survives: "take_bit 64 (w :: u64) = w"
  by (rule bit_word_eqI) (auto simp: bit_simps)

lemma sge_at_holds:
  assumes "field_holds bytes (at_byte off SendFragSGE_laddr) (ds_addr sge)"
    "field_holds bytes (at_byte off SendFragSGE_len) (ucast (ds_len sge))"
    "field_holds bytes (at_byte off SendFragSGE_lkey) (ucast (key_get (ds_key sge)))"
  shows "sge_at off bytes = sge"
  using get_field_holds[OF assms(1), where 'a = 64] get_field_holds[OF assms(2), where 'a = 32]
    get_field_holds[OF assms(3), where 'a = 32]
  by (simp add: sge_at_def at_byte_def u32_survives u64_survives)

lemma sge_or_zero_holds:
  assumes "list_all (\<lambda>(f, v). field_holds bytes f v) (sge_or_zero off sge)"
  shows "sge_at off bytes = sge_default sge"
proof (cases sge)
  case None
  then show ?thesis
    using assms sge_at_holds[of bytes off zero_sge] by (simp add: sge_or_zero_def sge_default_def zero_sge_def)
next
  case (Some s)
  then show ?thesis
    using assms sge_at_holds[of bytes off s] by (simp add: sge_or_zero_def sge_default_def)
qed

lemma work_layout_ok:
  "layout_ok 32 (map fst (write_0 d))" "layout_ok 32 (map fst (write_1 d))" "layout_ok 32 (map fst (write_3 d))"
  by (simp_all add: write_0_def write_1_def write_3_def Let_def disjoint_def sge_or_zero_def at_byte_def
      split: ToCardWorkRbDesc.splits option.splits prod.splits)

lemma write_3_sges:
  "write_3 d = (case work_sges d of (_, _, sge2, sge3) \<Rightarrow> sge_or_zero 0 sge3 @ sge_or_zero 16 sge2)"
  by (cases d) (simp_all add: write_3_def)

lemma write_2_sges:
  "write_2 d dst = (case work_sges d of (sge0, sge1, _, _) \<Rightarrow>
     result_bind
       (set_fields [(at_byte 16 SendFragSGE_laddr, ds_addr sge0),
                    (at_byte 16 SendFragSGE_len, ucast (ds_len sge0)),
                    (at_byte 16 SendFragSGE_lkey, ucast (key_get (ds_key sge0)))] dst)
       (\<lambda>dst. case sge1 of
          Some sge1 \<Rightarrow>
            set_fields [(SendFragSGE_laddr, ds_addr sge1), (SendFragSGE_len, ucast (ds_len sge1)),
                        (SendFragSGE_lkey, ucast (key_get (ds_key sge1)))] dst
        | None \<Rightarrow> Ok (write_slice dst 0 (replicate 16 0))))"
  by (cases d) (simp_all add: write_2_def)

lemma field_holds_cong:
  assumes "\<And>j. snd f \<le> j \<Longrightarrow> j \<le> fst f \<Longrightarrow> buf_bit b j = buf_bit b' j" "snd f \<le> fst f"
  shows "field_holds b f v = field_holds b' f v"
  using assms by (auto simp: field_holds_def)

lemma buf_bit_zeroed:
  assumes "16 \<le> length b"
  shows "buf_bit (write_slice b 0 (replicate 16 0)) j \<longleftrightarrow> 128 \<le> j \<and> buf_bit b j"
proof (cases "j < 128")
  case True
  then have "j div 8 < 16"
    by (simp add: less_mult_imp_div_less)
  then show ?thesis
    using True by (simp add: buf_bit_def write_slice_def nth_append)
next
  case False
  then have "16 \<le> j div 8"
    using div_le_mono[of 128 j 8] by simp
  then show ?thesis
    using False assms by (simp add: buf_bit_def write_slice_def nth_append)
qed

lemma write_2_readback:
  assumes "32 \<le> length dst"
  shows "\<exists>out. write_2 d dst = Ok out \<and> length out = length dst \<and>
    sge_at 16 out = fst (work_sges d) \<and> sge_at 0 out = sge_default (fst (snd (work_sges d)))"
proof -
  obtain sge0 sge1 sge2 sge3 where d: "work_sges d = (sge0, sge1, sge2, sge3)"
    by (metis prod_cases4)
  let ?f0 = "[(at_byte 16 SendFragSGE_laddr, ds_addr sge0), (at_byte 16 SendFragSGE_len, ucast (ds_len sge0)),
    (at_byte 16 SendFragSGE_lkey, ucast (key_get (ds_key sge0)))]"
  let ?f1 = "\<lambda>s. [(SendFragSGE_laddr, ds_addr s), (SendFragSGE_len, ucast (ds_len s)),
    (SendFragSGE_lkey, ucast (key_get (ds_key s)))]"
  have "layout_ok (length dst) (map fst ?f0)"
    by (rule layout_ok_mono[OF _ assms]) (simp add: at_byte_def disjoint_def)
  then obtain b where b: "set_fields ?f0 dst = Ok b" "length b = length dst"
    "list_all (\<lambda>(f, v). field_holds b f v) ?f0"
    using set_fields_spec[of dst ?f0] by blast
  show ?thesis
  proof (cases sge1)
    case (Some s)
    have "layout_ok (length dst) (map fst (?f0 @ ?f1 s))"
      by (rule layout_ok_mono[OF _ assms]) (simp add: at_byte_def disjoint_def)
    then obtain out where out: "set_fields (?f0 @ ?f1 s) dst = Ok out" "length out = length dst"
      "list_all (\<lambda>(f, v). field_holds out f v) (?f0 @ ?f1 s)"
      using set_fields_spec[of dst "?f0 @ ?f1 s"] by blast
    have "write_2 d dst = Ok out"
      using out(1) by (simp only: write_2_sges d Some set_fields_append prod.case option.case)
    moreover have "sge_at 16 out = sge0"
      using out(3) by (intro sge_at_holds) simp_all
    moreover have "sge_at 0 out = s"
      using out(3) by (intro sge_at_holds) (simp_all add: at_byte_def)
    ultimately show ?thesis
      using out(2) by (auto simp: d Some sge_default_def)
  next
    case None
    let ?out = "write_slice b 0 (replicate 16 0)"
    have len: "16 \<le> length b"
      using b(2) assms by simp
    have "write_2 d dst = Ok ?out"
      using b(1) by (simp only: write_2_sges d None prod.case option.case result_bind_simps)
    moreover have "sge_at 16 ?out = sge0"
      using b(3) field_holds_cong[of _ b ?out] buf_bit_zeroed[OF len]
      by (intro sge_at_holds) (auto simp: at_byte_def)
    moreover have "sge_at 0 ?out = zero_sge"
      using buf_bit_zeroed[OF len]
      by (intro sge_at_holds) (auto simp: at_byte_def zero_sge_def field_holds_def)
    ultimately show ?thesis
      using b(2) len by (auto simp: d None sge_default_def)
  qed
qed



end
