(* ===== verification/Host_Descriptors.thy ===== *)
theory Host_Descriptors
  imports Descriptors
begin

unbundle bit_operations_syntax

text \<open>
  The work descriptors that the card reports to the host, \<^verbatim>\<open>src/device/types.rs\<close>: their
  types, the decoder with its wait for the status byte and the second descriptor of a
  read request, and the builder of work descriptors to the card.
\<close>

subsection \<open>Enumerations\<close>

datatype ToHostWorkRbDescStatus = StNormal | StInvAccFlag | StInvOpcode | StInvMrKey | StInvMrRegion | StUnknown

definition ToHostWorkRbDescStatus_try_from :: "u8 \<Rightarrow> ToHostWorkRbDescStatus option" where
  "ToHostWorkRbDescStatus_try_from v =
     (if v = 1 then Some StNormal else if v = 2 then Some StInvAccFlag else if v = 3 then Some StInvOpcode
      else if v = 4 then Some StInvMrKey else if v = 5 then Some StInvMrRegion
      else if v = 6 then Some StUnknown else None)"

fun ToHostWorkRbDescStatus_discr :: "ToHostWorkRbDescStatus \<Rightarrow> u8" where
  "ToHostWorkRbDescStatus_discr StNormal = 1"
| "ToHostWorkRbDescStatus_discr StInvAccFlag = 2"
| "ToHostWorkRbDescStatus_discr StInvOpcode = 3"
| "ToHostWorkRbDescStatus_discr StInvMrKey = 4"
| "ToHostWorkRbDescStatus_discr StInvMrRegion = 5"
| "ToHostWorkRbDescStatus_discr StUnknown = 6"

definition status_is_ok :: "ToHostWorkRbDescStatus \<Rightarrow> bool" where
  "status_is_ok s \<longleftrightarrow> s = StNormal"

datatype ToHostWorkRbDescTransType = TtRc | TtUc | TtRd | TtUd | TtCnp | TtXrc | TtDtldExtended

definition ToHostWorkRbDescTransType_try_from :: "u8 \<Rightarrow> ToHostWorkRbDescTransType option" where
  "ToHostWorkRbDescTransType_try_from v =
     (if v = 0 then Some TtRc else if v = 1 then Some TtUc else if v = 2 then Some TtRd
      else if v = 3 then Some TtUd else if v = 4 then Some TtCnp else if v = 5 then Some TtXrc
      else if v = 6 then Some TtDtldExtended else None)"

fun ToHostWorkRbDescTransType_discr :: "ToHostWorkRbDescTransType \<Rightarrow> u8" where
  "ToHostWorkRbDescTransType_discr TtRc = 0"
| "ToHostWorkRbDescTransType_discr TtUc = 1"
| "ToHostWorkRbDescTransType_discr TtRd = 2"
| "ToHostWorkRbDescTransType_discr TtUd = 3"
| "ToHostWorkRbDescTransType_discr TtCnp = 4"
| "ToHostWorkRbDescTransType_discr TtXrc = 5"
| "ToHostWorkRbDescTransType_discr TtDtldExtended = 6"

datatype ToHostWorkRbDescWriteType = WtFirst | WtMiddle | WtLast | WtOnly

datatype ToHostWorkRbDescOpcode =
    RdmaWriteFirst | RdmaWriteMiddle | RdmaWriteLast | RdmaWriteLastWithImmediate
  | RdmaWriteOnly | RdmaWriteOnlyWithImmediate
  | RdmaReadResponseFirst | RdmaReadResponseMiddle | RdmaReadResponseLast | RdmaReadResponseOnly
  | RdmaReadRequest | Acknowledge

fun ToHostWorkRbDescOpcode_discr :: "ToHostWorkRbDescOpcode \<Rightarrow> u8" where
  "ToHostWorkRbDescOpcode_discr RdmaWriteFirst = 0x06"
| "ToHostWorkRbDescOpcode_discr RdmaWriteMiddle = 0x07"
| "ToHostWorkRbDescOpcode_discr RdmaWriteLast = 0x08"
| "ToHostWorkRbDescOpcode_discr RdmaWriteLastWithImmediate = 0x09"
| "ToHostWorkRbDescOpcode_discr RdmaWriteOnly = 0x0a"
| "ToHostWorkRbDescOpcode_discr RdmaWriteOnlyWithImmediate = 0x0b"
| "ToHostWorkRbDescOpcode_discr RdmaReadResponseFirst = 0x0d"
| "ToHostWorkRbDescOpcode_discr RdmaReadResponseMiddle = 0x0e"
| "ToHostWorkRbDescOpcode_discr RdmaReadResponseLast = 0x0f"
| "ToHostWorkRbDescOpcode_discr RdmaReadResponseOnly = 0x10"
| "ToHostWorkRbDescOpcode_discr RdmaReadRequest = 0x0c"
| "ToHostWorkRbDescOpcode_discr Acknowledge = 0x11"

definition ToHostWorkRbDescOpcode_try_from :: "u8 \<Rightarrow> ToHostWorkRbDescOpcode option" where
  "ToHostWorkRbDescOpcode_try_from v =
     (if v = 0x06 then Some RdmaWriteFirst else if v = 0x07 then Some RdmaWriteMiddle
      else if v = 0x08 then Some RdmaWriteLast else if v = 0x09 then Some RdmaWriteLastWithImmediate
      else if v = 0x0a then Some RdmaWriteOnly else if v = 0x0b then Some RdmaWriteOnlyWithImmediate
      else if v = 0x0d then Some RdmaReadResponseFirst else if v = 0x0e then Some RdmaReadResponseMiddle
      else if v = 0x0f then Some RdmaReadResponseLast else if v = 0x10 then Some RdmaReadResponseOnly
      else if v = 0x0c then Some RdmaReadRequest else if v = 0x11 then Some Acknowledge else None)"

fun opcode_is_first :: "ToHostWorkRbDescOpcode \<Rightarrow> bool" where
  "opcode_is_first RdmaWriteFirst = True"
| "opcode_is_first RdmaReadResponseFirst = True"
| "opcode_is_first RdmaWriteMiddle = False"
| "opcode_is_first RdmaWriteLast = False"
| "opcode_is_first RdmaWriteLastWithImmediate = False"
| "opcode_is_first RdmaWriteOnly = False"
| "opcode_is_first RdmaWriteOnlyWithImmediate = False"
| "opcode_is_first RdmaReadResponseMiddle = False"
| "opcode_is_first RdmaReadResponseLast = False"
| "opcode_is_first RdmaReadResponseOnly = False"
| "opcode_is_first RdmaReadRequest = False"
| "opcode_is_first Acknowledge = False"

definition opcode_is_resp :: "ToHostWorkRbDescOpcode \<Rightarrow> bool" where
  "opcode_is_resp c \<longleftrightarrow>
     c \<in> {RdmaReadResponseFirst, RdmaReadResponseMiddle, RdmaReadResponseLast, RdmaReadResponseOnly}"

definition opcode_is_read_resp :: "ToHostWorkRbDescOpcode \<Rightarrow> bool" where
  "opcode_is_read_resp c \<longleftrightarrow>
     c \<in> {RdmaReadResponseFirst, RdmaReadResponseMiddle, RdmaReadResponseLast, RdmaReadResponseOnly}"

fun opcode_write_type :: "ToHostWorkRbDescOpcode \<Rightarrow> ToHostWorkRbDescWriteType option" where
  "opcode_write_type RdmaWriteFirst = Some WtFirst"
| "opcode_write_type RdmaReadResponseFirst = Some WtFirst"
| "opcode_write_type RdmaWriteMiddle = Some WtMiddle"
| "opcode_write_type RdmaReadResponseMiddle = Some WtMiddle"
| "opcode_write_type RdmaWriteLast = Some WtLast"
| "opcode_write_type RdmaWriteLastWithImmediate = Some WtLast"
| "opcode_write_type RdmaReadResponseLast = Some WtLast"
| "opcode_write_type RdmaWriteOnlyWithImmediate = Some WtOnly"
| "opcode_write_type RdmaWriteOnly = Some WtOnly"
| "opcode_write_type RdmaReadResponseOnly = Some WtOnly"
| "opcode_write_type RdmaReadRequest = None"
| "opcode_write_type Acknowledge = None"

datatype ToHostWorkRbDescAethCode = AethAck | AethRnr | AethRsvd | AethNak

fun ToHostWorkRbDescAethCode_discr :: "ToHostWorkRbDescAethCode \<Rightarrow> u8" where
  "ToHostWorkRbDescAethCode_discr AethAck = 0"
| "ToHostWorkRbDescAethCode_discr AethRnr = 1"
| "ToHostWorkRbDescAethCode_discr AethRsvd = 2"
| "ToHostWorkRbDescAethCode_discr AethNak = 3"

definition ToHostWorkRbDescAethCode_try_from :: "u8 \<Rightarrow> ToHostWorkRbDescAethCode option" where
  "ToHostWorkRbDescAethCode_try_from v =
     (if v = 0 then Some AethAck else if v = 1 then Some AethRnr
      else if v = 2 then Some AethRsvd else if v = 3 then Some AethNak else None)"

subsection \<open>Descriptors\<close>

record ToHostWorkRbDescCommon =
  hw_status :: ToHostWorkRbDescStatus
  hw_trans :: ToHostWorkRbDescTransType
  hw_dqpn :: Qpn
  hw_msn :: Msn
  hw_expected_psn :: Psn

record ToHostWorkRbDescRead =
  hr_common :: ToHostWorkRbDescCommon
  hr_len :: u32
  hr_laddr :: u64
  hr_lkey :: Key
  hr_raddr :: u64
  hr_rkey :: Key

record ToHostWorkRbDescWriteOrReadResp =
  ho_common :: ToHostWorkRbDescCommon
  ho_is_read_resp :: bool
  ho_write_type :: ToHostWorkRbDescWriteType
  ho_psn :: Psn
  ho_addr :: u64
  ho_len :: u32
  ho_can_auto_ack :: bool

record ToHostWorkRbDescWriteWithImm =
  hi_common :: ToHostWorkRbDescCommon
  hi_write_type :: ToHostWorkRbDescWriteType
  hi_psn :: Psn
  hi_imm :: u32
  hi_addr :: u64
  hi_len :: u32
  hi_key :: Key

record ToHostWorkRbDescAck =
  ha_common :: ToHostWorkRbDescCommon
  ha_msn :: Msn
  ha_psn :: Psn
  ha_retry_psn :: Psn
  ha_code :: ToHostWorkRbDescAethCode
  ha_value :: u8

record ToHostWorkRbDescRaw =
  hx_common :: ToHostWorkRbDescCommon
  hx_addr :: u64
  hx_len :: u32
  hx_key :: Key

datatype ToHostWorkRbDesc =
    HRead ToHostWorkRbDescRead
  | HWriteOrReadResp ToHostWorkRbDescWriteOrReadResp
  | HWriteWithImm ToHostWorkRbDescWriteWithImm
  | HAck ToHostWorkRbDescAck
  | HRaw ToHostWorkRbDescRaw

fun work_status :: "ToHostWorkRbDesc \<Rightarrow> ToHostWorkRbDescStatus" where
  "work_status (HRead d) = hw_status (hr_common d)"
| "work_status (HWriteOrReadResp d) = hw_status (ho_common d)"
| "work_status (HWriteWithImm d) = hw_status (hi_common d)"
| "work_status (HAck d) = hw_status (ha_common d)"
| "work_status (HRaw d) = hw_status (hx_common d)"

record IncompleteToHostWorkRbDesc =
  in_parsed :: ToHostWorkRbDesc
  in_parsed_cnt :: nat

datatype ToHostWorkRbDescError =
    Incomplete IncompleteToHostWorkRbDesc
  | DescDeviceError DeviceError

subsection \<open>Decoders\<close>

text \<open>The fields of the structs that start at byte 4 and byte 12 of the slot.\<close>

definition read_reth :: "u8 list \<Rightarrow> u64 \<times> Key \<times> u32" where
  "read_reth src =
     (let frag_reth = drop 12 src;
          addr = get_field MetaFragRETH_va frag_reth;
          key = Key_new (ucast (get_field MetaFragRETH_rkey frag_reth :: u64));
          len = ucast (get_field MetaFragRETH_dlen frag_reth :: u64)
      in (addr, key, len))"

definition read_imm :: "u8 list \<Rightarrow> (panic, u32) result" where
  "read_imm src = fld MetaFragImmDT_imm (take 4 (drop 28 src))"

definition read_aeth :: "u8 list \<Rightarrow> (DeviceError, Psn \<times> Msn \<times> u8 \<times> ToHostWorkRbDescAethCode) result" where
  "read_aeth src =
     (let frag_aeth = drop 12 src;
          psn = psn_new (get_field MetaFragAETH_psn frag_aeth);
          msg_seq_number = Msn_new (ucast (get_field MetaFragAETH_msn frag_aeth :: u32));
          v = ucast (get_field MetaFragAETH_aeth_value frag_aeth :: u32);
          code = ucast (get_field MetaFragAETH_aeth_code frag_aeth :: u32)
      in result_bind (ok_or (ToHostWorkRbDescAethCode_try_from code)
                        (ParseDesc ''ToHostWorkRbDescAethCode can not be parsed''))
           (\<lambda>code. Ok (psn, msg_seq_number, v, code)))"

text \<open>
  The wait for a status other than zero: the slot is in memory that the card writes, so
  each further read sees a new snapshot of it, with the milliseconds elapsed. The loop
  gives up after one second with the status it has; \<open>None\<close> means that the snapshots end
  before it stops.
\<close>

definition req_status :: "u8 list \<Rightarrow> u8" where
  "req_status src = ucast (get_field MetaBthReth_req_status src :: u64)"

fun status_loop :: "u8 \<Rightarrow> u8 list \<Rightarrow> (u8 list \<times> nat) list \<Rightarrow> (u8 \<times> u8 list) option" where
  "status_loop raw_status src [] = (if raw_status = 0 then None else Some (raw_status, src))"
| "status_loop raw_status src ((src', elapsed) # later) =
     (if raw_status \<noteq> 0 then Some (raw_status, src)
      else
        let raw_status = req_status src'
        in if elapsed > 1000 then Some (raw_status, src') else status_loop raw_status src' later)"

definition work_decode ::
  "Psn \<Rightarrow> u8 \<Rightarrow> u8 list \<Rightarrow> (panic, (ToHostWorkRbDescError, ToHostWorkRbDesc) result) result" where
  "work_decode expected_psn raw_status src =
     (case ToHostWorkRbDescStatus_try_from raw_status of
        None \<Rightarrow> Ok (Err (DescDeviceError (ParseDesc ''ToHostWorkRbDescStatus can not be parsed'')))
      | Some status \<Rightarrow>
     (let msg_seq_number = Msn_new (ucast (get_field MetaBthReth_msn src :: u64));
          can_auto_ack = ((get_field MetaBthReth_can_auto_ack src :: u8) \<noteq> 0);
          bth = take 8 (drop 4 src)
      in case ToHostWorkRbDescTransType_try_from (ucast (get_field MetaFragBTH_trans_type bth :: u32)) of
        None \<Rightarrow> Ok (Err (DescDeviceError (ParseDesc ''ToHostWorkRbDescTransType can not be parsed'')))
      | Some trans_type \<Rightarrow>
     (case ToHostWorkRbDescOpcode_try_from (ucast (get_field MetaFragBTH_opcode bth :: u32)) of
        None \<Rightarrow> Ok (Err (DescDeviceError (ParseDesc ''ToHostWorkRbDescOpcode can not be parsed'')))
      | Some opcode \<Rightarrow>
     (let dqpn = psn_new (get_field MetaFragBTH_qpn bth);
          psn = psn_new (get_field MetaFragBTH_psn bth);
          common = \<lparr> hw_status = status, hw_trans = trans_type, hw_dqpn = dqpn, hw_msn = msg_seq_number,
                     hw_expected_psn = expected_psn \<rparr>;
          is_read_resp = opcode_is_read_resp opcode;
          write_type = (case opcode_write_type opcode of Some t \<Rightarrow> t | None \<Rightarrow> WtOnly);
          (addr, key, len) = read_reth src
      in if opcode \<in> {RdmaWriteLastWithImmediate, RdmaWriteOnlyWithImmediate} then
           (if trans_type = TtDtldExtended then
              Ok (Err (Incomplete \<lparr> in_parsed = HRaw \<lparr> hx_common = common, hx_addr = addr, hx_len = len,
                hx_key = key \<rparr>, in_parsed_cnt = 1 \<rparr>))
            else
              result_bind (read_imm src) (\<lambda>imm.
                Ok (Ok (HWriteWithImm \<lparr> hi_common = common, hi_write_type = write_type, hi_psn = psn,
                  hi_imm = imm, hi_addr = addr, hi_len = len, hi_key = key \<rparr>))))
         else if opcode = RdmaReadRequest then
           Ok (Err (Incomplete \<lparr> in_parsed = HRead \<lparr> hr_common = common, hr_len = len, hr_laddr = addr,
             hr_lkey = key, hr_raddr = 0, hr_rkey = Key 0 \<rparr>, in_parsed_cnt = 1 \<rparr>))
         else if opcode = Acknowledge then
           (case read_aeth src of
              Inl e \<Rightarrow> Ok (Err (DescDeviceError e))
            | Inr (retry_psn, msn_in_ack, v, code) \<Rightarrow>
                Ok (Ok (HAck \<lparr> ha_common = common, ha_msn = msn_in_ack, ha_psn = psn,
                  ha_retry_psn = retry_psn, ha_code = code, ha_value = v \<rparr>)))
         else
           Ok (Ok (HWriteOrReadResp \<lparr> ho_common = common, ho_is_read_resp = is_read_resp,
             ho_write_type = write_type, ho_psn = psn, ho_addr = addr, ho_len = len,
             ho_can_auto_ack = can_auto_ack \<rparr>))))))"

text \<open>
  \<^verbatim>\<open>ToHostWorkRbDesc::read\<close>: returns the result and the slot, whose status byte has been
  cleared; the slice of the first 32 bytes panics when the slot is shorter.
\<close>

definition work_read ::
  "u8 list \<Rightarrow> (u8 list \<times> nat) list \<Rightarrow>
   (panic, (ToHostWorkRbDescError, ToHostWorkRbDesc) result \<times> u8 list) result option" where
  "work_read src later =
     (if length src < 32 then Some (Err Panic)
      else
        let expected_psn = psn_new (ucast (get_field MetaBthReth_expected_psn src :: u64))
        in case status_loop (req_status src) src later of
             None \<Rightarrow> None
           | Some (raw_status, src) \<Rightarrow>
               Some (result_bind (set_fields [(MetaBthReth_req_status, 0)] src) (\<lambda>src.
                 result_bind (work_decode expected_psn raw_status src) (\<lambda>r. Ok (r, src)))))"

definition read_second_reth :: "u8 list \<Rightarrow> (panic, u64 \<times> Key) result" where
  "read_second_reth src =
     result_bind (fld MetaFragSecondaryRETH_secondary_va src) (\<lambda>addr.
     result_bind (fld MetaFragSecondaryRETH_secondary_rkey src) (\<lambda>key :: u64.
     Ok (addr, Key_new (ucast key))))"

definition incomplete_read ::
  "IncompleteToHostWorkRbDesc \<Rightarrow> u8 list \<Rightarrow> (panic, (ToHostWorkRbDescError, ToHostWorkRbDesc) result) result" where
  "incomplete_read self src =
     (case in_parsed self of
        HRead desc \<Rightarrow>
          result_bind (read_second_reth src) (\<lambda>(raddr, rkey).
            Ok (Ok (HRead (desc\<lparr> hr_raddr := raddr, hr_rkey := rkey \<rparr>))))
      | HRaw desc \<Rightarrow> Ok (Ok (HRaw desc))
      | HWriteOrReadResp _ \<Rightarrow> Err Panic
      | HWriteWithImm _ \<Rightarrow> Err Panic
      | HAck _ \<Rightarrow> Err Panic)"

subsection \<open>Builder\<close>

record ToCardWorkRbDescBuilder =
  bu_type :: ToCardWorkRbDescOpcode
  bu_common :: "ToCardWorkRbDescCommon option"
  bu_seg_list :: "Sge list"
  bu_imm :: "u32 option"

definition Builder_new :: "ToCardWorkRbDescOpcode \<Rightarrow> ToCardWorkRbDescBuilder" where
  "Builder_new t = \<lparr> bu_type = t, bu_common = None, bu_seg_list = [], bu_imm = None \<rparr>"

definition with_common :: "ToCardWorkRbDescCommon \<Rightarrow> ToCardWorkRbDescBuilder \<Rightarrow> ToCardWorkRbDescBuilder" where
  "with_common common self = self\<lparr> bu_common := Some common \<rparr>"

definition with_sge :: "Sge \<Rightarrow> ToCardWorkRbDescBuilder \<Rightarrow> ToCardWorkRbDescBuilder" where
  "with_sge seg self = self\<lparr> bu_seg_list := bu_seg_list self @ [seg] \<rparr>"

definition with_imm :: "Imm \<Rightarrow> ToCardWorkRbDescBuilder \<Rightarrow> ToCardWorkRbDescBuilder" where
  "with_imm imm self = self\<lparr> bu_imm := Some (imm_get imm) \<rparr>"

text \<open>\<^verbatim>\<open>Vec::pop\<close>.\<close>

definition pop :: "'a list \<Rightarrow> 'a option \<times> 'a list" where
  "pop xs = (if xs = [] then (None, []) else (Some (last xs), butlast xs))"

definition build_write ::
  "ToCardWorkRbDescCommon \<Rightarrow> Sge list \<Rightarrow> (Error, ToCardWorkRbDescWrite) result" where
  "build_write common seg_list =
     (let (sge0, seg_list) = pop seg_list
      in case sge0 of
           None \<Rightarrow> Err (BuildDescFailed ''sge'')
         | Some sge0 \<Rightarrow>
             (let (sge1, seg_list) = pop seg_list;
                  (sge2, seg_list) = pop seg_list;
                  (sge3, seg_list) = pop seg_list
              in Ok \<lparr> cw_common = common, cw_is_last = True, cw_is_first = True,
                      cw_sge0 = DescSge_from sge0, cw_sge1 = map_option DescSge_from sge1,
                      cw_sge2 = map_option DescSge_from sge2, cw_sge3 = map_option DescSge_from sge3 \<rparr>))"

definition build :: "ToCardWorkRbDescBuilder \<Rightarrow> (Error, ToCardWorkRbDesc) result" where
  "build self =
     (case bu_common self of
        None \<Rightarrow> Err (BuildDescFailed ''common'')
      | Some common \<Rightarrow>
          (case bu_type self of
             CoWrite \<Rightarrow> result_bind (build_write common (bu_seg_list self)) (\<lambda>d. Ok (CWrite d))
           | CoWriteWithImm \<Rightarrow>
               result_bind (build_write common (bu_seg_list self)) (\<lambda>d.
               result_bind (ok_or (bu_imm self) (BuildDescFailed ''imm'')) (\<lambda>imm.
                 Ok (CWriteWithImm (ToCardWorkRbDescWrite.extend d (ToCardWorkRbDescWriteWithImm.fields imm)))))
           | CoRead \<Rightarrow>
               (case fst (pop (bu_seg_list self)) of
                  None \<Rightarrow> Err (BuildDescFailed ''sge'')
                | Some sge0 \<Rightarrow> Ok (CRead \<lparr> cr_common = common, cr_sge = DescSge_from sge0 \<rparr>))
           | CoReadResp \<Rightarrow> result_bind (build_write common (bu_seg_list self)) (\<lambda>d. Ok (CReadResp d))))"

subsection \<open>When decoding panics or fails\<close>

lemma read_imm_panics: "read_imm src = Err Panic"
  by (simp add: read_imm_def fld_def bit_range_def)

lemma aeth_code_always_parses:
  "\<exists>code. ToHostWorkRbDescAethCode_try_from (ucast (get_field MetaFragAETH_aeth_code bytes :: u32)) = Some code"
proof -
  let ?w = "get_field MetaFragAETH_aeth_code bytes :: u32"
  have "?w = take_bit 2 ?w"
    by (rule bit_word_eqI) (auto simp: bit_get_field bit_take_bit_iff)
  then have "unat ?w = unat ?w mod 4"
    using unat_and_mask[of ?w 2] by (simp add: take_bit_eq_mask)
  moreover have "unat ?w mod 4 < 4"
    by simp
  ultimately have "unat ?w < 4"
    by linarith
  then have "unat ?w = 0 \<or> unat ?w = 1 \<or> unat ?w = 2 \<or> unat ?w = 3"
    by linarith
  then have "?w = 0 \<or> ?w = 1 \<or> ?w = 2 \<or> ?w = 3"
    by (simp add: word_unat_eq_iff)
  then show ?thesis
    by (auto simp: ToHostWorkRbDescAethCode_try_from_def)
qed

lemma read_aeth_Ok: "\<exists>r. read_aeth src = Ok r"
  using aeth_code_always_parses[of "drop 12 src"] by (auto simp: read_aeth_def Let_def)

text \<open>
  C17. The decoder panics exactly on a well formed report of a write with immediate on a
  transport other than the raw packet one: the field for the immediate is declared one
  bit too wide (\<open>32, 0\<close>), so its getter reads byte 4 of a slice of four bytes. It reports a
  parse error exactly when the status, the transport type or the opcode is unknown; in
  particular the AETH code of an acknowledgement always parses.
\<close>

theorem work_decode_panic_iff:
  "(work_decode expected_psn raw_status src = Err Panic) =
     (\<exists>st t c. ToHostWorkRbDescStatus_try_from raw_status = Some st \<and>
        ToHostWorkRbDescTransType_try_from
          (ucast (get_field MetaFragBTH_trans_type (take 8 (drop 4 src)) :: u32)) = Some t \<and> t \<noteq> TtDtldExtended \<and>
        ToHostWorkRbDescOpcode_try_from (ucast (get_field MetaFragBTH_opcode (take 8 (drop 4 src)) :: u32)) = Some c \<and>
        c \<in> {RdmaWriteLastWithImmediate, RdmaWriteOnlyWithImmediate}) \<and>
   ((\<exists>e. work_decode expected_psn raw_status src = Ok (Err (DescDeviceError e))) =
     (ToHostWorkRbDescStatus_try_from raw_status = None \<or>
      ToHostWorkRbDescTransType_try_from
        (ucast (get_field MetaFragBTH_trans_type (take 8 (drop 4 src)) :: u32)) = None \<or>
      ToHostWorkRbDescOpcode_try_from (ucast (get_field MetaFragBTH_opcode (take 8 (drop 4 src)) :: u32)) = None))"
  using read_aeth_Ok[of src]
  by (auto simp: work_decode_def Let_def read_imm_panics split: option.splits prod.splits if_splits)

subsection \<open>Reading a report\<close>

lemma buf_bit_drop:
  assumes "8 * off + i < 8 * length b"
  shows "buf_bit (drop off b) i = buf_bit b (8 * off + i)"
proof -
  have "(8 * off + i) div 8 = off + i div 8" "off + i div 8 < length b"
    using assms by (auto simp: less_mult_imp_div_less)
  then show ?thesis
    by (simp add: buf_bit_def)
qed

lemma buf_bit_take: "i < 8 * n \<Longrightarrow> buf_bit (take n b) i = buf_bit b i"
  by (simp add: buf_bit_def less_mult_imp_div_less mult.commute)

lemma get_field_drop:
  assumes "snd f \<le> fst f" "fst f - snd f < LENGTH('a::len)" "8 * off + fst f < 8 * length b"
  shows "(get_field f (drop off b) :: 'a word) = get_field (at_byte off f) b"
  using assms by (intro bit_word_eqI) (auto simp: bit_get_field at_byte_def buf_bit_drop add.assoc)

lemma get_field_take:
  assumes "snd f \<le> fst f" "fst f - snd f < LENGTH('a::len)" "fst f < 8 * n"
  shows "(get_field f (take n b) :: 'a word) = get_field f b"
  using assms by (intro bit_word_eqI) (auto simp: bit_get_field buf_bit_take)

text \<open>What the card puts into a slot to report a packet of a write or of a read response.\<close>

definition report_fields ::
  "ToHostWorkRbDescOpcode \<Rightarrow> ToHostWorkRbDescWriteOrReadResp \<Rightarrow> (field \<times> u64) list" where
  "report_fields opcode d =
     [(MetaBthReth_expected_psn, ucast (psn_get (hw_expected_psn (ho_common d)))),
      (MetaBthReth_req_status, ucast (ToHostWorkRbDescStatus_discr (hw_status (ho_common d)))),
      (at_byte 4 MetaFragBTH_trans_type, ucast (ToHostWorkRbDescTransType_discr (hw_trans (ho_common d)))),
      (at_byte 4 MetaFragBTH_opcode, ucast (ToHostWorkRbDescOpcode_discr opcode)),
      (at_byte 4 MetaFragBTH_qpn, ucast (psn_get (hw_dqpn (ho_common d)))),
      (at_byte 4 MetaFragBTH_psn, ucast (psn_get (ho_psn d))),
      (at_byte 12 MetaFragRETH_va, ho_addr d),
      (at_byte 12 MetaFragRETH_dlen, ucast (ho_len d)),
      (MetaBthReth_msn, ucast (msn_get (hw_msn (ho_common d)))),
      (MetaBthReth_can_auto_ack, of_bool (ho_can_auto_ack d))]"

definition report_wf :: "ToHostWorkRbDescOpcode \<Rightarrow> ToHostWorkRbDescWriteOrReadResp \<Rightarrow> bool" where
  "report_wf opcode d \<longleftrightarrow>
     opcode \<notin> {RdmaWriteLastWithImmediate, RdmaWriteOnlyWithImmediate} \<and>
     opcode_write_type opcode = Some (ho_write_type d) \<and>
     opcode_is_read_resp opcode = ho_is_read_resp d \<and>
     psn_ok (hw_expected_psn (ho_common d)) \<and> psn_ok (hw_dqpn (ho_common d)) \<and> psn_ok (ho_psn d)"

lemma opcode_field:
  "ToHostWorkRbDescOpcode_try_from (ucast (take_bit 5 (ucast (ucast (ToHostWorkRbDescOpcode_discr c) :: u64)) :: u32)) = Some c"
  by (cases c) (simp_all add: ToHostWorkRbDescOpcode_try_from_def)

lemma trans_field:
  "ToHostWorkRbDescTransType_try_from (ucast (take_bit 3 (ucast (ucast (ToHostWorkRbDescTransType_discr t) :: u64)) :: u32)) = Some t"
  by (cases t) (simp_all add: ToHostWorkRbDescTransType_try_from_def)

lemma status_field:
  "ToHostWorkRbDescStatus_try_from (ucast (take_bit 8 (ucast (ucast (ToHostWorkRbDescStatus_discr s) :: u64)) :: u64)) = Some s"
  "ucast (take_bit 8 (ucast (ucast (ToHostWorkRbDescStatus_discr s) :: u64)) :: u64) \<noteq> (0 :: u8)"
  by (cases s; simp add: ToHostWorkRbDescStatus_try_from_def)+

lemma psn_field:
  assumes "psn_ok p"
  shows "psn_new (take_bit 24 (ucast (ucast (psn_get p) :: u64))) = p"
    "psn_new (ucast (take_bit 24 (ucast (ucast (psn_get p) :: u64)) :: u64)) = p"
proof -
  have "psn_get (psn_new (take_bit 24 (ucast (ucast (psn_get p) :: u64)))) = psn_get p"
    "psn_get (psn_new (ucast (take_bit 24 (ucast (ucast (psn_get p) :: u64)) :: u64))) = psn_get p"
    by (rule bit_word_eqI,
        use psn_ok_bit[OF assms] in \<open>auto simp: psn_new_def MASK_mask bit_simps\<close>)+
  then show "psn_new (take_bit 24 (ucast (ucast (psn_get p) :: u64))) = p"
    "psn_new (ucast (take_bit 24 (ucast (ucast (psn_get p) :: u64)) :: u64)) = p"
    by (simp_all add: ThreeBytesStruct.expand)
qed

lemma msn_field: "ucast (take_bit 24 (ucast (m :: u16) :: u64)) = m"
  by (rule bit_word_eqI) (auto simp: bit_simps)

lemma len_field: "ucast (take_bit 32 (ucast (n :: u32) :: u64)) = n"
  by (rule bit_word_eqI) (auto simp: bit_simps)

lemma flag_field: "(take_bit 1 (ucast (of_bool b :: u64)) :: u8) \<noteq> 0 \<longleftrightarrow> b"
  by (cases b) simp_all

lemma clear_status:
  assumes "32 \<le> length src"
  obtains src' where "set_fields [(MetaBthReth_req_status, 0)] src = Ok src'" "length src' = length src"
    "\<And>f v. fst f < 24 \<or> 31 < snd f \<Longrightarrow> snd f \<le> fst f \<Longrightarrow> field_holds src f v \<Longrightarrow> field_holds src' f v"
    "req_status src' = 0"
proof -
  have "layout_ok (length src) (map fst [(MetaBthReth_req_status, 0 :: u64)])"
    using assms by simp
  from set_fields_spec[OF this] obtain src' where s': "set_fields [(MetaBthReth_req_status, 0)] src = Ok src'"
    "length src' = length src" "field_holds src' MetaBthReth_req_status 0"
    and frame: "\<And>j. \<not> (24 \<le> j \<and> j \<le> 31) \<Longrightarrow> buf_bit src' j = buf_bit src j"
    by auto
  have "field_holds src' f v" if "fst f < 24 \<or> 31 < snd f" "snd f \<le> fst f" "field_holds src f v" for f v
    using that field_holds_cong[of f src' src v] frame by auto
  moreover have "req_status src' = 0"
    using get_field_holds[OF s'(3), where 'a = 64] by (simp add: req_status_def)
  ultimately show thesis
    using that s'(1,2) by blast
qed

definition report_body ::
  "ToHostWorkRbDescOpcode \<Rightarrow> ToHostWorkRbDescWriteOrReadResp \<Rightarrow> (field \<times> u64) list" where
  "report_body opcode d = drop 2 (report_fields opcode d)"

lemma report_getters:
  assumes len: "length src = 32" and holds: "list_all (\<lambda>(f, v). field_holds src f v) (report_body opcode d)"
  defines "bth \<equiv> take 8 (drop 4 src)" and "c \<equiv> ho_common d"
  shows "get_field MetaFragBTH_trans_type bth = (take_bit 3 (ucast (ucast (ToHostWorkRbDescTransType_discr (hw_trans c)) :: u64)) :: u32)"
    "get_field MetaFragBTH_opcode bth = (take_bit 5 (ucast (ucast (ToHostWorkRbDescOpcode_discr opcode) :: u64)) :: u32)"
    "get_field MetaFragBTH_qpn bth = (take_bit 24 (ucast (ucast (psn_get (hw_dqpn c)) :: u64)) :: u32)"
    "get_field MetaFragBTH_psn bth = (take_bit 24 (ucast (ucast (psn_get (ho_psn d)) :: u64)) :: u32)"
    "get_field MetaFragRETH_va (drop 12 src) = ho_addr d"
    "get_field MetaFragRETH_dlen (drop 12 src) = (take_bit 32 (ucast (ucast (ho_len d) :: u64)) :: u64)"
    "get_field MetaBthReth_msn src = (take_bit 24 (ucast (ucast (msn_get (hw_msn c)) :: u64)) :: u64)"
    "get_field MetaBthReth_can_auto_ack src = (take_bit 1 (ucast (of_bool (ho_can_auto_ack d) :: u64)) :: u8)"
proof -
  have h: "field_holds src (at_byte 4 MetaFragBTH_trans_type) (ucast (ToHostWorkRbDescTransType_discr (hw_trans c)))"
    "field_holds src (at_byte 4 MetaFragBTH_opcode) (ucast (ToHostWorkRbDescOpcode_discr opcode))"
    "field_holds src (at_byte 4 MetaFragBTH_qpn) (ucast (psn_get (hw_dqpn c)))"
    "field_holds src (at_byte 4 MetaFragBTH_psn) (ucast (psn_get (ho_psn d)))"
    "field_holds src (at_byte 12 MetaFragRETH_va) (ho_addr d)"
    "field_holds src (at_byte 12 MetaFragRETH_dlen) (ucast (ho_len d))"
    "field_holds src MetaBthReth_msn (ucast (msn_get (hw_msn c)))"
    "field_holds src MetaBthReth_can_auto_ack (of_bool (ho_can_auto_ack d))"
    using holds by (simp_all add: report_body_def report_fields_def c_def)
  have bth: "get_field f bth = (get_field (at_byte 4 f) src :: u32)"
    if "snd f \<le> fst f" "fst f - snd f < 32" "fst f < 64" for f
    using that len by (simp add: bth_def get_field_take get_field_drop)
  have reth: "get_field f (drop 12 src) = (get_field (at_byte 12 f) src :: u64)"
    if "snd f \<le> fst f" "fst f - snd f < 64" "fst f < 160" for f
    using that len by (simp add: get_field_drop)
  show "get_field MetaFragBTH_trans_type bth = (take_bit 3 (ucast (ucast (ToHostWorkRbDescTransType_discr (hw_trans c)) :: u64)) :: u32)"
    "get_field MetaFragBTH_opcode bth = (take_bit 5 (ucast (ucast (ToHostWorkRbDescOpcode_discr opcode) :: u64)) :: u32)"
    "get_field MetaFragBTH_qpn bth = (take_bit 24 (ucast (ucast (psn_get (hw_dqpn c)) :: u64)) :: u32)"
    "get_field MetaFragBTH_psn bth = (take_bit 24 (ucast (ucast (psn_get (ho_psn d)) :: u64)) :: u32)"
    "get_field MetaFragRETH_va (drop 12 src) = ho_addr d"
    "get_field MetaFragRETH_dlen (drop 12 src) = (take_bit 32 (ucast (ucast (ho_len d) :: u64)) :: u64)"
    "get_field MetaBthReth_msn src = (take_bit 24 (ucast (ucast (msn_get (hw_msn c)) :: u64)) :: u64)"
    "get_field MetaBthReth_can_auto_ack src = (take_bit 1 (ucast (of_bool (ho_can_auto_ack d) :: u64)) :: u8)"
    using get_field_holds[OF h(1), where 'a = 32] get_field_holds[OF h(2), where 'a = 32]
      get_field_holds[OF h(3), where 'a = 32] get_field_holds[OF h(4), where 'a = 32]
      get_field_holds[OF h(5), where 'a = 64] get_field_holds[OF h(6), where 'a = 64]
      get_field_holds[OF h(7), where 'a = 64] get_field_holds[OF h(8), where 'a = 8]
    by (simp_all add: bth reth at_byte_def u64_survives)
qed

lemma work_decode_report:
  assumes len: "length src = 32" and wf: "report_wf opcode d"
    and holds: "list_all (\<lambda>(f, v). field_holds src f v) (report_body opcode d)"
    and st: "ToHostWorkRbDescStatus_try_from raw = Some (hw_status (ho_common d))"
  shows "work_decode (hw_expected_psn (ho_common d)) raw src = Ok (Ok (HWriteOrReadResp d))"
proof -
  note g = report_getters[OF len holds]
  have "opcode_write_type opcode = Some (ho_write_type d)" "opcode_is_read_resp opcode = ho_is_read_resp d"
    "opcode \<noteq> RdmaReadRequest" "opcode \<noteq> Acknowledge"
    "opcode \<notin> {RdmaWriteLastWithImmediate, RdmaWriteOnlyWithImmediate}"
    using wf by (auto simp: report_wf_def)
  moreover have "psn_ok (hw_dqpn (ho_common d))" "psn_ok (ho_psn d)"
    using wf by (simp_all add: report_wf_def)
  ultimately show ?thesis
    using psn_field(1) flag_field[of "ho_can_auto_ack d"]
    by (simp add: work_decode_def st g read_reth_def trans_field opcode_field msn_field len_field Msn_new_def)
qed

lemma work_read_of_report:
  assumes len: "length src = 32" and wf: "report_wf opcode d"
    and holds: "list_all (\<lambda>(f, v). field_holds src f v) (report_fields opcode d)"
  shows "\<exists>src'. work_read src later = Some (Ok (Ok (HWriteOrReadResp d), src')) \<and> req_status src' = 0"
proof -
  obtain src' where s': "set_fields [(MetaBthReth_req_status, 0)] src = Ok src'" "length src' = length src"
    and keep: "\<And>f v. fst f < 24 \<or> 31 < snd f \<Longrightarrow> snd f \<le> fst f \<Longrightarrow> field_holds src f v \<Longrightarrow> field_holds src' f v"
    and cleared: "req_status src' = 0"
    using clear_status[of src] len by auto
  let ?c = "ho_common d"
  let ?st = "ucast (take_bit 8 (ucast (ucast (ToHostWorkRbDescStatus_discr (hw_status ?c)) :: u64)) :: u64) :: u8"
  have h: "field_holds src MetaBthReth_expected_psn (ucast (psn_get (hw_expected_psn ?c)))"
    "field_holds src MetaBthReth_req_status (ucast (ToHostWorkRbDescStatus_discr (hw_status ?c)))"
    using holds by (simp_all add: report_fields_def)
  have body: "list_all (\<lambda>(f, v). field_holds src' f v) (report_body opcode d)"
    using holds by (auto intro!: keep simp: report_body_def report_fields_def at_byte_def)
  have "req_status src = ?st"
    using get_field_holds[OF h(2), where 'a = 64] by (simp add: req_status_def)
  then have loop: "status_loop (req_status src) src later = Some (?st, src)"
    using status_field(2)[of "hw_status ?c"] by (cases later) auto
  have "psn_new (ucast (get_field MetaBthReth_expected_psn src :: u64)) = hw_expected_psn ?c"
    using get_field_holds[OF h(1), where 'a = 64] psn_field(2) wf by (simp add: report_wf_def)
  then show ?thesis
    using work_decode_report[OF _ wf body status_field(1)] len s' cleared
    by (simp add: work_read_def loop del: set_fields.simps)
qed



text \<open>
  The builder gives a descriptor exactly when it has what its type needs: the common
  part, at least one scatter gather element, and immediate data for a write with
  immediate; the error names the first thing that is missing. The elements are taken
  from the end of the list, so the first element of the descriptor is the one added last.
\<close>

lemma build_complete_iff:
  "(\<exists>d. build b = Ok d) =
     (bu_common b \<noteq> None \<and> bu_seg_list b \<noteq> [] \<and> \<not> (bu_type b = CoWriteWithImm \<and> bu_imm b = None)) \<and>
   (bu_common b = None \<and> build b = Err (BuildDescFailed ''common'') \<or>
    bu_common b \<noteq> None \<and> bu_seg_list b = [] \<and> build b = Err (BuildDescFailed ''sge'') \<or>
    bu_common b \<noteq> None \<and> bu_seg_list b \<noteq> [] \<and> bu_type b = CoWriteWithImm \<and> bu_imm b = None \<and>
      build b = Err (BuildDescFailed ''imm'') \<or>
    (\<exists>d. build b = Ok d \<and> work_common d = the (bu_common b) \<and>
       fst (work_sges d) = DescSge_from (last (bu_seg_list b))))"
  by (cases "bu_common b"; cases "bu_type b"; cases "bu_seg_list b = []"; cases "bu_imm b")
    (auto simp: build_def build_write_def pop_def Let_def ToCardWorkRbDescWrite.defs
      ToCardWorkRbDescWriteWithImm.defs split: prod.splits)

end
