(* ===== verification/Scheduler.thy ===== *)
theory Scheduler
  imports Descriptors
begin

text \<open>
  The descriptor scheduler of \<^verbatim>\<open>src/device/scheduler\<close>: \<^verbatim>\<open>split_descriptor\<close> cuts a
  descriptor at the multiples of the scheduler size, a strategy orders the pieces,
  and the scheduler thread takes batches of at most eight to the card. The contract
  of a strategy is the locale \<open>scheduler_strategy\<close>; the round robin strategy is an
  instance of it. \<^verbatim>\<open>SealedDesc\<close> only hides the descriptor it holds and is the
  descriptor here.
\<close>

subsection \<open>Scatter gather list\<close>

definition MAX_SGL_LENGTH :: nat where
  "MAX_SGL_LENGTH = 1"

definition POP_BATCH_SIZE :: nat where
  "POP_BATCH_SIZE = 8"

definition DescSge_default :: DescSge where
  "DescSge_default = \<lparr> ds_addr = 0, ds_len = 0, ds_key = Key 0 \<rparr>"

record SGList =
  sg_data :: "DescSge list"
  sg_cur_level :: u32
  sg_len :: u32

definition new_from_sge :: "DescSge \<Rightarrow> SGList" where
  "new_from_sge sge =
     \<lparr> sg_data = (replicate MAX_SGL_LENGTH DescSge_default)[0 := sge], sg_cur_level = 0, sg_len = 1 \<rparr>"

definition SGList_default :: SGList where
  "SGList_default =
     \<lparr> sg_data = replicate MAX_SGL_LENGTH DescSge_default, sg_cur_level = 0, sg_len = 0 \<rparr>"

text \<open>
  The loop of \<^verbatim>\<open>cut_from_sgl\<close>. Indexing past the arrays and running out of levels
  (\<^verbatim>\<open>unreachable!\<close>) panic. The result is the new list and the rest of the origin.
\<close>

function cut_loop ::
  "nat \<Rightarrow> nat \<Rightarrow> u32 \<Rightarrow> SGList \<Rightarrow> SGList \<Rightarrow> (panic, SGList \<times> SGList) result" where
  "cut_loop current_level new_sgl_level len origin_sgl new_sgl =
     (if \<not> current_level < unat (sg_len origin_sgl) then Err Panic
      else if length (sg_data origin_sgl) \<le> current_level then Err Panic
      else if length (sg_data new_sgl) \<le> new_sgl_level then Err Panic
      else let cur = sg_data origin_sgl ! current_level in
        if ds_len cur \<ge> len then
          (let new_sge = \<lparr> ds_addr = ds_addr cur, ds_len = len, ds_key = ds_key cur \<rparr>;
               rest = cur\<lparr> ds_addr := ds_addr cur + ucast len, ds_len := ds_len cur - len \<rparr>;
               level = (if ds_len rest = 0 then current_level + 1 else current_level)
           in Ok (new_sgl\<lparr> sg_data := (sg_data new_sgl)[new_sgl_level := new_sge],
                           sg_len := of_nat new_sgl_level + 1 \<rparr>,
                  origin_sgl\<lparr> sg_data := (sg_data origin_sgl)[current_level := rest],
                              sg_cur_level := of_nat level \<rparr>))
        else
          cut_loop (current_level + 1) (new_sgl_level + 1) (len - ds_len cur)
            (origin_sgl\<lparr> sg_data := (sg_data origin_sgl)[current_level := cur\<lparr> ds_len := 0 \<rparr>] \<rparr>)
            (new_sgl\<lparr> sg_data := (sg_data new_sgl)[new_sgl_level := cur] \<rparr>))"
  by pat_completeness auto
termination
  by (relation "measure (\<lambda>(level, _, _, origin, _). unat (sg_len origin) - level)") auto

declare cut_loop.simps [simp del]

definition cut_from_sgl :: "u32 \<Rightarrow> SGList \<Rightarrow> (panic, SGList \<times> SGList) result" where
  "cut_from_sgl len origin_sgl =
     cut_loop (unat (sg_cur_level origin_sgl)) 0 len origin_sgl SGList_default"

subsection \<open>Splitting a descriptor\<close>

fun get_dqpn :: "ToCardWorkRbDesc \<Rightarrow> Qpn" where
  "get_dqpn (CRead desc) = wc_dqpn (cr_common desc)"
| "get_dqpn (CWrite desc) = wc_dqpn (cw_common desc)"
| "get_dqpn (CReadResp desc) = wc_dqpn (cw_common desc)"
| "get_dqpn (CWriteWithImm desc) = wc_dqpn (cw_common desc)"

fun get_psn :: "ToCardWorkRbDesc \<Rightarrow> Psn" where
  "get_psn (CRead desc) = wc_psn (cr_common desc)"
| "get_psn (CWrite desc) = wc_psn (cw_common desc)"
| "get_psn (CReadResp desc) = wc_psn (cw_common desc)"
| "get_psn (CWriteWithImm desc) = wc_psn (cw_common desc)"

fun desc_msn :: "ToCardWorkRbDesc \<Rightarrow> Msn option" where
  "desc_msn (CWrite desc) = Some (wc_msn (cw_common desc))"
| "desc_msn _ = None"

text \<open>\<^verbatim>\<open>wrapping_rem\<close> by zero panics.\<close>

definition get_first_schedule_segment_length :: "u64 \<Rightarrow> u32 \<Rightarrow> (panic, u32) result" where
  "get_first_schedule_segment_length va scheduler_size =
     (if scheduler_size = 0 then Err Panic
      else let offset = va mod ucast scheduler_size in Ok (scheduler_size - ucast offset))"

fun get_to_card_desc_common :: "ToCardWorkRbDesc \<Rightarrow> ToCardWorkRbDescCommon" where
  "get_to_card_desc_common (CRead req) = cr_common req"
| "get_to_card_desc_common (CWrite req) = cw_common req"
| "get_to_card_desc_common (CReadResp req) = cw_common req"
| "get_to_card_desc_common (CWriteWithImm req) = cw_common req"

fun get_total_len :: "ToCardWorkRbDesc \<Rightarrow> u32" where
  "get_total_len (CRead req) = wc_total_len (cr_common req)"
| "get_total_len (CWrite req) = wc_total_len (cw_common req)"
| "get_total_len (CReadResp req) = wc_total_len (cw_common req)"
| "get_total_len (CWriteWithImm req) = wc_total_len (cw_common req)"

definition recalculate_psn :: "u64 \<Rightarrow> Pmtu \<Rightarrow> u32 \<Rightarrow> Psn \<Rightarrow> Psn" where
  "recalculate_psn raddr pmtu total_len base_psn =
     (let pmtu = pmtu_u32 pmtu;
          first_packet_length = get_first_packet_max_length raddr pmtu;
          first_packet_length = min total_len first_packet_length;
          last_packet_psn = wrapping_add base_psn (div_ceil_u32 (total_len - first_packet_length) pmtu)
      in wrapping_add last_packet_psn 1)"

text \<open>The three matches of the splitting code on the variants that carry data.\<close>

definition cut_write ::
  "DescSge \<Rightarrow> u32 \<Rightarrow> u64 \<Rightarrow> Psn \<Rightarrow> 'a ToCardWorkRbDescWrite_scheme \<Rightarrow> 'a ToCardWorkRbDescWrite_scheme" where
  "cut_write new_sge this_length current_va base_psn req =
     req\<lparr> cw_sge0 := new_sge,
          cw_common := (cw_common req)\<lparr> wc_total_len := this_length, wc_raddr := current_va, wc_psn := base_psn \<rparr>,
          cw_is_first := False, cw_is_last := False \<rparr>"

fun cut_desc :: "DescSge \<Rightarrow> u32 \<Rightarrow> u64 \<Rightarrow> Psn \<Rightarrow> ToCardWorkRbDesc \<Rightarrow> (panic, ToCardWorkRbDesc) result" where
  "cut_desc sge len va psn (CRead _) = Err Panic"
| "cut_desc sge len va psn (CWrite req) = Ok (CWrite (cut_write sge len va psn req))"
| "cut_desc sge len va psn (CReadResp req) = Ok (CReadResp (cut_write sge len va psn req))"
| "cut_desc sge len va psn (CWriteWithImm req) = Ok (CWriteWithImm (cut_write sge len va psn req))"

definition first_write :: "u32 \<Rightarrow> 'a ToCardWorkRbDescWrite_scheme \<Rightarrow> 'a ToCardWorkRbDescWrite_scheme" where
  "first_write total_len req =
     req\<lparr> cw_is_first := True, cw_common := (cw_common req)\<lparr> wc_total_len := total_len \<rparr> \<rparr>"

fun mark_first :: "u32 \<Rightarrow> ToCardWorkRbDesc \<Rightarrow> (panic, ToCardWorkRbDesc) result" where
  "mark_first total_len (CRead _) = Err Panic"
| "mark_first total_len (CWrite req) = Ok (CWrite (first_write total_len req))"
| "mark_first total_len (CReadResp req) = Ok (CReadResp (first_write total_len req))"
| "mark_first total_len (CWriteWithImm req) = Ok (CWriteWithImm (first_write total_len req))"

fun mark_last :: "ToCardWorkRbDesc \<Rightarrow> (panic, ToCardWorkRbDesc) result" where
  "mark_last (CRead _) = Err Panic"
| "mark_last (CWrite req) = Ok (CWrite (req\<lparr> cw_is_last := True \<rparr>))"
| "mark_last (CReadResp req) = Ok (CReadResp (req\<lparr> cw_is_last := True \<rparr>))"
| "mark_last (CWriteWithImm req) = Ok (CWriteWithImm (req\<lparr> cw_is_last := True \<rparr>))"

text \<open>
  The splitting loop, which does not end when the pieces have no length; \<open>None\<close> is not
  returning.
\<close>

partial_function (option) split_loop ::
  "ToCardWorkRbDesc \<Rightarrow> u32 \<Rightarrow> Pmtu \<Rightarrow> SGList \<Rightarrow> u32 \<Rightarrow> u32 \<Rightarrow> u64 \<Rightarrow> Psn \<Rightarrow> ToCardWorkRbDesc list \<Rightarrow>
   (panic, ToCardWorkRbDesc list) result option" where
  "split_loop desc scheduler_size pmtu sg_list this_length remain_data_length current_va base_psn descs =
     (if \<not> remain_data_length > 0 then Some (Ok descs)
      else case cut_from_sgl this_length sg_list of
        Inl p \<Rightarrow> Some (Err p)
      | Inr segs \<Rightarrow>
          (case cut_desc (sg_data (fst segs) ! 0) this_length current_va base_psn desc of
             Inl p \<Rightarrow> Some (Err p)
           | Inr new_desc \<Rightarrow>
               (let remain = remain_data_length - this_length
                in split_loop desc scheduler_size pmtu (snd segs)
                     (if remain > scheduler_size then scheduler_size else remain) remain
                     (current_va + ucast this_length)
                     (recalculate_psn current_va pmtu this_length base_psn) (descs @ [new_desc]))))"

fun split_sge :: "ToCardWorkRbDesc \<Rightarrow> (panic, DescSge) result" where
  "split_sge (CRead _) = Err Panic"
| "split_sge (CWrite req) = Ok (cw_sge0 req)"
| "split_sge (CReadResp req) = Ok (cw_sge0 req)"
| "split_sge (CWriteWithImm req) = Ok (cw_sge0 req)"

text \<open>\<^verbatim>\<open>front_mut\<close> and \<^verbatim>\<open>back_mut\<close> updates of the finished list.\<close>

definition mark_ends :: "u32 \<Rightarrow> ToCardWorkRbDesc list \<Rightarrow> (panic, ToCardWorkRbDesc list) result" where
  "mark_ends total_len descs =
     (if descs = [] then Ok []
      else result_bind (mark_first total_len (hd descs)) (\<lambda>req.
        let descs = req # tl descs
        in result_bind (mark_last (last descs)) (\<lambda>req. Ok (butlast descs @ [req]))))"

definition split_descriptor :: "ToCardWorkRbDesc \<Rightarrow> u32 \<Rightarrow> (panic, ToCardWorkRbDesc list) result option" where
  "split_descriptor desc scheduler_size =
     (let is_read = (case desc of CRead _ \<Rightarrow> True | _ \<Rightarrow> False);
          total_len = get_total_len desc
      in if is_read \<or> total_len < scheduler_size then Some (Ok [desc])
         else case result_bind (split_sge desc) (\<lambda>sge.
                result_bind (get_first_schedule_segment_length (wc_raddr (get_to_card_desc_common desc)) scheduler_size)
                  (\<lambda>this_length. Ok (sge, this_length))) of
           Inl p \<Rightarrow> Some (Err p)
         | Inr (sge, this_length) \<Rightarrow>
             (let common = get_to_card_desc_common desc
              in map_option (\<lambda>r. result_bind r (mark_ends total_len))
                   (split_loop desc scheduler_size (wc_pmtu common) (new_from_sge sge) this_length total_len
                     (wc_raddr common) (wc_psn common) [])))"

subsection \<open>What splitting computes\<close>

text \<open>
  The reference: the lengths between the multiples of the scheduler size, and for each
  of them a copy of the descriptor with its window of the two buffers.
\<close>

abbreviation is_read :: "ToCardWorkRbDesc \<Rightarrow> bool" where
  "is_read d \<equiv> (case d of CRead _ \<Rightarrow> True | _ \<Rightarrow> False)"

abbreviation chunk_lens :: "nat \<Rightarrow> nat \<Rightarrow> nat \<Rightarrow> nat list" where
  "chunk_lens pm va len \<equiv> map snd (pmtu_chunks pm va len)"

definition piece_write ::
  "bool \<Rightarrow> bool \<Rightarrow> u32 \<Rightarrow> DescSge \<Rightarrow> u64 \<Rightarrow> Psn \<Rightarrow> 'a ToCardWorkRbDescWrite_scheme \<Rightarrow>
   'a ToCardWorkRbDescWrite_scheme" where
  "piece_write is_first is_last total_len sge raddr psn req =
     req\<lparr> cw_common := (cw_common req)\<lparr> wc_total_len := total_len, wc_raddr := raddr, wc_psn := psn \<rparr>,
          cw_is_last := is_last, cw_is_first := is_first, cw_sge0 := sge \<rparr>"

fun piece :: "bool \<Rightarrow> bool \<Rightarrow> u32 \<Rightarrow> DescSge \<Rightarrow> u64 \<Rightarrow> Psn \<Rightarrow> ToCardWorkRbDesc \<Rightarrow> ToCardWorkRbDesc" where
  "piece f l n sge va psn (CRead r) = CRead r"
| "piece f l n sge va psn (CWrite req) = CWrite (piece_write f l n sge va psn req)"
| "piece f l n sge va psn (CReadResp req) = CReadResp (piece_write f l n sge va psn req)"
| "piece f l n sge va psn (CWriteWithImm req) = CWriteWithImm (piece_write f l n sge va psn req)"

fun raw_pieces :: "ToCardWorkRbDesc \<Rightarrow> Pmtu \<Rightarrow> Key \<Rightarrow> u64 \<Rightarrow> u64 \<Rightarrow> Psn \<Rightarrow> nat list \<Rightarrow> ToCardWorkRbDesc list" where
  "raw_pieces d pm key la va psn [] = []"
| "raw_pieces d pm key la va psn (n # ns) =
     piece False False (of_nat n) \<lparr> ds_addr = la, ds_len = of_nat n, ds_key = key \<rparr> va psn d
     # raw_pieces d pm key (la + of_nat n) (va + of_nat n)
         (wrapping_add psn (calculate_packet_cnt pm va (of_nat n))) ns"

lemma wrapping_add_add: "wrapping_add (wrapping_add p a) b = wrapping_add p (a + b)"
proof (rule psn_eqI_unat)
  have w: "unat (a + b) mod 2 ^ 24 = (unat a + unat b) mod 2 ^ 24"
    by (simp add: unat_word_ariths mod_mod_cancel)
  have "((unat (psn_get p) + unat a) mod 2 ^ 24 + unat b) mod 2 ^ 24
      = (unat (psn_get p) + (unat a + unat b) mod 2 ^ 24) mod (2 ^ 24 :: nat)"
    by (simp add: mod_simps add.assoc)
  also have "\<dots> = (unat (psn_get p) + unat (a + b)) mod 2 ^ 24"
    by (simp only: w [symmetric] mod_add_right_eq)
  finally show "unat (psn_get (wrapping_add (wrapping_add p a) b)) = unat (psn_get (wrapping_add p (a + b)))"
    by (simp only: unat_wrapping_add)
qed

lemma recalculate_psn_eq:
  "recalculate_psn va pm n p = wrapping_add p (calculate_packet_cnt pm va n)"
  by (simp add: recalculate_psn_def calculate_packet_cnt_def Let_def wrapping_add_add add.commute)

lemma cut_desc_piece:
  "\<not> is_read d \<Longrightarrow> cut_desc sge n va psn d = Ok (piece False False n sge va psn d)"
  by (cases d) (simp_all add: cut_write_def piece_write_def)

lemma mark_first_piece:
  "\<not> is_read d \<Longrightarrow> mark_first t (piece f l n sge va psn d) = Ok (piece True l t sge va psn d)"
  by (cases d) (simp_all add: first_write_def piece_write_def)

lemma mark_last_piece:
  "\<not> is_read d \<Longrightarrow> mark_last (piece f l n sge va psn d) = Ok (piece f True n sge va psn d)"
  by (cases d) (simp_all add: piece_write_def)

abbreviation one_level :: "DescSge \<Rightarrow> SGList" where
  "one_level sge \<equiv> \<lparr> sg_data = [sge], sg_cur_level = of_bool (ds_len sge = 0), sg_len = 1 \<rparr>"

lemma new_from_sge_one_level: "ds_len sge \<noteq> 0 \<Longrightarrow> new_from_sge sge = one_level sge"
  by (simp add: new_from_sge_def MAX_SGL_LENGTH_def)

lemma cut_from_sgl_one_level:
  assumes "0 < len" "len \<le> ds_len sge"
  shows "\<exists>l. cut_from_sgl len (one_level sge) =
    Ok (\<lparr> sg_data = [sge\<lparr> ds_len := len \<rparr>], sg_cur_level = 0, sg_len = l \<rparr>,
        one_level (sge\<lparr> ds_addr := ds_addr sge + ucast len, ds_len := ds_len sge - len \<rparr>))"
proof -
  have "ds_len sge \<noteq> 0"
    using assms by (auto simp: word_le_nat_alt word_less_nat_alt)
  with assms(2) show ?thesis
    by (cases sge) (simp add: cut_from_sgl_def cut_loop.simps SGList_default_def MAX_SGL_LENGTH_def Let_def)
qed

lemma chunk_lens_step:
  "0 < pm \<Longrightarrow> 0 < len \<Longrightarrow>
   chunk_lens pm va len = min len (pm - va mod pm) #
     chunk_lens pm (va + min len (pm - va mod pm)) (len - min len (pm - va mod pm))"
  by (subst pmtu_chunks.simps) (simp add: Let_def)

lemma add_to_multiple: "0 < (pm :: nat) \<Longrightarrow> (va + (pm - va mod pm)) mod pm = 0"
  by (metis add_diff_inverse_nat mod_add_left_eq mod_less_divisor mod_self not_less_iff_gr_or_eq)

lemma next_chunk:
  assumes "0 < (S :: nat)" "n = min len (S - va mod S)"
  shows "min (len - n) (S - (va + n) mod S) = min (len - n) S"
  using assms add_to_multiple[of S va] by (cases "len \<le> S - va mod S") (auto simp: min_def)

lemma split_loop_pieces:
  assumes "\<not> is_read d"
  shows "0 < unat S \<Longrightarrow> unat remain = len \<Longrightarrow> unat this = min len (unat S - va mod unat S) \<Longrightarrow>
    remain \<le> ds_len sge \<Longrightarrow>
    split_loop d S pm (one_level sge) this remain cva psn descs =
      Some (Ok (descs @ raw_pieces d pm (ds_key sge) (ds_addr sge) cva psn (chunk_lens (unat S) va len)))"
proof (induction "unat S" va len arbitrary: remain this sge cva psn descs rule: pmtu_chunks.induct)
  case (1 va len)
  show ?case
  proof (cases "len = 0")
    case True
    then have "remain = 0"
      using 1 by (simp add: unat_eq_zero)
    then show ?thesis
      using True by (simp add: split_loop.simps)
  next
    case False
    define n where "n = min len (unat S - va mod unat S)"
    define sge' where "sge' = sge\<lparr> ds_addr := ds_addr sge + ucast this, ds_len := ds_len sge - this \<rparr>"
    have n: "unat this = n" "0 < n" "n \<le> len"
      using 1(2,4) False by (simp_all add: n_def)
    have th: "0 < this" "this \<le> remain" "this \<le> ds_len sge" "0 < remain" "this = of_nat n" "ucast this = (of_nat n :: u64)"
      using n 1(3,5) False by (auto simp: word_less_nat_alt word_le_nat_alt unat_eq_zero word_unat_eq_iff simp flip: n(1))
    obtain l where cut: "cut_from_sgl this (one_level sge) =
        Ok (\<lparr> sg_data = [sge\<lparr> ds_len := this \<rparr>], sg_cur_level = 0, sg_len = l \<rparr>, one_level sge')"
      using cut_from_sgl_one_level[OF th(1,3)] unfolding sge'_def by blast
    let ?remain = "remain - this"
    let ?next = "if ?remain > S then S else ?remain"
    have remain: "unat ?remain = len - n"
      using th(2) n 1(3) by (simp add: unat_sub_le)
    have "unat ?next = min (len - n) (unat S)"
      using remain by (simp add: word_less_nat_alt min_def)
    then have next_this: "unat ?next = min (len - n) (unat S - (va + n) mod unat S)"
      using next_chunk[OF 1(2) n_def] by simp
    have "?remain \<le> ds_len sge'"
      using 1(5) th n remain by (simp add: sge'_def word_le_nat_alt unat_sub_le)
    note IH = 1(1)[of n ?remain ?next sge', OF _ n_def 1(2) remain next_this this]
    have sge: "sge\<lparr> ds_len := this \<rparr> = \<lparr> ds_addr = ds_addr sge, ds_len = of_nat n, ds_key = ds_key sge \<rparr>"
      using th(5) by (cases sge) simp
    have lens: "chunk_lens (unat S) va len = n # chunk_lens (unat S) (va + n) (len - n)"
      using chunk_lens_step[OF 1(2), of len va] False by (simp add: n_def)
    have "split_loop d S pm (one_level sge) this remain cva psn descs =
        split_loop d S pm (one_level sge') ?next ?remain (cva + ucast this) (recalculate_psn cva pm this psn)
          (descs @ [piece False False this (sge\<lparr> ds_len := this \<rparr>) cva psn d])"
      by (subst split_loop.simps)
        (simp only: th(4) cut cut_desc_piece[OF assms] Let_def not_True_eq_False if_False sum.case
          fst_conv snd_conv SGList.select_convs nth_Cons_0)
    also have "\<dots> = Some (Ok ((descs @ [piece False False this (sge\<lparr> ds_len := this \<rparr>) cva psn d]) @
        raw_pieces d pm (ds_key sge') (ds_addr sge') (cva + ucast this) (recalculate_psn cva pm this psn)
          (chunk_lens (unat S) (va + n) (len - n))))"
      using 1(2) False by (intro IH) simp
    also have "\<dots> = Some (Ok (descs @ raw_pieces d pm (ds_key sge) (ds_addr sge) cva psn (chunk_lens (unat S) va len)))"
      using sge by (simp add: lens recalculate_psn_eq sge'_def th(6)) (simp add: th(5))
    finally show ?thesis .
  qed
qed

text \<open>The packets of the first \<open>i\<close> pieces.\<close>

fun packets_before :: "Pmtu \<Rightarrow> u64 \<Rightarrow> nat list \<Rightarrow> nat \<Rightarrow> u32" where
  "packets_before pm va (n # ns) (Suc i) =
     calculate_packet_cnt pm va (of_nat n) + packets_before pm (va + of_nat n) ns i"
| "packets_before pm va ns i = 0"

definition split_lens :: "ToCardWorkRbDesc \<Rightarrow> u32 \<Rightarrow> nat list" where
  "split_lens d S = chunk_lens (unat S) (unat (wc_raddr (work_common d))) (unat (wc_total_len (work_common d)))"

definition split_spec :: "ToCardWorkRbDesc \<Rightarrow> u32 \<Rightarrow> ToCardWorkRbDesc list" where
  "split_spec d S =
     (let c = work_common d; sge = fst (work_sges d); total = wc_total_len c;
          ns = split_lens d S;
          off = (\<lambda>i. of_nat (sum_list (take i ns)))
      in map (\<lambda>i. piece (i = 0) (Suc i = length ns) (if i = 0 then total else of_nat (ns ! i))
                    (sge\<lparr> ds_addr := ds_addr sge + off i, ds_len := of_nat (ns ! i) \<rparr>)
                    (wc_raddr c + off i)
                    (wrapping_add (wc_psn c) (packets_before (wc_pmtu c) (wc_raddr c) ns i)) d)
           [0..<length ns])"

lemma wrapping_add_0 [simp]: "psn_ok p \<Longrightarrow> wrapping_add p 0 = p"
  by (rule psn_eqI_unat) (simp add: unat_wrapping_add psn_ok_iff)

lemma length_raw_pieces [simp]: "length (raw_pieces d pm key la va psn ns) = length ns"
  by (induction ns arbitrary: la va psn) simp_all

lemma raw_pieces_nth:
  "i < length ns \<Longrightarrow> psn_ok psn \<Longrightarrow>
   raw_pieces d pm key la va psn ns ! i =
     piece False False (of_nat (ns ! i))
       \<lparr> ds_addr = la + of_nat (sum_list (take i ns)), ds_len = of_nat (ns ! i), ds_key = key \<rparr>
       (va + of_nat (sum_list (take i ns))) (wrapping_add psn (packets_before pm va ns i)) d"
proof (induction ns arbitrary: i la va psn)
  case (Cons n ns)
  then show ?case
    by (cases i) (simp_all add: wrapping_add_add add.assoc)
qed simp

lemma mark_ends_pieces:
  assumes "\<not> is_read d" "0 < k"
  shows "mark_ends t (map (\<lambda>i. piece False False (n i) (s i) (v i) (p i) d) [0..<k]) =
    Ok (map (\<lambda>i. piece (i = 0) (Suc i = k) (if i = 0 then t else n i) (s i) (v i) (p i) d) [0..<k])"
proof -
  obtain m where k: "k = Suc m"
    using assms(2) by (cases k) auto
  show ?thesis
  proof (cases "m = 0")
    case True
    then show ?thesis
      using assms(1) k by (simp add: mark_ends_def mark_first_piece mark_last_piece)
  next
    case False
    then have "[0..<k] = 0 # [1..<m] @ [m]"
      using k by (simp add: upt_conv_Cons)
    then show ?thesis
      using assms(1) k False by (simp add: mark_ends_def mark_first_piece mark_last_piece Let_def butlast_append)
  qed
qed

lemma get_first_schedule_segment_length_eq:
  assumes "0 < S"
  shows "\<exists>n. get_first_schedule_segment_length va S = Ok n \<and> unat n = unat S - unat va mod unat S"
proof -
  have m: "unat va mod unat S < unat S"
    using assms by (simp add: word_less_nat_alt)
  then have "unat va mod unat S < 2 ^ 32"
    using unat_less_two_power[of S] by (auto intro: less_trans)
  moreover have "unat (va mod ucast S) = unat va mod unat S"
    by (simp add: unat_mod_word unat_ucast_up)
  ultimately have "unat (ucast (va mod ucast S) :: u32) = unat va mod unat S"
    by (simp add: unsigned_ucast_eq take_bit_eq_mod)
  with m assms show ?thesis
    by (simp add: get_first_schedule_segment_length_def Let_def unat_sub_le word_le_nat_alt word_gt_0)
qed

lemma work_fields:
  "get_to_card_desc_common d = work_common d" "get_total_len d = wc_total_len (work_common d)"
  "\<not> is_read d \<Longrightarrow> split_sge d = Ok (fst (work_sges d))"
  by (cases d; simp)+

lemma work_piece:
  assumes "\<not> is_read d"
  shows "fst (work_sges (piece f l n sge va psn d)) = sge"
    and "work_common (piece f l n sge va psn d) =
      (work_common d)\<lparr> wc_total_len := n, wc_raddr := va, wc_psn := psn \<rparr>"
  using assms by (cases d; simp add: piece_write_def)+

lemma unat_chunk:
  assumes "0 < pm" "i < length (pmtu_chunks pm va (unat (len :: u32)))"
  shows "unat (of_nat (snd (pmtu_chunks pm va (unat len) ! i)) :: u32) = snd (pmtu_chunks pm va (unat len) ! i)"
proof -
  have "chunk_lens pm va (unat len) ! i \<le> unat len"
    using elem_le_sum_list[of i "chunk_lens pm va (unat len)"] assms by (simp add: sum_pmtu_chunks)
  then show ?thesis
    using unat_less_two_power[of len] assms(2) by (simp add: unat_of_nat)
qed

text \<open>The descriptors that the splitting loop accepts without a panic.\<close>

definition splittable :: "ToCardWorkRbDesc \<Rightarrow> u32 \<Rightarrow> bool" where
  "splittable d S \<longleftrightarrow> \<not> is_read d \<and> 0 < S \<and> S \<le> wc_total_len (work_common d) \<and>
     wc_total_len (work_common d) \<le> ds_len (fst (work_sges d)) \<and> psn_ok (wc_psn (work_common d))"

definition split_raw :: "ToCardWorkRbDesc \<Rightarrow> u32 \<Rightarrow> ToCardWorkRbDesc list" where
  "split_raw d S = raw_pieces d (wc_pmtu (work_common d)) (ds_key (fst (work_sges d))) (ds_addr (fst (work_sges d)))
     (wc_raddr (work_common d)) (wc_psn (work_common d)) (split_lens d S)"

lemma splittable_size:
  assumes "splittable d S"
  shows "0 < unat S" "unat S \<le> unat (wc_total_len (work_common d))" "split_lens d S \<noteq> []"
proof -
  show S: "0 < unat S" "unat S \<le> unat (wc_total_len (work_common d))"
    using assms by (simp_all add: splittable_def word_less_nat_alt word_le_nat_alt)
  then show "split_lens d S \<noteq> []"
    using chunk_lens_step[of "unat S" "unat (wc_total_len (work_common d))"] by (simp add: split_lens_def)
qed

lemma split_descriptor_raw:
  assumes "splittable d S"
  shows "split_descriptor d S = Some (mark_ends (wc_total_len (work_common d)) (split_raw d S))"
proof -
  define c where "c = work_common d"
  define sge where "sge = fst (work_sges d)"
  note a = assms[unfolded splittable_def, folded c_def sge_def]
  obtain n where n: "get_first_schedule_segment_length (wc_raddr c) S = Ok n"
      "unat n = unat S - unat (wc_raddr c) mod unat S"
    using get_first_schedule_segment_length_eq a by blast
  note S = splittable_size[OF assms, folded c_def]
  have "split_loop d S (wc_pmtu c) (one_level sge) n (wc_total_len c) (wc_raddr c) (wc_psn c) [] = Some (Ok (split_raw d S))"
    using split_loop_pieces[of d S "wc_total_len c" "unat (wc_total_len c)" n "unat (wc_raddr c)" sge] a n(2) S
    by (simp add: split_raw_def split_lens_def flip: c_def sge_def)
  moreover have "ds_len sge \<noteq> 0"
    using S a by (auto simp: word_le_nat_alt)
  ultimately show ?thesis
    using a n(1)
    by (simp add: split_descriptor_def work_fields Let_def new_from_sge_one_level leD flip: c_def sge_def)
qed

lemma split_raw_map:
  assumes "splittable d S"
  shows "split_raw d S = map (\<lambda>i. piece False False (of_nat (split_lens d S ! i))
       ((fst (work_sges d))\<lparr> ds_addr := ds_addr (fst (work_sges d)) + of_nat (sum_list (take i (split_lens d S))),
          ds_len := of_nat (split_lens d S ! i) \<rparr>)
       (wc_raddr (work_common d) + of_nat (sum_list (take i (split_lens d S))))
       (wrapping_add (wc_psn (work_common d))
          (packets_before (wc_pmtu (work_common d)) (wc_raddr (work_common d)) (split_lens d S) i)) d)
     [0..<length (split_lens d S)]"
  using assms
  by (intro nth_equalityI; cases "fst (work_sges d)") (simp_all add: split_raw_def raw_pieces_nth splittable_def)

lemma split_descriptor_spec:
  assumes "splittable d S"
  shows "split_descriptor d S = Some (Ok (split_spec d S))"
  using assms splittable_size(3)[OF assms]
  by (simp add: split_descriptor_raw split_raw_map splittable_def mark_ends_pieces
      split_spec_def Let_def)

lemma split_spec_lens:
  assumes "splittable d S"
  shows "map (\<lambda>p. unat (ds_len (fst (work_sges p)))) (split_spec d S) = split_lens d S"
  using assms splittable_size(1)[OF assms]
  by (intro nth_equalityI)
    (simp_all add: split_spec_def Let_def work_piece splittable_def unat_chunk split_lens_def)

text \<open>
  C19. A descriptor at least as long as the scheduler size is cut at the multiples of the
  scheduler size: the loop ends without a panic, and the pieces are copies of the
  descriptor, one for each stretch of the remote buffer between two multiples, in
  order, each with its stretch of both buffers, the first with the first flag and the total
  length of the message, the last with the last flag, and each numbered after the
  packets of the pieces before it.
\<close>

theorem split_descriptor_pieces:
  assumes "splittable d S"
  shows "split_descriptor d S = Some (Ok (split_spec d S)) \<and>
    sum_list (map (\<lambda>p. unat (ds_len (fst (work_sges p)))) (split_spec d S)) = unat (wc_total_len (work_common d))"
  using splittable_size(1)[OF assms]
  by (simp add: split_descriptor_spec split_spec_lens assms) (simp add: split_lens_def sum_pmtu_chunks)

theorem split_descriptor_pieces_witness:
  "let d = CWrite \<lparr> cw_common = ToCardWorkRbDescCommon_default\<lparr> wc_total_len := 10, wc_raddr := 3 \<rparr>,
             cw_is_last = True, cw_is_first = True, cw_sge0 = \<lparr> ds_addr = 100, ds_len = 10, ds_key = Key 5 \<rparr>,
             cw_sge1 = None, cw_sge2 = None, cw_sge3 = None \<rparr>
   in \<exists>ds. split_descriptor d 4 = Some (Ok ds) \<and>
        map (\<lambda>p. ds_len (fst (work_sges p))) ds = [1, 4, 4, 1] \<and>
        map (\<lambda>p. wc_raddr (work_common p)) ds = [3, 4, 8, 12] \<and>
        map (\<lambda>p. wc_total_len (work_common p)) ds = [10, 4, 4, 1]"
proof -
  let ?d = "CWrite \<lparr> cw_common = ToCardWorkRbDescCommon_default\<lparr> wc_total_len := 10, wc_raddr := 3 \<rparr>,
             cw_is_last = True, cw_is_first = True, cw_sge0 = \<lparr> ds_addr = 100, ds_len = 10, ds_key = Key 5 \<rparr>,
             cw_sge1 = None, cw_sge2 = None, cw_sge3 = None \<rparr>"
  have "split_descriptor ?d 4 = Some (Ok (split_spec ?d 4))"
    using split_descriptor_pieces[of ?d 4]
    by (simp add: splittable_def ToCardWorkRbDescCommon_default_def psn_ok_def)
  moreover have "pmtu_chunks 4 3 10 = [(3, 1), (4, 4), (8, 4), (12, 1)]"
    by (simp add: pmtu_chunks.simps)
  then have "map (\<lambda>p. ds_len (fst (work_sges p))) (split_spec ?d 4) = [1, 4, 4, 1]"
      "map (\<lambda>p. wc_raddr (work_common p)) (split_spec ?d 4) = [3, 4, 8, 12]"
      "map (\<lambda>p. wc_total_len (work_common p)) (split_spec ?d 4) = [10, 4, 4, 1]"
    by (simp_all add: split_spec_def split_lens_def Let_def ToCardWorkRbDescCommon_default_def piece_write_def)
  ultimately show ?thesis
    by simp
qed

subsection \<open>Splitting on the wire\<close>

text \<open>
  The packets of a descriptor: its buffers are cut at the multiples of the path MTU, and the
  packets are numbered from the descriptor's sequence number. A packet is its
  number, its remote and local address and its length.
\<close>

fun emit :: "Psn \<Rightarrow> u64 \<Rightarrow> u64 \<Rightarrow> nat list \<Rightarrow> (Psn \<times> u64 \<times> u64 \<times> nat) list" where
  "emit psn ra la [] = []"
| "emit psn ra la (n # ns) = (psn, ra, la, n) # emit (wrapping_add psn 1) (ra + of_nat n) (la + of_nat n) ns"

definition desc_packets :: "ToCardWorkRbDesc \<Rightarrow> (Psn \<times> u64 \<times> u64 \<times> nat) list" where
  "desc_packets d =
     (let c = work_common d; sge = fst (work_sges d)
      in emit (wc_psn c) (wc_raddr c) (ds_addr sge)
           (chunk_lens (unat (pmtu_u32 (wc_pmtu c))) (unat (wc_raddr c)) (unat (ds_len sge))))"

lemma emit_append:
  "psn_ok psn \<Longrightarrow> emit psn ra la (xs @ ys) =
     emit psn ra la xs @ emit (wrapping_add psn (of_nat (length xs))) (ra + of_nat (sum_list xs))
       (la + of_nat (sum_list xs)) ys"
  by (induction xs arbitrary: psn ra la) (simp_all add: wrapping_add_add add.assoc)

lemma chunk_lens_mod:
  "va mod pm = va' mod pm \<Longrightarrow> chunk_lens pm va len = chunk_lens pm va' len"
proof (induction pm va len arbitrary: va' rule: pmtu_chunks.induct)
  case (1 pm va len)
  have "(va + k) mod pm = (va' + k) mod pm" for k
    using 1(2) by (metis mod_add_left_eq)
  with 1 show ?case
    by (subst (1 2) pmtu_chunks.simps) (simp add: Let_def)
qed

lemma chunk_lens_append:
  assumes "0 < pm" "k \<le> len" "k = len \<or> (va + k) mod pm = 0"
  shows "chunk_lens pm va len = chunk_lens pm va k @ chunk_lens pm (va + k) (len - k)"
  using assms
proof (induction pm va len arbitrary: k rule: pmtu_chunks.induct)
  case (1 pm va len)
  show ?case
  proof (cases "k = 0 \<or> k = len")
    case False
    define n where "n = min len (pm - va mod pm)"
    have k: "0 < k" "k < len" "(va + k) mod pm = 0"
      using False 1 by auto
    have "n \<le> k"
    proof (rule ccontr)
      assume "\<not> n \<le> k"
      then have "va mod pm + k < pm"
        by (auto simp: n_def)
      then have "(va + k) mod pm = va mod pm + k"
        by (metis mod_add_left_eq mod_less)
      with k show False
        by simp
    qed
    have "min k (pm - va mod pm) = n"
      using \<open>n \<le> k\<close> k by (auto simp: n_def)
    moreover have "chunk_lens pm (va + n) (len - n) =
        chunk_lens pm (va + n) (k - n) @ chunk_lens pm (va + n + (k - n)) (len - n - (k - n))"
      using k \<open>n \<le> k\<close> 1(2) by (intro 1(1)[OF _ n_def]) simp_all
    ultimately show ?thesis
      using k 1(2) \<open>n \<le> k\<close> by (simp add: chunk_lens_step[OF 1(2)] flip: n_def)
  qed auto
qed

lemma desc_packets_piece:
  "\<not> is_read d \<Longrightarrow> desc_packets (piece f l t sge va psn d) =
     emit psn va (ds_addr sge) (chunk_lens (unat (pmtu_u32 (wc_pmtu (work_common d)))) (unat va) (unat (ds_len sge)))"
  by (simp add: desc_packets_def work_piece Let_def)

lemma calculate_packet_cnt_lens:
  assumes "0 < unat n"
  shows "calculate_packet_cnt m va n = of_nat (length (chunk_lens (unat (pmtu_u32 m)) (unat va) (unat n)))"
proof -
  have "0 < unat (pmtu_u32 m)"
    using pmtu_u32_cases[of m] by auto
  then have "length (chunk_lens (unat (pmtu_u32 m)) (unat va) (unat n)) = unat (calculate_packet_cnt m va n)"
    using assms by (simp add: unat_calculate_packet_cnt pmtu_chunks_length)
  then show ?thesis
    by (simp only: of_nat_unat ucast_id)
qed

lemma emit_raw_pieces:
  assumes "\<not> is_read d" "m = wc_pmtu (work_common d)" "unat (pmtu_u32 m) dvd S"
  shows "0 < S \<Longrightarrow> psn_ok psn \<Longrightarrow> len < 2 ^ 32 \<Longrightarrow> unat cva mod unat (pmtu_u32 m) = va mod unat (pmtu_u32 m) \<Longrightarrow>
    concat (map desc_packets (raw_pieces d m key la cva psn (chunk_lens S va len))) =
      emit psn cva la (chunk_lens (unat (pmtu_u32 m)) va len)"
  using assms(3)
proof (induction S va len arbitrary: cva la psn rule: pmtu_chunks.induct)
  case (1 S va len)
  let ?pm = "unat (pmtu_u32 m)"
  have pm: "0 < ?pm" "?pm dvd 2 ^ 64"
    by (cases m; simp)+
  show ?case
  proof (cases "len = 0")
    case False
    define n where "n = min len (S - va mod S)"
    have n: "0 < n" "n \<le> len" "n < 2 ^ 32" "unat (of_nat n :: u32) = n"
      using 1(2,4) False by (auto simp: n_def unat_of_nat min_def)
    have "n = len \<or> (va + n) mod ?pm = 0"
    proof (cases "n = len")
      case False
      then have "(va + n) mod S = 0"
        using add_to_multiple[OF 1(2), of va] by (auto simp: n_def min_def split: if_splits)
      then show ?thesis
        using 1(6) by auto
    qed simp
    then have lens: "chunk_lens ?pm va len = chunk_lens ?pm va n @ chunk_lens ?pm (va + n) (len - n)"
      by (rule chunk_lens_append[OF pm(1) n(2)])
    have same: "chunk_lens ?pm (unat cva) n = chunk_lens ?pm va n"
      by (rule chunk_lens_mod) (rule 1(5))
    have "unat (cva + of_nat n) mod ?pm = (unat cva + n) mod ?pm"
      using n(3) by (simp add: unat_word_ariths unat_of_nat mod_mod_cancel[OF pm(2)[simplified]])
    also have "\<dots> = (va + n) mod ?pm"
      using 1(5) by (metis mod_add_left_eq)
    finally have mod: "unat (cva + of_nat n) mod ?pm = (va + n) mod ?pm" .
    have cnt: "calculate_packet_cnt m cva (of_nat n) = of_nat (length (chunk_lens ?pm va n))"
      using calculate_packet_cnt_lens[of "of_nat n" m cva] n same by simp
    have IH: "concat (map desc_packets (raw_pieces d m key (la + of_nat n) (cva + of_nat n)
          (wrapping_add psn (calculate_packet_cnt m cva (of_nat n))) (chunk_lens S (va + n) (len - n)))) =
        emit (wrapping_add psn (calculate_packet_cnt m cva (of_nat n))) (cva + of_nat n) (la + of_nat n)
          (chunk_lens ?pm (va + n) (len - n))"
      using False 1(2,4,6) mod by (intro 1(1)[OF _ n_def]) simp_all
    have "chunk_lens S va len = n # chunk_lens S (va + n) (len - n)"
      using chunk_lens_step[OF 1(2), of len va] False by (simp add: n_def)
    then have "concat (map desc_packets (raw_pieces d m key la cva psn (chunk_lens S va len))) =
        emit psn cva la (chunk_lens ?pm va n) @
        emit (wrapping_add psn (calculate_packet_cnt m cva (of_nat n))) (cva + of_nat n) (la + of_nat n)
          (chunk_lens ?pm (va + n) (len - n))"
      by (simp only: raw_pieces.simps list.map concat.simps desc_packets_piece[OF assms(1)]
          DescSge.select_convs assms(2)[symmetric] n(4) same IH)
    also have "\<dots> = emit psn cva la (chunk_lens ?pm va len)"
      using pm(1) 1(3) by (simp only: lens emit_append cnt sum_pmtu_chunks)
    finally show ?thesis .
  qed simp
qed

lemma desc_packets_split_spec:
  assumes "splittable d S"
  shows "map desc_packets (split_spec d S) = map desc_packets (split_raw d S)"
  using assms by (simp add: split_raw_map split_spec_def splittable_def desc_packets_piece Let_def)

lemma split_spec_packets:
  assumes "splittable d S" "unat (pmtu_u32 (wc_pmtu (work_common d))) dvd unat S"
    and "ds_len (fst (work_sges d)) = wc_total_len (work_common d)"
  shows "concat (map desc_packets (split_spec d S)) = desc_packets d"
  using emit_raw_pieces[OF _ refl assms(2), of "wc_psn (work_common d)"] assms(1,3) splittable_size(1)[OF assms(1)]
    unat_less_two_power[of "wc_total_len (work_common d)"]
  by (simp add: desc_packets_split_spec split_raw_def split_lens_def splittable_def desc_packets_def Let_def)

text \<open>
  C20. Splitting does not show on the wire: when the path MTU divides the scheduler size,
  the pieces of a descriptor make, one after the other, exactly the packets of the
  descriptor itself, with the same sequence numbers, addresses and lengths.
\<close>

theorem split_descriptor_packets:
  assumes "splittable d S" "unat (pmtu_u32 (wc_pmtu (work_common d))) dvd unat S"
    and "ds_len (fst (work_sges d)) = wc_total_len (work_common d)"
  shows "\<exists>ds. split_descriptor d S = Some (Ok ds) \<and> concat (map desc_packets ds) = desc_packets d"
  using split_descriptor_spec[OF assms(1)] split_spec_packets[OF assms] by blast

theorem split_descriptor_packets_witness:
  "let d = CWriteWithImm \<lparr> cw_common = ToCardWorkRbDescCommon_default\<lparr> wc_total_len := 600, wc_raddr := 200 \<rparr>,
             cw_is_last = True, cw_is_first = True, cw_sge0 = \<lparr> ds_addr = 100, ds_len = 600, ds_key = Key 5 \<rparr>,
             cw_sge1 = None, cw_sge2 = None, cw_sge3 = None, ci_imm = 7 \<rparr>
   in \<exists>ds. split_descriptor d 512 = Some (Ok ds) \<and> concat (map desc_packets ds) = desc_packets d \<and>
        map (snd \<circ> snd \<circ> snd) (desc_packets d) = [56, 256, 256, 32]"
  using split_descriptor_packets[of "CWriteWithImm \<lparr> cw_common = ToCardWorkRbDescCommon_default\<lparr> wc_total_len := 600, wc_raddr := 200 \<rparr>,
             cw_is_last = True, cw_is_first = True, cw_sge0 = \<lparr> ds_addr = 100, ds_len = 600, ds_key = Key 5 \<rparr>,
             cw_sge1 = None, cw_sge2 = None, cw_sge3 = None, ci_imm = 7 \<rparr>" 512]
  by (simp add: splittable_def ToCardWorkRbDescCommon_default_def psn_ok_def desc_packets_def Let_def pmtu_chunks.simps)

end
