(* ===== verification/Round_Robin.thy ===== *)
theory Round_Robin
  imports Scheduler
begin

text \<open>
  The strategies of the scheduler and its thread: \<^verbatim>\<open>round_robin.rs\<close>, \<^verbatim>\<open>testing.rs\<close> and the
  loops of \<^verbatim>\<open>DescriptorScheduler::new\<close> and \<^verbatim>\<open>new_with_software\<close>. A strategy call returns the
  new state of the strategy and the \<^verbatim>\<open>Result\<close> of the call.
\<close>

type_synonym BatchDescs = "ToCardWorkRbDesc option list"
type_synonym 's push = "Qpn \<Rightarrow> ToCardWorkRbDesc list \<Rightarrow> 's \<Rightarrow> 's \<times> (string, unit) result"
type_synonym 's pop_batch = "'s \<Rightarrow> (panic, 's \<times> (string, BatchDescs \<times> u32) result) result"

subsection \<open>Round robin\<close>

type_synonym RoundRobinStrategy = "(u32 \<times> ToCardWorkRbDesc list) list"

definition RoundRobinStrategy_new :: RoundRobinStrategy where
  "RoundRobinStrategy_new = []"

fun rr_extend :: "u32 \<Rightarrow> ToCardWorkRbDesc list \<Rightarrow> RoundRobinStrategy \<Rightarrow> RoundRobinStrategy option" where
  "rr_extend qpn desc [] = None"
| "rr_extend qpn desc (i # queue) =
     (if fst i = qpn then Some ((fst i, snd i @ desc) # queue)
      else map_option ((#) i) (rr_extend qpn desc queue))"

definition rr_push :: "RoundRobinStrategy push" where
  "rr_push qpn desc queue =
     (case rr_extend (psn_get qpn) desc queue of
        Some queue \<Rightarrow> (queue, Ok ())
      | None \<Rightarrow> (queue @ [(psn_get qpn, desc)], Ok ()))"

function rr_pop_loop ::
  "RoundRobinStrategy \<Rightarrow> BatchDescs \<Rightarrow> nat \<Rightarrow> (panic, RoundRobinStrategy \<times> (string, BatchDescs \<times> u32) result) result" where
  "rr_pop_loop [] result counter = Ok ([], Ok (result, of_nat counter))"
| "rr_pop_loop ((qpn, list) # queue) result counter =
     (case list of
        [] \<Rightarrow> Err Panic
      | desc # list \<Rightarrow>
          if length result \<le> counter then Err Panic
          else
            let result = result[counter := Some desc];
                counter = counter + 1;
                queue = (if list \<noteq> [] then queue @ [(qpn, list)] else queue)
            in if counter = POP_BATCH_SIZE then Ok (queue, Ok (result, of_nat counter))
               else rr_pop_loop queue result counter)"
  by pat_completeness auto
termination
  by (relation "measure (\<lambda>(_, result, counter). length result - counter)") auto

definition rr_pop_batch :: "RoundRobinStrategy pop_batch" where
  "rr_pop_batch queue = rr_pop_loop queue (replicate POP_BATCH_SIZE None) 0"

subsection \<open>Testing strategy\<close>

text \<open>The handler of the test is a parameter: it rewrites the descriptors or fails.\<close>

definition testing_push ::
  "(ToCardWorkRbDesc list \<Rightarrow> (string, ToCardWorkRbDesc list) result) \<Rightarrow> RoundRobinStrategy push" where
  "testing_push handle_pkt qpn desc s =
     (if desc = [] then (s, Ok ())
      else case handle_pkt desc of
        Inl e \<Rightarrow> (s, Err e)
      | Inr vec \<Rightarrow> if vec = [] then (s, Ok ()) else rr_push qpn vec s)"

definition testing_pop_batch :: "RoundRobinStrategy pop_batch" where
  "testing_pop_batch s = rr_pop_batch s"

subsection \<open>Scheduler thread\<close>

abbreviation flatten :: "'a option list \<Rightarrow> 'a list" where
  "flatten \<equiv> List.map_filter id"

text \<open>
  One turn of the loop: what \<^verbatim>\<open>try_recv\<close> returns is split and pushed, then a batch is
  popped. The result is the state of the strategy and the descriptors sent, in order.
\<close>

definition scheduler_turn ::
  "'s push \<Rightarrow> 's pop_batch \<Rightarrow> u32 \<Rightarrow> ToCardWorkRbDesc option \<Rightarrow> 's \<Rightarrow>
   (panic, 's \<times> ToCardWorkRbDesc list) result option" where
  "scheduler_turn push pop_batch scheduler_size desc strategy =
     (let pushed =
        (case desc of
           None \<Rightarrow> Some (Ok strategy)
         | Some desc \<Rightarrow>
             (let dqpn = wc_dqpn (get_to_card_desc_common desc)
              in map_option (\<lambda>r. result_bind r (\<lambda>splited_descs. Ok (fst (push dqpn splited_descs strategy))))
                   (split_descriptor desc scheduler_size)))
      in map_option (\<lambda>r. result_bind r (\<lambda>strategy.
           result_bind (pop_batch strategy) (\<lambda>(strategy, popped).
             case popped of
               Inl e \<Rightarrow> Ok (strategy, [])
             | Inr (descs, len) \<Rightarrow> Ok (strategy, if len = 0 then [] else flatten descs)))) pushed)"

fun scheduler_run ::
  "'s push \<Rightarrow> 's pop_batch \<Rightarrow> u32 \<Rightarrow> ToCardWorkRbDesc option list \<Rightarrow> 's \<Rightarrow>
   (panic, 's \<times> ToCardWorkRbDesc list) result option" where
  "scheduler_run push pop_batch scheduler_size [] strategy = Some (Ok (strategy, []))"
| "scheduler_run push pop_batch scheduler_size (desc # descs) strategy =
     (case scheduler_turn push pop_batch scheduler_size desc strategy of
        None \<Rightarrow> None
      | Some (Inl p) \<Rightarrow> Some (Err p)
      | Some (Inr (strategy, sent)) \<Rightarrow>
          map_option (\<lambda>r. result_bind r (\<lambda>(strategy, sent'). Ok (strategy, sent @ sent')))
            (scheduler_run push pop_batch scheduler_size descs strategy))"

text \<open>
  The hardware loop writes the three or four segments of a descriptor into the slots that
  \<^verbatim>\<open>writer.next().unwrap()\<close> returns; here the slots are given with their old bytes, and
  running out of them is the failing \<^verbatim>\<open>unwrap\<close>.
\<close>

fun write_desc :: "ToCardWorkRbDesc \<Rightarrow> u8 list list \<Rightarrow> (panic, u8 list list \<times> u8 list list) result" where
  "write_desc scheduled_desc (slot0 # slot1 # slot2 # slots) =
     (let desc_cnt = serialized_desc_cnt scheduled_desc
      in result_bind (set_fields (write_0 scheduled_desc) slot0) (\<lambda>slot0.
         result_bind (set_fields (write_1 scheduled_desc) slot1) (\<lambda>slot1.
         result_bind (write_2 scheduled_desc slot2) (\<lambda>slot2.
           if desc_cnt = 4 then
             (case slots of
                [] \<Rightarrow> Err Panic
              | slot3 # slots \<Rightarrow>
                  result_bind (set_fields (write_3 scheduled_desc) slot3) (\<lambda>slot3.
                    Ok ([slot0, slot1, slot2, slot3], slots)))
           else Ok ([slot0, slot1, slot2], slots)))))"
| "write_desc scheduled_desc _ = Err Panic"

fun write_batch :: "ToCardWorkRbDesc list \<Rightarrow> u8 list list \<Rightarrow> (panic, u8 list list) result" where
  "write_batch [] slots = Ok []"
| "write_batch (desc # descs) slots =
     result_bind (write_desc desc slots) (\<lambda>(written, slots).
       result_bind (write_batch descs slots) (\<lambda>rest. Ok (written @ rest)))"

subsection \<open>The contract of a strategy\<close>

text \<open>
  \<open>pending s q\<close> is what the strategy still holds for the queue pair \<open>q\<close>, \<open>load s\<close> how much it
  holds in all. Pushing appends to one queue; a pop takes as much as there is, up to
  the batch size, from the fronts of the queues.
\<close>

abbreviation batch_of :: "ToCardWorkRbDesc list \<Rightarrow> BatchDescs" where
  "batch_of ds \<equiv> map Some ds @ replicate (POP_BATCH_SIZE - length ds) None"

locale scheduler_strategy =
  fixes invar :: "'s \<Rightarrow> bool"
    and pending :: "'s \<Rightarrow> Qpn \<Rightarrow> ToCardWorkRbDesc list"
    and load :: "'s \<Rightarrow> nat"
    and push :: "'s push"
    and pop_batch :: "'s pop_batch"
  assumes push_invar: "invar s \<Longrightarrow> ds \<noteq> [] \<Longrightarrow> \<forall>d\<in>set ds. get_dqpn d = q \<Longrightarrow> invar (fst (push q ds s))"
    and push_pending: "invar s \<Longrightarrow> pending (fst (push q ds s)) q' = pending s q' @ (if q' = q then ds else [])"
    and push_load: "load (fst (push q ds s)) = load s + length ds"
    and pop: "invar s \<Longrightarrow> \<exists>s' ds. pop_batch s = Ok (s', Ok (batch_of ds, of_nat (length ds))) \<and> invar s' \<and>
      (\<forall>q. pending s q = filter (\<lambda>d. get_dqpn d = q) ds @ pending s' q) \<and>
      length ds = min POP_BATCH_SIZE (load s) \<and> load s' = load s - length ds"
    and load_0: "invar s \<Longrightarrow> load s = 0 \<Longrightarrow> pending s q = []"

lemma flatten_simps [simp]:
  "flatten (xs @ ys) = flatten xs @ flatten ys" "flatten (map Some ds) = ds" "flatten (replicate n None) = []"
  by (simp_all add: map_filter_def comp_def)

text \<open>The descriptors that are split without a panic, and their pieces.\<close>

definition schedulable :: "u32 \<Rightarrow> ToCardWorkRbDesc \<Rightarrow> bool" where
  "schedulable S d \<longleftrightarrow> is_read d \<or> wc_total_len (work_common d) < S \<or> splittable d S"

definition sched_pieces :: "u32 \<Rightarrow> ToCardWorkRbDesc \<Rightarrow> ToCardWorkRbDesc list" where
  "sched_pieces S d = (if is_read d \<or> wc_total_len (work_common d) < S then [d] else split_spec d S)"

definition pieces_for :: "u32 \<Rightarrow> Qpn \<Rightarrow> ToCardWorkRbDesc option list \<Rightarrow> ToCardWorkRbDesc list" where
  "pieces_for S q received = concat (map (sched_pieces S) (filter (\<lambda>d. get_dqpn d = q) (flatten received)))"

definition pieces_cnt :: "u32 \<Rightarrow> ToCardWorkRbDesc option list \<Rightarrow> nat" where
  "pieces_cnt S received = sum_list (map (\<lambda>d. length (sched_pieces S d)) (flatten received))"

lemma pieces_for_Nil [simp]: "pieces_for S q [] = []" "pieces_cnt S [] = 0"
  by (simp_all add: pieces_for_def pieces_cnt_def map_filter_def)

lemma pieces_for_Cons:
  "pieces_for S q (r # received) = pieces_for S q [r] @ pieces_for S q received"
  "pieces_cnt S (r # received) = pieces_cnt S [r] + pieces_cnt S received"
  by (auto simp: pieces_for_def pieces_cnt_def map_filter_def split: option.splits)

lemma pieces_idle [simp]:
  "pieces_for S q (received @ replicate k None) = pieces_for S q received"
  "pieces_cnt S (received @ replicate k None) = pieces_cnt S received"
  "flatten (received @ replicate k None) = flatten received"
  by (simp_all add: pieces_for_def pieces_cnt_def map_filter_def)

lemma split_schedulable:
  "schedulable S d \<Longrightarrow> split_descriptor d S = Some (Ok (sched_pieces S d))"
  using split_descriptor_spec[of d S]
  by (auto simp: schedulable_def sched_pieces_def split_descriptor_def work_fields Let_def)

lemma dqpn_work_common: "get_dqpn d = wc_dqpn (work_common d)"
  by (cases d) simp_all

lemma sched_pieces_ne: "schedulable S d \<Longrightarrow> sched_pieces S d \<noteq> []"
  by (auto simp: schedulable_def sched_pieces_def split_spec_def Let_def dest: splittable_size(3))

lemma sched_pieces_dqpn: "p \<in> set (sched_pieces S d) \<Longrightarrow> get_dqpn p = get_dqpn d"
  by (cases "is_read d") (auto simp: sched_pieces_def split_spec_def Let_def dqpn_work_common work_piece split: if_splits)

context scheduler_strategy
begin

lemma turn_idle:
  assumes "invar s"
  shows "\<exists>s' ds. scheduler_turn push pop_batch S None s = Some (Ok (s', ds)) \<and> invar s' \<and>
    (\<forall>q. pending s q = filter (\<lambda>d. get_dqpn d = q) ds @ pending s' q) \<and>
    load s' = load s - POP_BATCH_SIZE \<and> length ds \<le> POP_BATCH_SIZE"
proof -
  obtain s' ds where p: "pop_batch s = Ok (s', Ok (batch_of ds, of_nat (length ds)))" "invar s'"
      "\<forall>q. pending s q = filter (\<lambda>d. get_dqpn d = q) ds @ pending s' q"
      "length ds = min POP_BATCH_SIZE (load s)" "load s' = load s - length ds"
    using pop[OF assms] by blast
  have "(of_nat (length ds) :: u32) = 0 \<longleftrightarrow> ds = []"
    using p(4) by (auto simp: POP_BATCH_SIZE_def word_unat_eq_iff unat_of_nat)
  then have "scheduler_turn push pop_batch S None s = Some (Ok (s', ds))"
    by (auto simp: scheduler_turn_def p(1))
  with p show ?thesis
    by (intro exI[of _ s'] exI[of _ ds]) auto
qed

lemma turn_recv:
  assumes "schedulable S d"
  shows "scheduler_turn push pop_batch S (Some d) s =
    scheduler_turn push pop_batch S None (fst (push (get_dqpn d) (sched_pieces S d) s))"
  using assms by (simp add: scheduler_turn_def split_schedulable work_fields dqpn_work_common)

lemma run_fifo:
  assumes "invar s" "\<forall>d\<in>set (flatten received). schedulable S d"
  shows "\<exists>s' sent. scheduler_run push pop_batch S received s = Some (Ok (s', sent)) \<and> invar s' \<and>
    (\<forall>q. pending s q @ pieces_for S q received = filter (\<lambda>d. get_dqpn d = q) sent @ pending s' q) \<and>
    load s' \<le> load s + pieces_cnt S received \<and>
    length sent \<le> POP_BATCH_SIZE * length received"
  using assms
proof (induction received arbitrary: s)
  case (Cons r received)
  define s1 where "s1 = (case r of None \<Rightarrow> s | Some d \<Rightarrow> fst (push (get_dqpn d) (sched_pieces S d) s))"
  have s1: "invar s1" "\<And>q. pending s1 q = pending s q @ pieces_for S q [r]"
      "load s1 = load s + pieces_cnt S [r]"
      "scheduler_turn push pop_batch S r s = scheduler_turn push pop_batch S None s1"
    using Cons(2,3)
    by (auto simp: s1_def pieces_for_def pieces_cnt_def map_filter_def push_pending push_load turn_recv
        intro!: push_invar sched_pieces_ne dest: sched_pieces_dqpn split: option.splits)
  obtain s2 ds where t: "scheduler_turn push pop_batch S None s1 = Some (Ok (s2, ds))" "invar s2"
      "\<forall>q. pending s1 q = filter (\<lambda>d. get_dqpn d = q) ds @ pending s2 q"
      "load s2 = load s1 - POP_BATCH_SIZE" "length ds \<le> POP_BATCH_SIZE"
    using turn_idle[OF s1(1)] by blast
  have "\<forall>d\<in>set (flatten received). schedulable S d"
    using Cons(3) by (auto simp: map_filter_def split: option.splits)
  then obtain s3 sent where r: "scheduler_run push pop_batch S received s2 = Some (Ok (s3, sent))" "invar s3"
      "\<forall>q. pending s2 q @ pieces_for S q received = filter (\<lambda>d. get_dqpn d = q) sent @ pending s3 q"
      "load s3 \<le> load s2 + pieces_cnt S received"
      "length sent \<le> POP_BATCH_SIZE * length received"
    using Cons.IH[OF t(2)] by blast
  have "pending s q @ pieces_for S q (r # received) = filter (\<lambda>d. get_dqpn d = q) (ds @ sent) @ pending s3 q" for q
    using s1(2)[of q] t(3) r(3) pieces_for_Cons(1)[of S q r received] by (metis append.assoc filter_append)
  then show ?case
    using s1(3,4) t r pieces_for_Cons(2)[of S r received] by (intro exI[of _ s3] exI[of _ "ds @ sent"]) simp
qed simp

lemma run_append:
  "scheduler_run push pop_batch S xs s = Some (Ok (s1, a)) \<Longrightarrow> scheduler_run push pop_batch S ys s1 = Some (Ok (s2, b)) \<Longrightarrow>
   scheduler_run push pop_batch S (xs @ ys) s = Some (Ok (s2, a @ b))"
proof (induction xs arbitrary: s a)
  case (Cons x xs)
  from Cons.prems(1) obtain s0 c d where "scheduler_turn push pop_batch S x s = Some (Ok (s0, c))"
      "scheduler_run push pop_batch S xs s0 = Some (Ok (s1, d))" "a = c @ d"
    by (auto simp: result_bind_def split: option.splits sum.splits)
  with Cons.IH[of s0 d] Cons.prems(2) show ?case
    by simp
qed simp

lemma run_idle:
  assumes "invar s"
  shows "\<exists>s' sent. scheduler_run push pop_batch S (replicate k None) s = Some (Ok (s', sent)) \<and> invar s' \<and>
    load s' = load s - k * POP_BATCH_SIZE \<and> (\<forall>q. pending s q = filter (\<lambda>d. get_dqpn d = q) sent @ pending s' q)"
  using assms
proof (induction k arbitrary: s)
  case (Suc k)
  obtain s1 ds where t: "scheduler_turn push pop_batch S None s = Some (Ok (s1, ds))" "invar s1"
      "\<forall>q. pending s q = filter (\<lambda>d. get_dqpn d = q) ds @ pending s1 q" "load s1 = load s - POP_BATCH_SIZE"
    using turn_idle[OF Suc(2)] by blast
  obtain s2 sent where "scheduler_run push pop_batch S (replicate k None) s1 = Some (Ok (s2, sent))" "invar s2"
      "load s2 = load s1 - k * POP_BATCH_SIZE" "\<forall>q. pending s1 q = filter (\<lambda>d. get_dqpn d = q) sent @ pending s2 q"
    using Suc(1)[OF t(2)] by blast
  with t show ?case
    by (intro exI[of _ s2] exI[of _ "ds @ sent"]) simp
qed simp

lemma run_drains:
  assumes "invar s" "load s = 0" "\<forall>d\<in>set (flatten received). schedulable S d"
    and "pieces_cnt S received \<le> k * POP_BATCH_SIZE"
  shows "\<exists>s' sent. scheduler_run push pop_batch S (received @ replicate k None) s = Some (Ok (s', sent)) \<and>
    (\<forall>q. filter (\<lambda>d. get_dqpn d = q) sent = pieces_for S q received)"
proof -
  obtain s1 sent where r: "scheduler_run push pop_batch S received s = Some (Ok (s1, sent))" "invar s1"
      "\<forall>q. pending s q @ pieces_for S q received = filter (\<lambda>d. get_dqpn d = q) sent @ pending s1 q"
      "load s1 \<le> load s + pieces_cnt S received"
    using run_fifo[OF assms(1,3)] by blast
  obtain s2 sent' where i: "scheduler_run push pop_batch S (replicate k None) s1 = Some (Ok (s2, sent'))" "invar s2"
      "load s2 = load s1 - k * POP_BATCH_SIZE" "\<forall>q. pending s1 q = filter (\<lambda>d. get_dqpn d = q) sent' @ pending s2 q"
    using run_idle[OF r(2)] by blast
  have "pending s2 q = []" "pending s q = []" for q
    using i(2,3) r(4) assms(1,2,4) by (auto intro: load_0)
  then show ?thesis
    using r(3) i(4) run_append[OF r(1) i(1)] by (intro exI[of _ s2] exI[of _ "sent @ sent'"]) simp
qed

end

subsection \<open>Round robin meets the contract\<close>

definition rr_pending :: "RoundRobinStrategy \<Rightarrow> Qpn \<Rightarrow> ToCardWorkRbDesc list" where
  "rr_pending queue q = concat (map snd (filter (\<lambda>e. fst e = psn_get q) queue))"

definition rr_load :: "RoundRobinStrategy \<Rightarrow> nat" where
  "rr_load queue = sum_list (map (length \<circ> snd) queue)"

definition rr_invar :: "RoundRobinStrategy \<Rightarrow> bool" where
  "rr_invar queue \<longleftrightarrow> distinct (map fst queue) \<and>
     list_all (\<lambda>(q, l). l \<noteq> [] \<and> list_all (\<lambda>d. psn_get (get_dqpn d) = q) l) queue"

lemma rr_extend_None: "rr_extend q ds queue = None \<longleftrightarrow> q \<notin> fst ` set queue"
  by (induction queue) auto

lemma rr_extend_Some:
  "rr_extend q ds queue = Some queue' \<Longrightarrow>
   \<exists>xs l ys. queue = xs @ (q, l) # ys \<and> queue' = xs @ (q, l @ ds) # ys \<and> q \<notin> fst ` set xs"
proof (induction queue arbitrary: queue')
  case (Cons i queue)
  show ?case
  proof (cases "fst i = q")
    case True
    with Cons.prems show ?thesis
      by (intro exI[of _ "[]"] exI[of _ "snd i"] exI[of _ queue]) (auto simp: prod_eq_iff)
  next
    case False
    with Cons.prems obtain q'' where q: "rr_extend q ds queue = Some q''" "queue' = i # q''"
      by auto
    from Cons.IH[OF q(1)] obtain xs l ys where
        "queue = xs @ (q, l) # ys" "q'' = xs @ (q, l @ ds) # ys" "q \<notin> fst ` set xs"
      by blast
    with q False show ?thesis
      by (intro exI[of _ "i # xs"] exI[of _ l] exI[of _ ys]) auto
  qed
qed simp

lemma rr_pending_append: "rr_pending (xs @ ys) q = rr_pending xs q @ rr_pending ys q"
  by (simp add: rr_pending_def)

lemma rr_pending_absent: "psn_get q \<notin> fst ` set queue \<Longrightarrow> rr_pending queue q = []"
  by (force simp: rr_pending_def filter_empty_conv)

lemma rr_pending_Cons: "rr_pending ((k, l) # queue) q = (if k = psn_get q then l else []) @ rr_pending queue q"
  by (simp add: rr_pending_def)

lemma psn_get_inject: "psn_get p = psn_get q \<longleftrightarrow> p = q"
  by (cases p; cases q) simp

lemma rr_push_invar:
  assumes "rr_invar s" "ds \<noteq> []" "\<forall>d\<in>set ds. get_dqpn d = q"
  shows "rr_invar (fst (rr_push q ds s))"
proof -
  have ds: "list_all (\<lambda>d. psn_get (get_dqpn d) = psn_get q) ds"
    using assms(3) by (simp add: list_all_iff)
  show ?thesis
  proof (cases "rr_extend (psn_get q) ds s")
  case None
  then have "psn_get q \<notin> fst ` set s"
    by (simp add: rr_extend_None)
  with assms(1,2) None ds show ?thesis
    by (simp add: rr_push_def rr_invar_def)
next
  case (Some s')
  from rr_extend_Some[OF this] assms(1) ds Some show ?thesis
    by (auto simp: rr_push_def rr_invar_def)
qed
qed

lemma rr_push_pending:
  assumes "rr_invar s"
  shows "rr_pending (fst (rr_push q ds s)) q' = rr_pending s q' @ (if q' = q then ds else [])"
proof (cases "rr_extend (psn_get q) ds s")
  case None
  then show ?thesis
    by (simp add: rr_push_def rr_pending_append) (simp add: rr_pending_def psn_get_inject)
next
  case (Some s')
  then obtain xs l ys where s: "s = xs @ (psn_get q, l) # ys" "s' = xs @ (psn_get q, l @ ds) # ys"
    using rr_extend_Some by blast
  then have "psn_get q \<notin> fst ` set ys"
    using assms by (auto simp: rr_invar_def)
  then have "rr_pending ys q = []"
    by (rule rr_pending_absent)
  with s Some show ?thesis
    by (auto simp: rr_push_def rr_pending_append rr_pending_Cons psn_get_inject)
qed

lemma rr_push_load: "rr_load (fst (rr_push q ds s)) = rr_load s + length ds"
  by (cases "rr_extend (psn_get q) ds s") (auto simp: rr_push_def rr_load_def dest: rr_extend_Some)

lemma batch_update:
  "length pre < POP_BATCH_SIZE \<Longrightarrow> (batch_of pre)[length pre := Some d] = batch_of (pre @ [d])"
  by (cases "POP_BATCH_SIZE - length pre") (simp_all add: list_update_append flip: diff_Suc_eq_diff_pred)

definition rr_rotate :: "RoundRobinStrategy \<Rightarrow> RoundRobinStrategy" where
  "rr_rotate queue =
     (case queue of [] \<Rightarrow> []
      | (q, l) # queue \<Rightarrow> if tl l \<noteq> [] then queue @ [(q, tl l)] else queue)"

lemma rr_rotate_facts:
  assumes "rr_invar ((k, d # l) # queue)"
  shows "rr_invar (rr_rotate ((k, d # l) # queue))"
    and "rr_pending ((k, d # l) # queue) q =
      filter (\<lambda>d. get_dqpn d = q) [d] @ rr_pending (rr_rotate ((k, d # l) # queue)) q"
    and "rr_load ((k, d # l) # queue) = Suc (rr_load (rr_rotate ((k, d # l) # queue)))"
    and "take (length queue) (rr_rotate ((k, d # l) # queue)) = queue"
proof -
  have k: "psn_get (get_dqpn d) = k" "k \<notin> fst ` set queue"
    using assms by (auto simp: rr_invar_def)
  then show "rr_pending ((k, d # l) # queue) q =
      filter (\<lambda>d. get_dqpn d = q) [d] @ rr_pending (rr_rotate ((k, d # l) # queue)) q"
    using rr_pending_absent[of "get_dqpn d" queue]
    by (auto simp: rr_rotate_def rr_pending_append rr_pending_Cons psn_get_inject) (simp_all add: rr_pending_def psn_get_inject)
qed (use assms in \<open>auto simp: rr_invar_def rr_rotate_def rr_load_def list_all_iff\<close>)

text \<open>
  What popping up to \<open>n\<close> descriptors does: \<open>ds\<close> comes from the fronts of the queues and begins
  with one descriptor of each of the first \<open>n\<close> queue pairs.
\<close>

definition rr_popped ::
  "RoundRobinStrategy \<Rightarrow> nat \<Rightarrow> RoundRobinStrategy \<Rightarrow> ToCardWorkRbDesc list \<Rightarrow> bool" where
  "rr_popped queue n queue' ds \<longleftrightarrow> rr_invar queue' \<and>
     (\<forall>q. rr_pending queue q = filter (\<lambda>d. get_dqpn d = q) ds @ rr_pending queue' q) \<and>
     length ds = min n (rr_load queue) \<and> rr_load queue' = rr_load queue - length ds \<and>
     take (length queue) ds = take n (map (hd \<circ> snd) queue)"

lemma rr_popped_0: "rr_invar queue \<Longrightarrow> rr_popped queue 0 queue []"
  by (simp add: rr_popped_def)

lemma rr_popped_Nil: "rr_popped [] n [] []"
  by (simp add: rr_popped_def rr_invar_def rr_load_def)

lemma rr_popped_Suc:
  assumes "rr_invar ((k, d # l) # queue)" "rr_popped (rr_rotate ((k, d # l) # queue)) n queue' ds"
  shows "rr_popped ((k, d # l) # queue) (Suc n) queue' (d # ds)"
proof -
  let ?q1 = "rr_rotate ((k, d # l) # queue)"
  note f = rr_rotate_facts[OF assms(1)]
  have "take (length queue) (take (length ?q1) ds) = take (length queue) (take n (map (hd \<circ> snd) ?q1))"
    using assms(2) by (simp add: rr_popped_def)
  moreover have "length queue \<le> length ?q1"
    by (simp add: rr_rotate_def)
  ultimately have "take (length queue) ds = take n (map (hd \<circ> snd) (take (length queue) ?q1))"
    by (simp add: take_map min.commute min_absorb1)
  then show ?thesis
    using assms f unfolding rr_popped_def by (auto simp: f(3))
qed

lemma rr_pop_loop_step:
  assumes "length pre < POP_BATCH_SIZE"
  shows "rr_pop_loop ((k, d # l) # queue) (batch_of pre) (length pre) =
    (if length (pre @ [d]) = POP_BATCH_SIZE
     then Ok (rr_rotate ((k, d # l) # queue), Ok (batch_of (pre @ [d]), of_nat (length (pre @ [d]))))
     else rr_pop_loop (rr_rotate ((k, d # l) # queue)) (batch_of (pre @ [d])) (length (pre @ [d])))"
  using assms by (simp add: rr_rotate_def batch_update Let_def)

lemma rr_pop_loop_correct:
  assumes "rr_invar queue" "length pre < POP_BATCH_SIZE"
  shows "\<exists>queue' ds. rr_pop_loop queue (batch_of pre) (length pre) =
      Ok (queue', Ok (batch_of (pre @ ds), of_nat (length (pre @ ds)))) \<and>
    rr_popped queue (POP_BATCH_SIZE - length pre) queue' ds"
  using assms
proof (induction "POP_BATCH_SIZE - length pre" arbitrary: queue pre rule: less_induct)
  case less
  show ?case
  proof (cases queue)
    case Nil
    then show ?thesis
      by (intro exI[of _ "[]"] exI[of _ "[]"]) (simp add: rr_popped_Nil)
  next
    case (Cons e rest)
    then obtain k d l where q: "queue = (k, d # l) # rest"
      using less.prems(1) by (cases e; cases "snd e") (auto simp: rr_invar_def)
    let ?q1 = "rr_rotate queue"
    have n: "POP_BATCH_SIZE - length pre = Suc (POP_BATCH_SIZE - length (pre @ [d]))"
      using less.prems(2) by simp
    note inv = rr_rotate_facts(1)[OF less.prems(1)[unfolded q], folded q]
    have "\<exists>queue' ds. rr_pop_loop queue (batch_of pre) (length pre) =
        Ok (queue', Ok (batch_of ((pre @ [d]) @ ds), of_nat (length ((pre @ [d]) @ ds)))) \<and>
      rr_popped ?q1 (POP_BATCH_SIZE - length (pre @ [d])) queue' ds"
    proof (cases "length (pre @ [d]) = POP_BATCH_SIZE")
      case True
      then show ?thesis
        using rr_popped_0[OF inv] rr_pop_loop_step[OF less.prems(2), of k d l rest, folded q]
        by (intro exI[of _ ?q1] exI[of _ "[]"]) simp
    next
      case False
      then have "length (pre @ [d]) < POP_BATCH_SIZE"
        using less.prems(2) by simp
      from less.hyps[OF _ inv this] False show ?thesis
        using less.prems(2) by (simp add: rr_pop_loop_step[OF less.prems(2), of k d l rest, folded q])
    qed
    then show ?thesis
      using rr_popped_Suc[OF less.prems(1)[unfolded q], folded q] unfolding n
      by (metis append.assoc append_Cons append_Nil)
  qed
qed

interpretation rr: scheduler_strategy rr_invar rr_pending rr_load rr_push rr_pop_batch
proof
  fix s assume s: "rr_invar s"
  from rr_pop_loop_correct[OF this, of "[]"] obtain s' ds where
      "rr_pop_loop s (batch_of []) 0 = Ok (s', Ok (batch_of ds, of_nat (length ds)))" "rr_popped s POP_BATCH_SIZE s' ds"
    by (auto simp: POP_BATCH_SIZE_def)
  then show "\<exists>s' ds. rr_pop_batch s = Ok (s', Ok (batch_of ds, of_nat (length ds))) \<and> rr_invar s' \<and>
      (\<forall>q. rr_pending s q = filter (\<lambda>d. get_dqpn d = q) ds @ rr_pending s' q) \<and>
      length ds = min POP_BATCH_SIZE (rr_load s) \<and> rr_load s' = rr_load s - length ds"
    by (intro exI[of _ s'] exI[of _ ds]) (simp add: rr_pop_batch_def rr_popped_def)
  show "rr_load s = 0 \<Longrightarrow> rr_pending s q = []" for q
    by (auto simp: rr_load_def rr_pending_def)
qed (simp_all add: rr_push_invar rr_push_pending rr_push_load)

subsection \<open>Order, progress and fairness\<close>


definition sample_desc :: "u32 \<Rightarrow> u32 \<Rightarrow> ToCardWorkRbDesc" where
  "sample_desc qpn len =
     CWrite \<lparr> cw_common = ToCardWorkRbDescCommon_default\<lparr> wc_total_len := len, wc_raddr := 3, wc_dqpn := psn_new qpn \<rparr>,
       cw_is_last = True, cw_is_first = True, cw_sge0 = \<lparr> ds_addr = 100, ds_len = len, ds_key = Key 5 \<rparr>,
       cw_sge1 = None, cw_sge2 = None, cw_sge3 = None \<rparr>"

lemma sample_desc_schedulable: "0 < S \<Longrightarrow> schedulable S (sample_desc q n)"
  using le_less_linear[of S n]
  by (auto simp: schedulable_def splittable_def sample_desc_def ToCardWorkRbDescCommon_default_def psn_ok_def)


text \<open>
  C22. Nothing waits for ever: once the thread has nothing more to receive, one empty turn
  for every eight pieces is enough, and then every queue pair has been sent exactly
  the pieces of its descriptors, in order.
\<close>

theorem scheduler_drains:
  assumes "\<forall>d\<in>set (flatten received). schedulable S d" "pieces_cnt S received \<le> k * POP_BATCH_SIZE"
  shows "\<exists>s sent. scheduler_run rr_push rr_pop_batch S (received @ replicate k None) RoundRobinStrategy_new = Some (Ok (s, sent)) \<and>
    (\<forall>q. filter (\<lambda>d. get_dqpn d = q) sent = pieces_for S q received)"
  using rr.run_drains[OF _ _ assms, of RoundRobinStrategy_new]
  by (simp add: RoundRobinStrategy_new_def rr_invar_def rr_load_def)

theorem scheduler_drains_witness:
  "pieces_cnt 16 [Some (sample_desc 7 10), Some (sample_desc 9 11)] = 2 \<and>
   (\<exists>s sent. scheduler_run rr_push rr_pop_batch 16 ([Some (sample_desc 7 10), Some (sample_desc 9 11)] @ replicate 1 None)
        RoundRobinStrategy_new = Some (Ok (s, sent)) \<and>
      (\<forall>q. filter (\<lambda>d. get_dqpn d = q) sent = pieces_for 16 q [Some (sample_desc 7 10), Some (sample_desc 9 11)]))"
proof -
  have "pieces_cnt 16 [Some (sample_desc 7 10), Some (sample_desc 9 11)] = 2"
    by (simp add: pieces_cnt_def map_filter_def sched_pieces_def sample_desc_def ToCardWorkRbDescCommon_default_def)
  then show ?thesis
    using scheduler_drains[of "[Some (sample_desc 7 10), Some (sample_desc 9 11)]" 16 1]
    by (auto simp: map_filter_def sample_desc_schedulable POP_BATCH_SIZE_def)
qed

text \<open>
  A batch is as large as the batch size and the load allow, and it begins with one
  descriptor of each of the first eight queue pairs in the rotation: with at most
  eight active queue pairs none of them is left out of a batch.
\<close>

lemma rr_pop_batch_fair:
  assumes "rr_invar queue"
  shows "\<exists>queue' ds. rr_pop_batch queue = Ok (queue', Ok (batch_of ds, of_nat (length ds))) \<and>
    length ds = min POP_BATCH_SIZE (rr_load queue) \<and>
    take (length queue) ds = take POP_BATCH_SIZE (map (hd \<circ> snd) queue)"
proof -
  from rr_pop_loop_correct[OF assms, of "[]"] obtain queue' ds where
      "rr_pop_loop queue (batch_of []) 0 = Ok (queue', Ok (batch_of ds, of_nat (length ds)))"
      "rr_popped queue POP_BATCH_SIZE queue' ds"
    by (auto simp: POP_BATCH_SIZE_def)
  then show ?thesis
    by (intro exI[of _ queue'] exI[of _ ds]) (simp add: rr_pop_batch_def rr_popped_def)
qed

end
