(* ===== verification/Op_Ctx.thy ===== *)
theory Op_Ctx
  imports Rdma_Types
begin

text \<open>
  Operation contexts, \<^verbatim>\<open>src/op_ctx.rs\<close>: the caller of an operation waits on its context,
  a poller thread stores the result. The second half models the interleaving of the
  waiting threads with the thread that stores the result, with the token of
  \<^verbatim>\<open>thread::park\<close> and \<^verbatim>\<open>unpark\<close>. Threads are numbers.
\<close>

datatype CtxStatus = CtxInvalid | Running | CtxFailed string | Finished

text \<open>\<open>'h\<close> is the type of the boxed handlers.\<close>

record ('p, 'h) OpCtx =
  oc_thread :: "nat option"
  oc_status :: CtxStatus
  oc_payload :: "'p option"
  oc_handler :: "'h option"

type_synonym 'h CtrlOpCtx = "(bool, 'h) OpCtx"

definition new_running :: "('p, 'h) OpCtx" where
  "new_running = \<lparr> oc_thread = None, oc_status = Running, oc_payload = None, oc_handler = None \<rparr>"

text \<open>The part of \<^verbatim>\<open>wait\<close> under the lock, and whether the caller parks after it.\<close>

definition wait_lock :: "nat \<Rightarrow> ('p, 'h) OpCtx \<Rightarrow> ('p, 'h) OpCtx \<times> bool" where
  "wait_lock current self =
     (if oc_status self = Running then (self\<lparr> oc_thread := Some current \<rparr>, True) else (self, False))"

text \<open>\<open>set_error\<close> and the locked part of \<open>set_result\<close> also return the thread they unpark.\<close>

definition set_error :: "string \<Rightarrow> ('p, 'h) OpCtx \<Rightarrow> ('p, 'h) OpCtx \<times> nat option" where
  "set_error cause self =
     (self\<lparr> oc_status := CtxFailed cause, oc_thread := None \<rparr>, oc_thread self)"

definition set_payload :: "'p \<Rightarrow> ('p, 'h) OpCtx \<Rightarrow> (Error, ('p, 'h) OpCtx) result" where
  "set_payload result self =
     (case oc_payload self of
        Some _ \<Rightarrow> Err SetCtxResultFailed
      | None \<Rightarrow> Ok (self\<lparr> oc_payload := Some result \<rparr>))"

definition finish :: "('p, 'h) OpCtx \<Rightarrow> ('p, 'h) OpCtx \<times> nat option" where
  "finish self = (self\<lparr> oc_status := Finished, oc_thread := None \<rparr>, oc_thread self)"

definition set_result :: "'p \<Rightarrow> ('p, 'h) OpCtx \<Rightarrow> (Error, ('p, 'h) OpCtx \<times> nat option) result" where
  "set_result result self = result_bind (set_payload result self) (\<lambda>self. Ok (finish self))"

definition get_result :: "('p, 'h) OpCtx \<Rightarrow> 'p option" where
  "get_result self = oc_payload self"

text \<open>What \<^verbatim>\<open>wait_result\<close> returns once \<^verbatim>\<open>wait\<close> has returned.\<close>

definition wait_result :: "('p, 'h) OpCtx \<Rightarrow> (Error, 'p option) result" where
  "wait_result self =
     (case oc_status self of CtxFailed reason \<Rightarrow> Err (Device reason) | _ \<Rightarrow> Ok (oc_payload self))"

definition set_handler :: "'h \<Rightarrow> ('p, 'h) OpCtx \<Rightarrow> ('p, 'h) OpCtx" where
  "set_handler handler self = self\<lparr> oc_handler := Some handler \<rparr>"

definition take_handler :: "('p, 'h) OpCtx \<Rightarrow> 'h option \<times> ('p, 'h) OpCtx" where
  "take_handler self = (oc_handler self, self\<lparr> oc_handler := None \<rparr>)"

subsection \<open>Waiting threads\<close>

datatype wait_pc = Outside | Parking | Returned

record ('p, 'h) op_state =
  os_ctx :: "('p, 'h) OpCtx"
  os_pc :: "nat \<Rightarrow> wait_pc"
  os_token :: "nat \<Rightarrow> bool"
  os_storing :: bool

definition unpark :: "nat option \<Rightarrow> (nat \<Rightarrow> bool) \<Rightarrow> nat \<Rightarrow> bool" where
  "unpark thread token = (case thread of None \<Rightarrow> token | Some t \<Rightarrow> token(t := True))"

text \<open>
  The threads of \<open>T\<close> wait; any thread stores a result or an error. \<^verbatim>\<open>park\<close> returns when the
  token of the thread is there and takes it.
\<close>

inductive op_step :: "nat set \<Rightarrow> ('p, 'h) op_state \<Rightarrow> ('p, 'h) op_state \<Rightarrow> bool" for T where
  step_wait: "t \<in> T \<Longrightarrow> os_pc s t \<noteq> Parking \<Longrightarrow> wait_lock t (os_ctx s) = (c, parks) \<Longrightarrow>
    op_step T s (s\<lparr> os_ctx := c, os_pc := (os_pc s)(t := if parks then Parking else Returned) \<rparr>)"
| step_park: "os_pc s t = Parking \<Longrightarrow> os_token s t \<Longrightarrow>
    op_step T s (s\<lparr> os_pc := (os_pc s)(t := Returned), os_token := (os_token s)(t := False) \<rparr>)"
| step_payload: "set_payload p (os_ctx s) = Ok c \<Longrightarrow> op_step T s (s\<lparr> os_ctx := c, os_storing := True \<rparr>)"
| step_finish: "os_storing s \<Longrightarrow> finish (os_ctx s) = (c, thread) \<Longrightarrow>
    op_step T s (s\<lparr> os_ctx := c, os_token := unpark thread (os_token s), os_storing := False \<rparr>)"
| step_error: "set_error cause (os_ctx s) = (c, thread) \<Longrightarrow>
    op_step T s (s\<lparr> os_ctx := c, os_token := unpark thread (os_token s) \<rparr>)"

inductive_cases op_stepE [consumes 1, case_names step_wait step_park step_payload step_finish step_error]:
  "op_step T s s'"

definition op_init :: "('p, 'h) op_state" where
  "op_init = \<lparr> os_ctx = new_running, os_pc = (\<lambda>_. Outside), os_token = (\<lambda>_. False), os_storing = False \<rparr>"

definition op_inv :: "nat \<Rightarrow> ('p, 'h) op_state \<Rightarrow> bool" where
  "op_inv t s \<longleftrightarrow>
     (\<forall>u. oc_thread (os_ctx s) = Some u \<longrightarrow> u = t \<and> oc_status (os_ctx s) = Running) \<and>
     (os_pc s t = Parking \<longrightarrow> os_token s t \<or> oc_thread (os_ctx s) = Some t) \<and>
     (os_token s t \<or> os_pc s t = Returned \<longrightarrow> oc_status (os_ctx s) \<noteq> Running)"

lemma op_inv_init: "op_inv t op_init"
  by (simp add: op_inv_def op_init_def new_running_def)

lemma unpark_registered: "thread = Some t \<or> token t \<Longrightarrow> unpark thread token t"
  by (cases thread) (auto simp: unpark_def)

lemma op_inv_stopped:
  assumes "op_inv t s" "oc_status c \<noteq> Running" "oc_thread c = None"
  shows "op_inv t (s\<lparr> os_ctx := c, os_token := unpark (oc_thread (os_ctx s)) (os_token s), os_storing := st \<rparr>)"
  using assms unpark_registered[of "oc_thread (os_ctx s)" t "os_token s"] by (simp add: op_inv_def) blast

lemma op_inv_step:
  assumes "op_step {t} s s'" "op_inv t s"
  shows "op_inv t s'"
  using assms(1)
proof (cases rule: op_stepE)
  case (step_wait u c parks)
  then have u: "u = t"
    by simp
  show ?thesis
  proof (cases "oc_status (os_ctx s) = Running")
    case True
    then have "c = (os_ctx s)\<lparr> oc_thread := Some t \<rparr>" "parks"
      using step_wait u by (simp_all add: wait_lock_def)
    then show ?thesis
      using assms(2) True by (simp add: step_wait(1) u op_inv_def)
  next
    case False
    then have "c = os_ctx s" "\<not> parks"
      using step_wait by (simp_all add: wait_lock_def)
    then show ?thesis
      using assms(2) False by (simp add: step_wait(1) u op_inv_def)
  qed
next
  case (step_park u)
  with assms(2) show ?thesis
    by (simp add: op_inv_def)
next
  case (step_payload p c)
  then have "c = (os_ctx s)\<lparr> oc_payload := Some p \<rparr>"
    by (simp add: set_payload_def split: option.splits)
  then show ?thesis
    using assms(2) by (simp add: step_payload(1) op_inv_def)
next
  case (step_finish c thread)
  then have "c = (os_ctx s)\<lparr> oc_status := Finished, oc_thread := None \<rparr>" "thread = oc_thread (os_ctx s)"
    by (simp_all add: finish_def)
  then show ?thesis
    using op_inv_stopped[OF assms(2), of c False] step_finish(1) by simp
next
  case (step_error cause c thread)
  then have "c = (os_ctx s)\<lparr> oc_status := CtxFailed cause, oc_thread := None \<rparr>" "thread = oc_thread (os_ctx s)"
    by (simp_all add: set_error_def)
  then show ?thesis
    using op_inv_stopped[OF assms(2), of c "os_storing s"] step_error(1) by simp
qed

lemma op_inv_reachable: "(op_step {t})\<^sup>*\<^sup>* op_init s \<Longrightarrow> op_inv t s"
  by (induction rule: rtranclp_induct) (auto intro: op_inv_init op_inv_step)



text \<open>
  With two waiting threads a wake-up can be lost: the second overwrites the thread that
  the first registered, so after the result is stored the first thread is parked
  without a token and nothing registered will wake it.
\<close>

lemma second_waiter_loses_wakeup:
  "\<exists>s :: (bool, unit) op_state. (op_step {1, 2})\<^sup>*\<^sup>* op_init s \<and> oc_status (os_ctx s) = Finished \<and>
     os_pc s 1 = Parking \<and> os_token s 1 = False \<and> oc_thread (os_ctx s) = None"
proof -
  let ?c = "new_running :: (bool, unit) OpCtx"
  let ?s1 = "op_init\<lparr> os_ctx := ?c\<lparr> oc_thread := Some 1 \<rparr>, os_pc := (\<lambda>_. Outside)(1 := Parking) \<rparr> :: (bool, unit) op_state"
  let ?s2 = "?s1\<lparr> os_ctx := ?c\<lparr> oc_thread := Some 2 \<rparr>, os_pc := (\<lambda>_. Outside)(1 := Parking, 2 := Parking) \<rparr>"
  let ?s3 = "?s2\<lparr> os_ctx := ?c\<lparr> oc_thread := Some 2, oc_payload := Some True \<rparr>, os_storing := True \<rparr>"
  let ?s4 = "?s3\<lparr> os_ctx := ?c\<lparr> oc_thread := None, oc_payload := Some True, oc_status := Finished \<rparr>,
               os_token := (\<lambda>_. False)(2 := True), os_storing := False \<rparr>"
  have 1: "op_step {1, 2} op_init ?s1"
    using step_wait[of 1 "{1, 2}" "op_init :: (bool, unit) op_state"]
    by (simp add: op_init_def wait_lock_def new_running_def)
  have 2: "op_step {1, 2} ?s1 ?s2"
    using step_wait[of 2 "{1, 2}" ?s1] by (simp add: op_init_def wait_lock_def new_running_def)
  have 3: "op_step {1, 2} ?s2 ?s3"
    using step_payload[of True ?s2] by (simp add: op_init_def set_payload_def new_running_def)
  have 4: "op_step {1, 2} ?s3 ?s4"
    using step_finish[of ?s3] by (simp add: op_init_def finish_def new_running_def unpark_def)
  have r: "(op_step {1, 2})\<^sup>*\<^sup>* op_init ?s1"
    using 1 by (rule r_into_rtranclp)
  have r: "(op_step {1, 2})\<^sup>*\<^sup>* op_init ?s2"
    using r 2 by (rule rtranclp.rtrancl_into_rtrancl)
  have r: "(op_step {1, 2})\<^sup>*\<^sup>* op_init ?s3"
    using r 3 by (rule rtranclp.rtrancl_into_rtrancl)
  have r: "(op_step {1, 2})\<^sup>*\<^sup>* op_init ?s4"
    using r 4 by (rule rtranclp.rtrancl_into_rtrancl)
  show ?thesis
  proof (intro exI conjI)
    show "(op_step {1, 2})\<^sup>*\<^sup>* op_init ?s4"
      by (rule r)
  qed (simp_all add: op_init_def new_running_def)
qed

text \<open>The payload is set once; a later error still changes what waiting returns.\<close>

lemma set_result_twice: "set_result p self = Ok (self', w) \<Longrightarrow> set_result q self' = Err SetCtxResultFailed"
  by (auto simp: set_result_def set_payload_def finish_def split: option.splits)

lemma set_error_after_result:
  "set_result p self = Ok (self', w) \<Longrightarrow>
   wait_result self' = Ok (Some p) \<and> wait_result (fst (set_error cause self')) = Err (Device cause)"
  by (auto simp: set_result_def set_payload_def finish_def set_error_def wait_result_def split: option.splits)

end
