(* ===== verification/Resources.thy ===== *)
theory Resources
  imports Descriptors
begin

text \<open>
  The resources that need no device: the recycled packet buffers of \<^verbatim>\<open>src/buf.rs\<close>, and the
  queue pair contexts and the queue pair numbers of \<^verbatim>\<open>src/qp.rs\<close>.
\<close>

subsection \<open>Packet buffers\<close>

definition RDMA_ACK_BUFFER_SLOT_SIZE :: usize where "RDMA_ACK_BUFFER_SLOT_SIZE = 128"
definition NIC_PACKET_BUFFER_SLOT_SIZE :: usize where "NIC_PACKET_BUFFER_SLOT_SIZE = 4096"

record Slot =
  slot_ptr :: usize
  slot_key :: Key

definition into_sge :: "usize \<Rightarrow> Slot \<Rightarrow> u32 \<Rightarrow> (panic, Sge) result" where
  "into_sge SLOT_SIZE self real_size =
     (if \<not> real_size \<le> ucast SLOT_SIZE then Err Panic
      else Ok \<lparr> sge_addr = slot_ptr self, sge_len = real_size, sge_key = slot_key self \<rparr>)"

record PacketBuf =
  pb_head :: u16
  pb_start_va :: usize
  pb_slot_length :: u16
  pb_lkey :: Key

definition PacketBuf_new :: "usize \<Rightarrow> usize \<Rightarrow> usize \<Rightarrow> Key \<Rightarrow> (panic, PacketBuf) result" where
  "PacketBuf_new SLOT_SIZE start_va len lkey =
     (if len mod SLOT_SIZE \<noteq> 0 then Err Panic
      else Ok \<lparr> pb_head = 0, pb_start_va = start_va, pb_slot_length = ucast (len div SLOT_SIZE), pb_lkey = lkey \<rparr>)"

text \<open>
  The compare-and-exchange loop of \<^verbatim>\<open>recycle_buf\<close>: \<open>stale\<close> are the values that the failing
  exchanges compare with; the exchange that succeeds compares with the head itself. A
  remainder by a slot count of zero panics.
\<close>

fun recycle_loop :: "u16 list \<Rightarrow> PacketBuf \<Rightarrow> (panic, u16 \<times> PacketBuf) result" where
  "recycle_loop [] self =
     (if pb_slot_length self = 0 then Err Panic
      else let prev = pb_head self; next = (prev + 1) mod pb_slot_length self
           in Ok (prev, self\<lparr> pb_head := next \<rparr>))"
| "recycle_loop (_ # stale) self =
     (if pb_slot_length self = 0 then Err Panic else recycle_loop stale self)"

definition recycle_buf :: "usize \<Rightarrow> u16 list \<Rightarrow> PacketBuf \<Rightarrow> (panic, Slot \<times> PacketBuf) result" where
  "recycle_buf SLOT_SIZE stale self =
     result_bind (recycle_loop stale self) (\<lambda>(prev, self).
       Ok (\<lparr> slot_ptr = pb_start_va self + ucast prev * SLOT_SIZE, slot_key = pb_lkey self \<rparr>, self))"

definition get_register_params :: "PacketBuf \<Rightarrow> usize \<times> Key" where
  "get_register_params self = (pb_start_va self, pb_lkey self)"

text \<open>A sequence of calls, each with its failing exchanges.\<close>

fun recycle_many :: "usize \<Rightarrow> u16 list list \<Rightarrow> PacketBuf \<Rightarrow> (panic, Slot list \<times> PacketBuf) result" where
  "recycle_many SLOT_SIZE [] self = Ok ([], self)"
| "recycle_many SLOT_SIZE (stale # stales) self =
     result_bind (recycle_buf SLOT_SIZE stale self) (\<lambda>(slot, self).
       result_bind (recycle_many SLOT_SIZE stales self) (\<lambda>(slots, self). Ok (slot # slots, self)))"

lemma recycle_loop_ok:
  "pb_slot_length self \<noteq> 0 \<Longrightarrow>
   recycle_loop stale self = Ok (pb_head self, self\<lparr> pb_head := (pb_head self + 1) mod pb_slot_length self \<rparr>)"
  by (induction stale) (simp_all add: Let_def)

lemma next_head:
  fixes h n :: u16
  assumes "unat h = k mod unat n" "0 < unat n"
  shows "unat ((h + 1) mod n) = Suc k mod unat n"
proof -
  have "unat h < unat n"
    using assms by simp
  then have "unat (h + 1) = Suc (unat h)"
    using unat_less_two_power[of n] by (subst unat_add_no_wrap) simp_all
  then show ?thesis
    using assms(1) by (simp add: unat_mod_word mod_Suc_eq)
qed

lemma recycle_many_cycle:
  assumes "0 < unat (pb_slot_length self)" "unat (pb_head self) = k mod unat (pb_slot_length self)"
  shows "\<exists>self'. recycle_many S stales self =
    Ok (map (\<lambda>i. \<lparr> slot_ptr = pb_start_va self + of_nat ((k + i) mod unat (pb_slot_length self)) * S,
                    slot_key = pb_lkey self \<rparr>) [0..<length stales], self')"
  using assms
proof (induction stales arbitrary: self k)
  case (Cons stale stales)
  define n where "n = pb_slot_length self"
  define self1 where "self1 = self\<lparr> pb_head := (pb_head self + 1) mod n \<rparr>"
  have n: "n \<noteq> 0"
    using Cons.prems(1) by (auto simp: n_def)
  have h: "unat (pb_head self1) = Suc k mod unat n"
    using next_head[of "pb_head self" k n] Cons.prems by (simp add: self1_def n_def)
  obtain self' where IH: "recycle_many S stales self1 =
      Ok (map (\<lambda>i. \<lparr> slot_ptr = pb_start_va self + of_nat ((Suc k + i) mod unat n) * S, slot_key = pb_lkey self \<rparr>)
        [0..<length stales], self')"
    using Cons.IH[of self1 "Suc k"] Cons.prems(1) h by (auto simp: self1_def n_def)
  have head: "(ucast (pb_head self) :: usize) = of_nat (k mod unat n)"
    by (metis Cons.prems(2) n_def of_nat_unat)
  have "recycle_buf S stale self =
      Ok (\<lparr> slot_ptr = pb_start_va self + of_nat (k mod unat n) * S, slot_key = pb_lkey self \<rparr>, self1)"
    using n by (simp add: recycle_buf_def recycle_loop_ok self1_def n_def head[unfolded n_def])
  with IH show ?case
    by (intro exI[of _ self']) (simp add: map_upt_Suc n_def del: upt_Suc)
qed simp

text \<open>
  The acknowledge buffers are handed out in turn: from a buffer of \<open>n\<close> slots the \<open>i\<close>-th
  call returns slot \<open>i mod n\<close>, whichever exchanges fail on the way, so a slot is
  reused only after all the others, and every slot lies in the buffer.
\<close>

lemma recycle_buf_cycles:
  assumes "PacketBuf_new S va len key = Ok buf" "n = unat len div unat S" "0 < n" "n < 2 ^ 16"
  shows "(\<exists>buf'. recycle_many S stales buf =
      Ok (map (\<lambda>i. \<lparr> slot_ptr = va + of_nat (i mod n) * S, slot_key = key \<rparr>) [0..<length stales], buf')) \<and>
    (i mod n) * unat S + unat S \<le> unat len"
proof
  have buf: "buf = \<lparr> pb_head = 0, pb_start_va = va, pb_slot_length = ucast (len div S), pb_lkey = key \<rparr>"
    using assms(1) by (simp add: PacketBuf_new_def split: if_splits)
  have "unat (len div S) = n"
    using assms(2) by (simp add: unat_div_word)
  then have "unat (pb_slot_length buf) = n"
    using assms(4) by (simp add: buf unsigned_ucast_eq take_bit_eq_mod)
  then show "\<exists>buf'. recycle_many S stales buf =
      Ok (map (\<lambda>i. \<lparr> slot_ptr = va + of_nat (i mod n) * S, slot_key = key \<rparr>) [0..<length stales], buf')"
    using recycle_many_cycle[of buf 0 S stales] assms(3) by (simp add: buf)
  have "Suc (i mod n) * unat S \<le> n * unat S"
    using assms(3) by (intro mult_le_mono1) (simp add: Suc_leI)
  also have "\<dots> \<le> unat len"
    by (simp add: assms(2))
  finally show "(i mod n) * unat S + unat S \<le> unat len"
    by simp
qed

subsection \<open>Queue pair contexts\<close>

definition QP_MAX_CNT :: nat where
  "QP_MAX_CNT = 1024"

datatype QpStatus = Normal | OutOfOrder

fun is_normal :: "QpStatus \<Rightarrow> bool" where
  "is_normal Normal = True"
| "is_normal OutOfOrder = False"

record QpContext =
  qc_pd :: Pd
  qc_qpn :: Qpn
  qc_peer_qpn :: Qpn
  qc_qp_type :: QpType
  qc_rq_acc_flags :: MemAccessTypeFlag
  qc_pmtu :: Pmtu
  qc_local_mac :: MacAddress
  qc_local_ip :: Ipv4Addr
  qc_dqp_ip :: Ipv4Addr
  qc_dqp_mac_addr :: MacAddress
  qc_sending_psn :: Psn
  qc_status :: QpStatus
  qc_next_msn :: u16

definition QpContext_new :: "Qp \<Rightarrow> Ipv4Addr \<Rightarrow> MacAddress \<Rightarrow> QpContext" where
  "QpContext_new qp local_ip local_mac =
     \<lparr> qc_pd = qp_pd qp, qc_qpn = qp_qpn qp, qc_peer_qpn = qp_peer_qpn qp, qc_qp_type = qp_qp_type qp,
       qc_rq_acc_flags = qp_rq_acc_flags qp, qc_pmtu = qp_pmtu qp, qc_local_mac = local_mac, qc_local_ip = local_ip,
       qc_dqp_ip = qp_dqp_ip qp, qc_dqp_mac_addr = qp_dqp_mac qp, qc_sending_psn = psn_new 0,
       qc_status = Normal, qc_next_msn = 0 \<rparr>"

definition next_msn :: "QpContext \<Rightarrow> Msn \<times> QpContext" where
  "next_msn self = (Msn_new (qc_next_msn self), self\<lparr> qc_next_msn := qc_next_msn self + 1 \<rparr>)"

subsection \<open>Queue pair numbers\<close>

type_synonym QpManager = "bool list"

definition QpManager_new :: QpManager where
  "QpManager_new = (replicate QP_MAX_CNT True)[0 := False, 1 := False]"

text \<open>\<^verbatim>\<open>find_map\<close> over the swaps: the first flag that was set is cleared.\<close>

fun alloc_from :: "nat \<Rightarrow> bool list \<Rightarrow> Qpn option \<times> bool list" where
  "alloc_from idx [] = (None, [])"
| "alloc_from idx (n # rest) =
     (if n then (Some (psn_new (of_nat idx)), False # rest)
      else case alloc_from (idx + 1) rest of (r, rest) \<Rightarrow> (r, False # rest))"

definition qp_alloc :: "QpManager \<Rightarrow> (Error, Qpn) result \<times> QpManager" where
  "qp_alloc self =
     (case alloc_from 0 self of (r, self) \<Rightarrow> (ok_or r (ResourceNoAvailable ''QP''), self))"

definition qp_free :: "Qpn \<Rightarrow> QpManager \<Rightarrow> QpManager" where
  "qp_free qpn self =
     (if unat (psn_get qpn) < length self then self[unat (psn_get qpn) := True] else self)"

text \<open>
  The contract of a pool of numbers: \<open>pool\<close> is what can still be handed out. A client that
  gives back only numbers it holds never gets one that is in use.
\<close>

locale id_pool =
  fixes pool :: "'m \<Rightarrow> 'i set"
    and alloc :: "'m \<Rightarrow> ('e, 'i) result \<times> 'm"
    and free :: "'i \<Rightarrow> 'm \<Rightarrow> 'm"
    and valid :: "'m \<Rightarrow> bool"
    and ids :: "'i set"
  assumes alloc_valid: "valid m \<Longrightarrow> valid (snd (alloc m))"
    and free_valid: "valid m \<Longrightarrow> i \<in> ids \<Longrightarrow> valid (free i m)"
    and alloc_Ok: "valid m \<Longrightarrow> alloc m = (Inr i, m') \<Longrightarrow> i \<in> pool m \<and> pool m' = pool m - {i}"
    and alloc_Err: "valid m \<Longrightarrow> alloc m = (Inl e, m') \<Longrightarrow> pool m = {} \<and> pool m' = {}"
    and free_pool: "valid m \<Longrightarrow> i \<in> ids \<Longrightarrow> pool (free i m) = insert i (pool m)"

text \<open>The manager and the numbers that its client holds.\<close>

inductive pool_step ::
  "('m \<Rightarrow> ('e, 'i) result \<times> 'm) \<Rightarrow> ('i \<Rightarrow> 'm \<Rightarrow> 'm) \<Rightarrow> 'm \<times> 'i set \<Rightarrow> 'm \<times> 'i set \<Rightarrow> bool" for alloc free where
  step_alloc: "alloc m = (Inr i, m') \<Longrightarrow> pool_step alloc free (m, held) (m', insert i held)"
| step_fail: "alloc m = (Inl e, m') \<Longrightarrow> pool_step alloc free (m, held) (m', held)"
| step_free: "i \<in> held \<Longrightarrow> pool_step alloc free (m, held) (free i m, held - {i})"

context id_pool
begin

definition pool_inv :: "'m \<times> 'i set \<Rightarrow> bool" where
  "pool_inv s \<longleftrightarrow> valid (fst s) \<and> pool (fst s) \<inter> snd s = {} \<and> pool (fst s) \<union> snd s = ids"

lemma pool_inv_step:
  assumes "pool_step alloc free s s'" "pool_inv s"
  shows "pool_inv s'"
  using assms
proof cases
  case (step_alloc m i m' held)
  then have "valid m'" "i \<in> pool m" "pool m' = pool m - {i}"
    using assms(2) alloc_valid[of m] alloc_Ok[of m i m'] by (auto simp: pool_inv_def)
  then show ?thesis
    using assms(2) step_alloc by (auto simp: pool_inv_def)
next
  case (step_fail m e m' held)
  then have "valid m'" "pool m = {}" "pool m' = {}"
    using assms(2) alloc_valid[of m] alloc_Err[of m e m'] by (auto simp: pool_inv_def)
  then show ?thesis
    using assms(2) step_fail by (auto simp: pool_inv_def)
next
  case (step_free i held m)
  then have "valid (free i m)" "pool (free i m) = insert i (pool m)"
    using assms(2) free_valid[of m i] free_pool[of m i] by (auto simp: pool_inv_def)
  then show ?thesis
    using assms(2) step_free by (auto simp: pool_inv_def)
qed

lemma pool_reachable: "(pool_step alloc free)\<^sup>*\<^sup>* s0 s \<Longrightarrow> pool_inv s0 \<Longrightarrow> pool_inv s"
  by (induction rule: rtranclp_induct) (auto intro: pool_inv_step)

lemma alloc_fresh:
  assumes "(pool_step alloc free)\<^sup>*\<^sup>* (m0, {}) (m, held)" "valid m0" "pool m0 = ids"
  shows "(\<forall>i m'. alloc m = (Inr i, m') \<longrightarrow> i \<in> ids - held) \<and> (\<forall>e m'. alloc m = (Inl e, m') \<longrightarrow> held = ids)"
proof -
  have "pool_inv (m, held)"
    using pool_reachable[OF assms(1)] assms(2,3) by (simp add: pool_inv_def)
  then show ?thesis
    using alloc_Ok[of m] alloc_Err[of m] by (auto simp: pool_inv_def)
qed

end

definition qp_pool :: "QpManager \<Rightarrow> Qpn set" where
  "qp_pool m = {q. unat (psn_get q) < length m \<and> m ! unat (psn_get q)}"

definition qp_ids :: "Qpn set" where
  "qp_ids = {q. 2 \<le> unat (psn_get q) \<and> unat (psn_get q) < QP_MAX_CNT}"

lemma alloc_from_cases:
  obtains (none) "alloc_from idx bs = (None, bs)" "True \<notin> set bs"
  | (some) k where "alloc_from idx bs = (Some (psn_new (of_nat (idx + k))), bs[k := False])" "k < length bs" "bs ! k"
proof (induction bs arbitrary: idx thesis)
  case Nil
  then show ?case
    by simp
next
  case (Cons b bs)
  show ?case
  proof (cases b)
    case True
    then show ?thesis
      using Cons.prems(2)[of 0] by simp
  next
    case b: False
    show ?thesis
    proof (rule Cons.IH[of "idx + 1"])
      assume "alloc_from (idx + 1) bs = (None, bs)" "True \<notin> set bs"
      then show thesis
        using b Cons.prems(1) by simp
    next
      fix k assume "alloc_from (idx + 1) bs = (Some (psn_new (of_nat (idx + 1 + k))), bs[k := False])" "k < length bs" "bs ! k"
      then show thesis
        using b Cons.prems(2)[of "Suc k"] by simp
    qed
  qed
qed

lemma unat_qpn: "k < QP_MAX_CNT \<Longrightarrow> unat (psn_get (psn_new (of_nat k))) = k"
  by (simp add: unat_psn_new unat_of_nat QP_MAX_CNT_def)

lemma qpn_eq_iff: "k < QP_MAX_CNT \<Longrightarrow> q = psn_new (of_nat k) \<longleftrightarrow> unat (psn_get q) = k"
  using unat_qpn[of k] psn_eqI_unat[of q "psn_new (of_nat k)"] by metis

lemma qp_pool_update:
  assumes "length m = QP_MAX_CNT" "k < QP_MAX_CNT"
  shows "qp_pool (m[k := b]) =
    (if b then insert (psn_new (of_nat k)) (qp_pool m) else qp_pool m - {psn_new (of_nat k)})"
proof (rule set_eqI)
  fix q
  show "q \<in> qp_pool (m[k := b]) \<longleftrightarrow>
      q \<in> (if b then insert (psn_new (of_nat k)) (qp_pool m) else qp_pool m - {psn_new (of_nat k)})"
    using assms by (cases "unat (psn_get q) = k") (simp_all add: qp_pool_def qpn_eq_iff)
qed

interpretation qpm: id_pool qp_pool qp_alloc qp_free "\<lambda>m. length m = QP_MAX_CNT" qp_ids
proof
  fix m :: QpManager assume m: "length m = QP_MAX_CNT"
  show "length (snd (qp_alloc m)) = QP_MAX_CNT"
    using m by (cases m rule: alloc_from_cases[of 0]) (simp_all add: qp_alloc_def)
  show "i \<in> qp_pool m \<and> qp_pool m' = qp_pool m - {i}" if "qp_alloc m = (Ok i, m')" for i m'
  proof (cases m rule: alloc_from_cases[of 0])
    case (some k)
    then have "i = psn_new (of_nat k)" "m' = m[k := False]"
      using that by (simp_all add: qp_alloc_def)
    then show ?thesis
      using some m qp_pool_update[of m k False] unat_qpn[of k] by (simp add: qp_pool_def)
  qed (use that in \<open>simp add: qp_alloc_def\<close>)
  show "qp_pool m = {} \<and> qp_pool m' = {}" if "qp_alloc m = (Err e, m')" for e m'
  proof (cases m rule: alloc_from_cases[of 0])
    case none
    then have "m' = m"
      using that by (simp add: qp_alloc_def)
    then show ?thesis
      using none by (auto simp: qp_pool_def) (metis nth_mem)+
  qed (use that in \<open>simp add: qp_alloc_def\<close>)
  fix i assume i: "i \<in> qp_ids"
  show "length (qp_free i m) = QP_MAX_CNT"
    using m by (simp add: qp_free_def)
  have "i = psn_new (of_nat (unat (psn_get i)))"
    using i unat_qpn[of "unat (psn_get i)"] by (intro psn_eqI_unat) (simp add: qp_ids_def)
  then show "qp_pool (qp_free i m) = insert i (qp_pool m)"
    using i m qp_pool_update[of m "unat (psn_get i)" True] by (simp add: qp_free_def qp_ids_def)
qed

lemma qp_pool_new: "qp_pool QpManager_new = qp_ids"
  by (auto simp: qp_pool_def qp_ids_def QpManager_new_def QP_MAX_CNT_def nth_list_update)



text \<open>A client that frees a reserved number gets it back from the next allocation.\<close>

lemma free_reserved:
  assumes "m \<noteq> []"
  shows "fst (qp_alloc (qp_free (psn_new 0) m)) = Ok (psn_new 0)"
  using assms by (cases m) (simp_all add: qp_alloc_def qp_free_def psn_new_def)

end
