(* ===== verification/Retry.thy ===== *)
theory Retry
  imports Scheduler Op_Ctx
begin

text \<open>
  The retry records of \<^verbatim>\<open>src/retry.rs\<close>: the descriptor of every message that is not yet
  acknowledged, with its remaining attempts and its next timeout, the retransmission of
  a range of packets after a negative acknowledgement, and the check for timeouts. The
  current time in milliseconds is an argument. A hash map is an association list in its
  iteration order.
\<close>

type_synonym u128 = "128 word"
type_synonym op_key = "Qpn \<times> Msn"

record RetryContext =
  rt_descriptor :: ToCardWorkRbDesc
  rt_retry_counter :: u32
  rt_next_timeout :: u128
  rt_is_initiative :: bool

record RetryMap =
  rm_max_retry :: u32
  rm_retry_timeout :: u128
  rm_map :: "(op_key \<times> RetryContext) list"

definition psn_addr_offset :: "u64 \<Rightarrow> Pmtu \<Rightarrow> u32 \<Rightarrow> u64" where
  "psn_addr_offset base_addr pmtu psn =
     (if psn = 0 then 0
      else let first_pkt_length = ucast (get_first_packet_max_length base_addr (pmtu_u32 pmtu));
               second_pkt_addr = base_addr + first_pkt_length;
               pmtu = pmtu_u64 pmtu;
               psn = ucast psn;
               next_addr = (psn - 1) * pmtu + second_pkt_addr
           in next_addr - base_addr)"

definition RetryMap_new :: "u32 \<Rightarrow> u128 \<Rightarrow> RetryMap" where
  "RetryMap_new max_retry retry_timeout =
     \<lparr> rm_max_retry = max_retry, rm_retry_timeout = retry_timeout, rm_map = [] \<rparr>"

text \<open>\<open>add\<close> returns whether there already is a record.\<close>

definition retry_add :: "u128 \<Rightarrow> op_key \<Rightarrow> ToCardWorkRbDesc \<Rightarrow> bool \<Rightarrow> RetryMap \<Rightarrow> bool \<times> RetryMap" where
  "retry_add now key descriptor is_initiative self =
     (let next_timeout = now + rm_retry_timeout self
      in case map_of (rm_map self) key of
           None \<Rightarrow> (False, self\<lparr> rm_map :=
             (key, \<lparr> rt_descriptor = descriptor, rt_retry_counter = rm_max_retry self,
                     rt_next_timeout = next_timeout, rt_is_initiative = is_initiative \<rparr>) # rm_map self \<rparr>)
         | Some _ \<Rightarrow> (True, self))"

definition retry_cancel :: "op_key \<Rightarrow> RetryMap \<Rightarrow> bool \<times> RetryMap" where
  "retry_cancel key self =
     (map_of (rm_map self) key = None, self\<lparr> rm_map := filter (\<lambda>e. fst e \<noteq> key) (rm_map self) \<rparr>)"

definition get_descritpor ::
  "op_key \<Rightarrow> (u32 \<times> u32) option \<Rightarrow> RetryMap \<Rightarrow> (Error, ToCardWorkRbDesc option) result" where
  "get_descritpor key psn_range self =
     (case map_of (rm_map self) key of
        None \<Rightarrow> Ok None
      | Some ctx \<Rightarrow>
          (let desc = rt_descriptor ctx
           in case psn_range of
                None \<Rightarrow> Ok (Some desc)
              | Some (from, to) \<Rightarrow>
                  (case desc of
                     CWrite write_desc \<Rightarrow>
                       (let common = cw_common write_desc;
                            sge0 = cw_sge0 write_desc;
                            pmtu = wc_pmtu common;
                            max_pkt = calculate_packet_cnt pmtu (wc_raddr common) (wc_total_len common)
                        in if from > to \<or> from \<ge> max_pkt \<or> to \<ge> max_pkt then Err (Invalid ''Invalid psn range'')
                           else
                             let start_offset = psn_addr_offset (ds_addr sge0) pmtu from;
                                 end_offset = psn_addr_offset (ds_addr sge0) pmtu to;
                                 new_length = end_offset - start_offset
                             in Ok (Some (CWrite (write_desc\<lparr>
                                  cw_is_first := (from = 0),
                                  cw_is_last := (max_pkt - 1 = to),
                                  cw_sge0 := sge0\<lparr> ds_addr := ds_addr sge0 + start_offset, ds_len := ucast new_length \<rparr>,
                                  cw_common := common\<lparr> wc_psn := wrapping_add (wc_psn common) from,
                                    wc_total_len := ucast new_length, wc_raddr := wc_raddr common + start_offset \<rparr> \<rparr>))))
                   | _ \<Rightarrow> Err (Invalid ''Invalid descriptor type''))))"

definition clean_exceed_timeout :: "RetryMap \<Rightarrow> RetryMap" where
  "clean_exceed_timeout self = self\<lparr> rm_map := filter (\<lambda>(_, ctx). rt_retry_counter ctx > 0) (rm_map self) \<rparr>"

record RetryConfig =
  cfg_is_enable :: bool
  cfg_max_retry :: u32
  cfg_retry_timeout :: u128
  cfg_checking_interval :: u128

definition RetryConfig_new :: "bool \<Rightarrow> u32 \<Rightarrow> u128 \<Rightarrow> u128 \<Rightarrow> RetryConfig" where
  "RetryConfig_new is_enable max_retry retry_timeout checking_interval =
     \<lparr> cfg_is_enable = is_enable, cfg_max_retry = max_retry, cfg_retry_timeout = retry_timeout,
       cfg_checking_interval = checking_interval \<rparr>"

record 'h RetryMonitorContext =
  mon_map :: RetryMap
  mon_user_op_ctx_map :: "op_key \<rightharpoonup> (unit, 'h) OpCtx"
  mon_config :: RetryConfig

text \<open>
  The loop of \<^verbatim>\<open>check_timeout\<close> and its body. They return the record, the contexts of the user's
  operations, the descriptors sent (whether sending fails is only logged) and whether
  a record has used up its attempts.
\<close>

definition check_entry ::
  "u128 \<Rightarrow> u128 \<Rightarrow> op_key \<Rightarrow> RetryContext \<Rightarrow> (op_key \<rightharpoonup> (unit, 'h) OpCtx) \<Rightarrow>
   RetryContext \<times> (op_key \<rightharpoonup> (unit, 'h) OpCtx) \<times> ToCardWorkRbDesc list \<times> bool" where
  "check_entry now timeout key ctx ops =
     (if rt_is_initiative ctx \<and> rt_next_timeout ctx \<le> now then
        if rt_retry_counter ctx > 0 then
          (ctx\<lparr> rt_retry_counter := rt_retry_counter ctx - 1, rt_next_timeout := now + timeout \<rparr>,
           ops, [rt_descriptor ctx], False)
        else
          (ctx,
           (case ops key of
              Some user_op_ctx \<Rightarrow> ops(key \<mapsto> fst (set_error ''exceed max retry count'' user_op_ctx))
            | None \<Rightarrow> ops),
           [], True)
      else (ctx, ops, [], False))"

fun check_entries ::
  "u128 \<Rightarrow> u128 \<Rightarrow> (op_key \<times> RetryContext) list \<Rightarrow> (op_key \<rightharpoonup> (unit, 'h) OpCtx) \<Rightarrow>
   (op_key \<times> RetryContext) list \<times> (op_key \<rightharpoonup> (unit, 'h) OpCtx) \<times> ToCardWorkRbDesc list \<times> bool" where
  "check_entries now timeout [] ops = ([], ops, [], False)"
| "check_entries now timeout ((key, ctx) # rest) ops =
     (case check_entry now timeout key ctx ops of
        (ctx, ops, sent, removed) \<Rightarrow>
          (case check_entries now timeout rest ops of
             (rest, ops, sent', removed') \<Rightarrow> ((key, ctx) # rest, ops, sent @ sent', removed \<or> removed')))"

definition check_timeout :: "u128 \<Rightarrow> 'h RetryMonitorContext \<Rightarrow> 'h RetryMonitorContext \<times> ToCardWorkRbDesc list" where
  "check_timeout now self =
     (case check_entries now (cfg_retry_timeout (mon_config self)) (rm_map (mon_map self)) (mon_user_op_ctx_map self) of
        (entries, ops, sent, has_removed) \<Rightarrow>
          (let map = (mon_map self)\<lparr> rm_map := entries \<rparr>
           in (self\<lparr> mon_map := if has_removed then clean_exceed_timeout map else map,
                     mon_user_op_ctx_map := ops \<rparr>, sent)))"

text \<open>The monitor thread: one check per wake-up, at the given times.\<close>

fun retry_monitor :: "u128 list \<Rightarrow> 'h RetryMonitorContext \<Rightarrow> 'h RetryMonitorContext \<times> ToCardWorkRbDesc list" where
  "retry_monitor [] monitor = (monitor, [])"
| "retry_monitor (now # nows) monitor =
     (let (monitor, sent) = check_timeout now monitor;
          (monitor, sent') = retry_monitor nows monitor
      in (monitor, sent @ sent'))"

subsection \<open>The number of attempts\<close>

definition attempts :: "(op_key \<times> RetryContext) list \<Rightarrow> nat" where
  "attempts entries = sum_list (map (\<lambda>e. unat (rt_retry_counter (snd e))) entries)"

lemma attempts_filter: "attempts (filter P entries) \<le> attempts entries"
  by (induction entries) (auto simp: attempts_def)

lemma check_entry_attempts:
  assumes "check_entry now timeout key ctx ops = (ctx', ops', sent, removed)"
  shows "length sent + unat (rt_retry_counter ctx') = unat (rt_retry_counter ctx)"
proof (cases "rt_retry_counter ctx > 0")
  case True
  then have "unat (rt_retry_counter ctx - 1) + 1 = unat (rt_retry_counter ctx)"
    by (simp add: word_less_nat_alt unat_sub_le word_le_nat_alt)
  with assms show ?thesis
    by (auto simp: check_entry_def split: if_splits)
qed (use assms in \<open>auto simp: check_entry_def split: if_splits\<close>)

lemma check_entries_attempts:
  "check_entries now timeout entries ops = (entries', ops', sent, removed) \<Longrightarrow>
   length sent + attempts entries' = attempts entries"
proof (induction entries arbitrary: ops entries' ops' sent removed)
  case (Cons e entries)
  obtain key ctx where e: "e = (key, ctx)"
    by (cases e)
  obtain ctx1 ops1 sent1 r1 where 1: "check_entry now timeout key ctx ops = (ctx1, ops1, sent1, r1)"
    by (cases "check_entry now timeout key ctx ops")
  obtain rest ops2 sent2 r2 where 2: "check_entries now timeout entries ops1 = (rest, ops2, sent2, r2)"
    by (cases "check_entries now timeout entries ops1")
  have "entries' = (key, ctx1) # rest" "sent = sent1 @ sent2"
    using Cons.prems 1 2 by (simp_all add: e)
  then show ?case
    using check_entry_attempts[OF 1] Cons.IH[OF 2] by (simp add: attempts_def e)
qed (simp add: attempts_def)

lemma check_timeout_attempts:
  assumes "check_timeout now self = (self', sent)"
  shows "length sent + attempts (rm_map (mon_map self')) \<le> attempts (rm_map (mon_map self))"
proof -
  obtain entries ops removed where c: "check_entries now (cfg_retry_timeout (mon_config self)) (rm_map (mon_map self))
      (mon_user_op_ctx_map self) = (entries, ops, sent, removed)"
    using assms by (auto simp: check_timeout_def Let_def split: prod.splits)
  then have "rm_map (mon_map self') = entries \<or> rm_map (mon_map self') = filter (\<lambda>(_, ctx). rt_retry_counter ctx > 0) entries"
    using assms by (auto simp: check_timeout_def Let_def clean_exceed_timeout_def)
  then show ?thesis
    using check_entries_attempts[OF c] attempts_filter[of _ entries] by (metis add_le_cancel_left order_refl)
qed


text \<open>The times at which a record falls due, each after the timeout that the check before it set.\<close>

fun due_times :: "u128 \<Rightarrow> u128 \<Rightarrow> u128 list \<Rightarrow> bool" where
  "due_times timeout next [] = True"
| "due_times timeout next (now # nows) \<longleftrightarrow> next \<le> now \<and> due_times timeout (now + timeout) nows"

lemma retry_monitor_counts:
  assumes "mon_map self = \<lparr> rm_max_retry = m, rm_retry_timeout = t, rm_map = [(key, ctx)] \<rparr>"
    and "rt_is_initiative ctx" "unat (rt_retry_counter ctx) = n" "length nows = Suc n"
    and "due_times (cfg_retry_timeout (mon_config self)) (rt_next_timeout ctx) nows"
    and "mon_user_op_ctx_map self key = Some op"
  shows "\<exists>self'. retry_monitor nows self = (self', replicate n (rt_descriptor ctx)) \<and> rm_map (mon_map self') = [] \<and>
    mon_user_op_ctx_map self' key = Some (fst (set_error ''exceed max retry count'' op))"
  using assms
proof (induction n arbitrary: self ctx nows)
  case 0
  then obtain now where nows: "nows = [now]" "rt_next_timeout ctx \<le> now"
    by (cases nows) auto
  have "rt_retry_counter ctx = 0"
    using 0(3) by (simp add: unat_eq_zero)
  then show ?case
    using 0 nows by (simp add: check_timeout_def check_entry_def clean_exceed_timeout_def Let_def)
next
  case (Suc n)
  then obtain now rest where nows: "nows = now # rest" "rt_next_timeout ctx \<le> now" "length rest = Suc n"
      "due_times (cfg_retry_timeout (mon_config self)) (now + cfg_retry_timeout (mon_config self)) rest"
    by (cases nows) auto
  define ctx1 where "ctx1 = ctx\<lparr> rt_retry_counter := rt_retry_counter ctx - 1,
    rt_next_timeout := now + cfg_retry_timeout (mon_config self) \<rparr>"
  define self1 where "self1 = self\<lparr> mon_map := \<lparr> rm_max_retry = m, rm_retry_timeout = t, rm_map = [(key, ctx1)] \<rparr> \<rparr>"
  have pos: "0 < rt_retry_counter ctx"
    using Suc.prems(3) by (simp add: word_less_nat_alt)
  have step: "check_timeout now self = (self1, [rt_descriptor ctx])"
    using Suc.prems(1,2) nows(2) pos
    by (simp add: check_timeout_def check_entry_def Let_def self1_def ctx1_def)
  have "unat (rt_retry_counter ctx1) = n"
    using pos Suc.prems(3) by (simp add: ctx1_def unat_sub_le word_le_nat_alt word_less_nat_alt)
  then obtain self2 where "retry_monitor rest self1 = (self2, replicate n (rt_descriptor ctx1))" "rm_map (mon_map self2) = []"
      "mon_user_op_ctx_map self2 key = Some (fst (set_error ''exceed max retry count'' op))"
    using Suc.IH[of self1 ctx1 rest] Suc.prems(2,6) nows by (auto simp: self1_def ctx1_def)
  with step nows(1) show ?case
    by (simp add: ctx1_def)
qed


definition sample_monitor :: "RetryMap \<Rightarrow> unit RetryMonitorContext" where
  "sample_monitor m =
     \<lparr> mon_map = m, mon_user_op_ctx_map = (\<lambda>_. Some new_running), mon_config = RetryConfig_new True 2 100 1 \<rparr>"

definition sample_work :: ToCardWorkRbDesc where
  "sample_work = CRead \<lparr> cr_common = ToCardWorkRbDescCommon_default, cr_sge = DescSge_default \<rparr>"


text \<open>
  A record is dropped without a word when another one is exhausted: the clean-up removes
  every record whose attempts are used up, also one whose last retransmission has not
  timed out yet. Its message is not retransmitted again and its operation is left
  running, so a thread that waits for it is never told.
\<close>

lemma retry_record_dropped:
  assumes "rm_map (mon_map self) = [(k1, c1), (k2, c2)]" "k1 \<noteq> k2"
    and "rt_is_initiative c1" "rt_next_timeout c1 \<le> now" "rt_retry_counter c1 = 0"
    and "now < rt_next_timeout c2" "rt_retry_counter c2 = 0"
  shows "rm_map (mon_map (fst (check_timeout now self))) = [] \<and> snd (check_timeout now self) = [] \<and>
    mon_user_op_ctx_map (fst (check_timeout now self)) k2 = mon_user_op_ctx_map self k2"
proof -
  have "\<not> rt_next_timeout c2 \<le> now"
    using assms(6) by simp
  with assms show ?thesis
    by (simp add: check_timeout_def check_entry_def clean_exceed_timeout_def Let_def split: option.splits)
qed

subsection \<open>Retransmitting a range\<close>

lemma sum_take_aligned:
  "0 < pm \<Longrightarrow> va mod pm = 0 \<Longrightarrow> n < length (chunk_lens pm va len) \<Longrightarrow> sum_list (take n (chunk_lens pm va len)) = n * pm"
proof (induction n arbitrary: va len)
  case (Suc n)
  have len: "0 < len"
    using Suc.prems(3) by (cases "len = 0") simp_all
  let ?rest = "chunk_lens pm (va + min len pm) (len - min len pm)"
  have step: "chunk_lens pm va len = min len pm # ?rest"
    using chunk_lens_step[OF Suc.prems(1) len, of va] Suc.prems(2) by simp
  then have n: "n < length ?rest"
    using Suc.prems(3) by simp
  then have "pm \<le> len"
    by (cases "len \<le> pm") auto
  moreover have "(va + pm) mod pm = 0"
    using Suc.prems(2) by simp
  ultimately show ?case
    using Suc.IH[of "va + pm" "len - pm"] Suc.prems(1) n by (simp only: step) (simp add: min_absorb2)
qed simp

lemma sum_take_chunks:
  assumes "0 < pm" "0 < n" "n < length (chunk_lens pm va len)"
  shows "sum_list (take n (chunk_lens pm va len)) = pm - va mod pm + (n - 1) * pm"
proof -
  have len: "0 < len"
    using assms(3) by (cases "len = 0") simp_all
  let ?k = "pm - va mod pm"
  let ?rest = "chunk_lens pm (va + min len ?k) (len - min len ?k)"
  have step: "chunk_lens pm va len = min len ?k # ?rest"
    by (rule chunk_lens_step[OF assms(1) len])
  then have n: "n - 1 < length ?rest"
    using assms(2,3) by (cases n) simp_all
  then have k: "?k \<le> len"
    by (cases "len \<le> ?k") auto
  have "sum_list (take (n - 1) (chunk_lens pm (va + ?k) (len - ?k))) = (n - 1) * pm"
    using sum_take_aligned[OF assms(1) add_to_multiple[OF assms(1)], of "n - 1" va "len - ?k"] n k by (simp add: min_absorb2)
  then show ?thesis
    using assms(2) k by (cases n) (simp_all add: step min_absorb2)
qed

lemma psn_addr_offset_chunks:
  assumes "unat n < length (chunk_lens (unat (pmtu_u32 m)) (unat base) len)"
  shows "psn_addr_offset base m n = of_nat (sum_list (take (unat n) (chunk_lens (unat (pmtu_u32 m)) (unat base) len)))"
proof (cases "n = 0")
  case False
  let ?pm = "unat (pmtu_u32 m)"
  have pm: "0 < ?pm" "pmtu_u64 m = of_nat ?pm"
    by (cases m; simp)+
  have n: "0 < unat n"
    using False by (simp add: unat_gt_0)
  have "(ucast (get_first_packet_max_length base (pmtu_u32 m)) :: u64) = of_nat (?pm - unat base mod ?pm)"
    by (metis of_nat_unat unat_get_first_packet_max_length)
  moreover have "(ucast n :: u64) - 1 = of_nat (unat n - 1)"
    using n by (metis of_nat_1 of_nat_diff of_nat_unat Suc_leI One_nat_def)
  ultimately show ?thesis
    using False sum_take_chunks[OF pm(1) n assms] by (simp add: psn_addr_offset_def Let_def pm(2))
qed (simp add: psn_addr_offset_def)

lemma sum_take_diff:
  fixes xs :: "nat list"
  assumes "i \<le> j"
  shows "sum_list (take j xs) = sum_list (take i xs) + sum_list (take (j - i) (drop i xs))"
  using take_add[of i "j - i" xs] assms by simp

lemma sum_take_le: "sum_list (take i xs) \<le> sum_list xs" for xs :: "nat list"
  by (induction xs arbitrary: i) (auto simp: take_Cons split: nat.splits)

lemma length_chunk_lens_le:
  assumes "0 < pm"
  shows "length (chunk_lens pm va len) \<le> len"
proof -
  have "length xs \<le> sum_list xs" if "\<forall>x\<in>set xs. 0 < x" for xs :: "nat list"
    using that by (induction xs) auto
  moreover have "\<forall>x\<in>set (chunk_lens pm va len). 0 < x"
    using pmtu_chunks_one_page[OF assms] by auto
  ultimately have "length (chunk_lens pm va len) \<le> sum_list (chunk_lens pm va len)"
    by blast
  then show ?thesis
    by (simp add: sum_pmtu_chunks[OF assms])
qed

lemma length_chunk_lens_u32:
  assumes "0 < pm"
  shows "unat (of_nat (length (chunk_lens pm va (unat (len :: u32)))) :: u32) = length (chunk_lens pm va (unat len))"
  using length_chunk_lens_le[OF assms, of va "unat len"] unat_less_two_power[of len] by (simp add: unat_of_nat)

lemma psn_range_length:
  assumes "lens = chunk_lens (unat (pmtu_u32 m)) (unat base) (unat (tlen :: u32))"
    and "from \<le> to" "unat to < length lens"
  shows "unat (ucast (psn_addr_offset base m to - psn_addr_offset base m from) :: u32) =
    sum_list (take (unat to - unat from) (drop (unat from) lens))"
proof -
  have pm: "0 < unat (pmtu_u32 m)"
    using pmtu_u32_cases[of m] by auto
  have ft: "unat from \<le> unat to"
    using assms(2) by (simp add: word_le_nat_alt)
  let ?n = "sum_list (take (unat to - unat from) (drop (unat from) lens))"
  have "psn_addr_offset base m from = of_nat (sum_list (take (unat from) lens))"
      "psn_addr_offset base m to = of_nat (sum_list (take (unat to) lens))"
    using psn_addr_offset_chunks[of "from" m base "unat tlen"] psn_addr_offset_chunks[of "to" m base "unat tlen"] assms(1,3) ft
    by simp_all
  then have diff: "psn_addr_offset base m to - psn_addr_offset base m from = of_nat ?n"
    by (simp add: sum_take_diff[OF ft, of lens])
  have "?n \<le> sum_list lens"
    using sum_take_diff[OF ft, of lens] sum_take_le[of "unat to" lens] by linarith
  also have "\<dots> < 2 ^ 32"
    using sum_pmtu_chunks[OF pm] unat_less_two_power[of tlen] assms(1) by simp
  finally show ?thesis
    unfolding diff by (simp add: unsigned_ucast_eq unat_of_nat take_bit_eq_mod)
qed

text \<open>
  What a negative acknowledgement for the packets \<open>from\<close> to \<open>to\<close> retransmits: when the local
  and the remote buffer lie alike in their MTU pages, the descriptor is cut to start
  exactly at packet \<open>from\<close>, with its sequence number, and to hold the packets from \<open>from\<close> up
  to but not including \<open>to\<close>. The packet \<open>to\<close>, the last of the reported gap, is left out;
  for a gap of one packet the descriptor is empty.
\<close>

lemma get_descritpor_range:
  assumes "map_of (rm_map self) key = Some ctx" "rt_descriptor ctx = CWrite d"
    and "lens = chunk_lens (unat (pmtu_u32 (wc_pmtu (cw_common d)))) (unat (ds_addr (cw_sge0 d))) (unat (wc_total_len (cw_common d)))"
    and "unat (ds_addr (cw_sge0 d)) mod unat (pmtu_u32 (wc_pmtu (cw_common d))) =
      unat (wc_raddr (cw_common d)) mod unat (pmtu_u32 (wc_pmtu (cw_common d)))"
    and "from \<le> to" "unat to < length lens"
  shows "\<exists>d'. get_descritpor key (Some (from, to)) self = Ok (Some (CWrite d')) \<and>
    ds_addr (cw_sge0 d') = ds_addr (cw_sge0 d) + of_nat (sum_list (take (unat from) lens)) \<and>
    wc_raddr (cw_common d') = wc_raddr (cw_common d) + of_nat (sum_list (take (unat from) lens)) \<and>
    unat (ds_len (cw_sge0 d')) = sum_list (take (unat to - unat from) (drop (unat from) lens)) \<and>
    wc_psn (cw_common d') = wrapping_add (wc_psn (cw_common d)) from \<and>
    (cw_is_first d' = (from = 0)) \<and> (cw_is_last d' = (unat to + 1 = length lens))"
proof -
  let ?c = "cw_common d" and ?sge = "cw_sge0 d"
  let ?pm = "unat (pmtu_u32 (wc_pmtu ?c))" and ?total = "unat (wc_total_len ?c)"
  have pm: "0 < ?pm"
    using pmtu_u32_cases[of "wc_pmtu ?c"] by auto
  have total: "0 < ?total"
    using assms(3,6) by (cases "?total = 0") simp_all
  have "length lens = length (chunk_lens ?pm (unat (wc_raddr ?c)) ?total)"
    unfolding assms(3) chunk_lens_mod[OF assms(4)] ..
  then have cnt: "calculate_packet_cnt (wc_pmtu ?c) (wc_raddr ?c) (wc_total_len ?c) = of_nat (length lens)"
    by (simp only: calculate_packet_cnt_lens[OF total])
  have ucnt: "unat (of_nat (length lens) :: u32) = length lens"
    unfolding assms(3) by (rule length_chunk_lens_u32[OF pm])
  have ft: "unat from \<le> unat to"
    using assms(5) by (simp add: word_le_nat_alt)
  have start: "psn_addr_offset (ds_addr ?sge) (wc_pmtu ?c) from = of_nat (sum_list (take (unat from) lens))"
    using psn_addr_offset_chunks[of "from" "wc_pmtu ?c" "ds_addr ?sge" ?total] assms(3,6) ft by simp
  have ok: "\<not> (from > to \<or> from \<ge> of_nat (length lens) \<or> to \<ge> of_nat (length lens))"
    using assms(5,6) ft ucnt by (simp add: word_le_nat_alt word_less_nat_alt)
  have "0 < length lens"
    using assms(6) by linarith
  then have "(1 :: u32) \<le> of_nat (length lens)"
    using ucnt by (simp add: word_le_nat_alt Suc_leI)
  then have "unat (of_nat (length lens) - 1 :: u32) = length lens - 1"
    by (simp add: unat_sub_le ucnt)
  then have last_iff: "of_nat (length lens) - 1 = to \<longleftrightarrow> unat to + 1 = length lens"
    using \<open>0 < length lens\<close> unfolding word_unat_eq_iff by linarith
  show ?thesis
    using start psn_range_length[OF assms(3,5,6)] last_iff
    unfolding get_descritpor_def assms(1,2) Let_def option.case prod.case ToCardWorkRbDesc.case cnt if_not_P[OF ok]
    by simp
qed

end
