(* ===== verification/Responser.thy ===== *)
theory Responser
  imports Host_Descriptors Resources
begin

unbundle bit_operations_syntax

text \<open>
  Acknowledgements and read responses, \<^verbatim>\<open>src/responser.rs\<close>: the packet of an acknowledgement
  is written byte by byte into a slot of the packet buffer, with the checksum of its
  IPv4 header and its invariant CRC, and a descriptor that sends it is built. The CRC
  function of the \<^verbatim>\<open>crc32fast\<close> crate is the parameter \<open>crc32\<close>, applied to the
  concatenation of the chunks given to the hasher.
\<close>

subsection \<open>Constants\<close>

definition MAC_HEADER_SIZE :: nat where "MAC_HEADER_SIZE = 14"
definition IPV4_HEADER_SIZE :: nat where "IPV4_HEADER_SIZE = 20"
definition UDP_HEADER_SIZE :: nat where "UDP_HEADER_SIZE = 8"
definition BTH_HEADER_SIZE :: nat where "BTH_HEADER_SIZE = 12"
definition IPV4_UDP_BTH_HEADER_SIZE :: nat where
  "IPV4_UDP_BTH_HEADER_SIZE = IPV4_HEADER_SIZE + UDP_HEADER_SIZE + BTH_HEADER_SIZE"
definition AETH_HEADER_SIZE :: nat where "AETH_HEADER_SIZE = 4"
definition NRETH_HEADER_SIZE :: nat where "NRETH_HEADER_SIZE = 4"
definition ICRC_SIZE :: nat where "ICRC_SIZE = 4"
definition ACKPACKET_SIZE_WITHOUT_MAC_AND_IPV4 :: nat where
  "ACKPACKET_SIZE_WITHOUT_MAC_AND_IPV4 =
     UDP_HEADER_SIZE + BTH_HEADER_SIZE + AETH_HEADER_SIZE + NRETH_HEADER_SIZE + ICRC_SIZE"
definition ACKPACKET_SIZE_WITHOUT_MAC :: nat where
  "ACKPACKET_SIZE_WITHOUT_MAC = IPV4_HEADER_SIZE + ACKPACKET_SIZE_WITHOUT_MAC_AND_IPV4"
definition ACKPACKET_SIZE :: nat where
  "ACKPACKET_SIZE = MAC_HEADER_SIZE + ACKPACKET_SIZE_WITHOUT_MAC"

definition MAC_SERVICE_LAYER_IPV4 :: u16 where "MAC_SERVICE_LAYER_IPV4 = 8"
definition IP_DEFAULT_VERSION_AND_LEN :: u8 where "IP_DEFAULT_VERSION_AND_LEN = 0x45"
definition IP_DEFAULT_TTL :: u8 where "IP_DEFAULT_TTL = 64"
definition IP_DEFAULT_PROTOCOL :: u8 where "IP_DEFAULT_PROTOCOL = 17"
definition RDMA_DEFAULT_PORT :: u16 where "RDMA_DEFAULT_PORT = 4791"

lemmas size_defs = MAC_HEADER_SIZE_def IPV4_HEADER_SIZE_def UDP_HEADER_SIZE_def BTH_HEADER_SIZE_def
  IPV4_UDP_BTH_HEADER_SIZE_def AETH_HEADER_SIZE_def NRETH_HEADER_SIZE_def ICRC_SIZE_def
  ACKPACKET_SIZE_WITHOUT_MAC_AND_IPV4_def ACKPACKET_SIZE_WITHOUT_MAC_def ACKPACKET_SIZE_def

subsection \<open>Checksum of the IPv4 header\<close>

definition checksum_word :: "u8 list \<Rightarrow> nat \<Rightarrow> u16" where
  "checksum_word header i =
     (if i + 1 < length header then push_bit 8 (ucast (header ! i)) OR ucast (header ! (i + 1))
      else push_bit 8 (ucast (header ! i)))"

text \<open>The loop over every second index of the header, which panics at the end of a short one.\<close>

fun checksum_sum :: "u8 list \<Rightarrow> nat list \<Rightarrow> u32 \<Rightarrow> (panic, u32) result" where
  "checksum_sum header [] acc = Ok acc"
| "checksum_sum header (i # idxs) acc =
     (if length header \<le> i then Err Panic
      else checksum_sum header idxs (acc + ucast (checksum_word header i)))"

definition checksum_idxs :: "nat list" where
  "checksum_idxs = map ((*) 2) [0..<IPV4_HEADER_SIZE div 2]"

lemma unat_high_low:
  "unat (drop_bit 16 (s :: u32)) = unat s div 65536" "unat (s AND 0xFFFF) = unat s mod 65536"
proof -
  show "unat (drop_bit 16 s) = unat s div 65536"
    by (simp add: drop_bit_eq_div unat_div_word)
  have "(0xFFFF :: u32) = mask 16"
    by (simp add: mask_eq_exp_minus_1)
  then show "unat (s AND 0xFFFF) = unat s mod 65536"
    by (simp only: unat_and_mask) simp
qed

lemma unat_fold_step:
  "unat ((s AND 0xFFFF) + drop_bit 16 s) = unat s mod 65536 + unat s div 65536" for s :: u32
  using unat_less_two_power[of s] by (subst unat_add_no_wrap) (simp_all add: unat_high_low)

lemma fold_step_less:
  assumes "drop_bit 16 s \<noteq> (0 :: u32)"
  shows "unat ((s AND 0xFFFF) + drop_bit 16 s) < unat s"
proof -
  have "0 < unat s div 65536"
    using assms unat_high_low(1)[of s] by (metis gr_zeroI unat_eq_zero)
  moreover have "unat s = unat s div 65536 * 65536 + unat s mod 65536"
    by simp
  ultimately show ?thesis
    unfolding unat_fold_step by linarith
qed

function fold_carry :: "u32 \<Rightarrow> u32" where
  "fold_carry acc =
     (if drop_bit 16 acc \<noteq> 0 then fold_carry ((acc AND 0xFFFF) + drop_bit 16 acc) else acc)"
  by auto

termination
  by (relation "measure unat") (simp_all add: fold_step_less)

declare fold_carry.simps [simp del]

definition calculate_ipv4_checksum :: "u8 list \<Rightarrow> (panic, u16) result" where
  "calculate_ipv4_checksum header =
     result_bind (checksum_sum header checksum_idxs 0) (\<lambda>acc. Ok (ucast (NOT (fold_carry acc))))"

subsection \<open>The packet\<close>

definition mac_to_be64 :: "MacAddress \<Rightarrow> u64" where
  "mac_to_be64 mac =
     ucast (mac ! 0) OR push_bit 8 (ucast (mac ! 1)) OR push_bit 16 (ucast (mac ! 2)) OR
     push_bit 24 (ucast (mac ! 3)) OR push_bit 32 (ucast (mac ! 4)) OR push_bit 40 (ucast (mac ! 5))"

text \<open>Setters of the header that starts at byte \<open>off\<close> of the packet.\<close>

definition header_at :: "nat \<Rightarrow> (field \<times> u64) list \<Rightarrow> (field \<times> u64) list" where
  "header_at off fs = map (\<lambda>(f, v). (at_byte off f, v)) fs"

definition mac_setters :: "MacAddress \<Rightarrow> MacAddress \<Rightarrow> (field \<times> u64) list" where
  "mac_setters src_mac dst_mac =
     [(Mac_src_mac_addr, mac_to_be64 src_mac), (Mac_dst_mac_addr, mac_to_be64 dst_mac),
      (Mac_network_layer_type, ucast MAC_SERVICE_LAYER_IPV4)]"

definition ip_setters :: "Ipv4Addr \<Rightarrow> Ipv4Addr \<Rightarrow> (field \<times> u64) list" where
  "ip_setters src_ip dst_ip =
     [(Ipv4_version_and_len, ucast IP_DEFAULT_VERSION_AND_LEN), (Ipv4_dscp_ecn, 0),
      (Ipv4_total_length, push_bit 8 (of_nat ACKPACKET_SIZE_WITHOUT_MAC)), (Ipv4_identification, 0x27),
      (Ipv4_fragment_offset, 0), (Ipv4_ttl, ucast IP_DEFAULT_TTL), (Ipv4_protocol, ucast IP_DEFAULT_PROTOCOL),
      (Ipv4_source, ucast (u32_to_be src_ip)), (Ipv4_destination, ucast (u32_to_be dst_ip)), (Ipv4_checksum, 0)]"

definition udp_setters :: "(field \<times> u64) list" where
  "udp_setters =
     [(Udp_src_port, ucast (u16_to_be RDMA_DEFAULT_PORT)), (Udp_dst_port, ucast (u16_to_be RDMA_DEFAULT_PORT)),
      (Udp_length, ucast (u16_to_be (of_nat ACKPACKET_SIZE_WITHOUT_MAC_AND_IPV4))), (Udp_checksum, 0)]"

definition bth_setters :: "Qpn \<Rightarrow> Psn \<Rightarrow> (field \<times> u64) list" where
  "bth_setters dqpn psn =
     [(Bth_opcode, ucast (ToHostWorkRbDescOpcode_discr Acknowledge)), (Bth_pad_count, 0), (Bth_pkey, 0),
      (Bth_ecn_and_resv6, 0), (Bth_dqpn, ucast (into_be dqpn)), (Bth_psn, ucast (into_be psn))]"

definition aeth_setters :: "bool \<Rightarrow> Msn \<Rightarrow> (field \<times> u64) list" where
  "aeth_setters is_nak msn =
     [(Aeth_aeth_code, ucast (ToHostWorkRbDescAethCode_discr (if is_nak then AethNak else AethAck))),
      (Aeth_aeth_value, 0), (Aeth_msn, ucast (Msn_into_be msn))]"

definition nreth_setters :: "Psn option \<Rightarrow> (field \<times> u64) list" where
  "nreth_setters expected_psn =
     [(NReth_last_retry_psn, (case expected_psn of Some psn \<Rightarrow> ucast (into_be psn) | None \<Rightarrow> 0))]"

definition calculate_icrc :: "(u8 list \<Rightarrow> u32) \<Rightarrow> u8 list \<Rightarrow> (panic, u32) result" where
  "calculate_icrc crc32 data =
     (if length data < IPV4_UDP_BTH_HEADER_SIZE + ICRC_SIZE then Err Panic
      else result_bind
        (set_fields ([(Ipv4_dscp_ecn, 0xff), (Ipv4_ttl, 0xff), (Ipv4_checksum, 0xffff)] @
           header_at IPV4_HEADER_SIZE [(Udp_checksum, 0xffff)] @
           header_at (IPV4_HEADER_SIZE + UDP_HEADER_SIZE) [(Bth_ecn_and_resv6, 0xff)])
           (take IPV4_UDP_BTH_HEADER_SIZE data)) (\<lambda>buf.
          Ok (crc32 (replicate 8 0xff @ buf @
            take (length data - ICRC_SIZE - IPV4_UDP_BTH_HEADER_SIZE) (drop IPV4_UDP_BTH_HEADER_SIZE data)))))"

definition write_packet ::
  "(u8 list \<Rightarrow> u32) \<Rightarrow> u8 list \<Rightarrow> MacAddress \<times> Ipv4Addr \<Rightarrow> MacAddress \<times> Ipv4Addr \<Rightarrow> Qpn \<Rightarrow> Msn \<Rightarrow> Psn \<Rightarrow>
   Psn option \<Rightarrow> (panic, u8 list) result" where
  "write_packet crc32 buf src dst dqpn msg_seq_num psn expected_psn =
     (if length buf < ACKPACKET_SIZE then Err Panic
      else let (packet, rest) = (take ACKPACKET_SIZE buf, drop ACKPACKET_SIZE buf);
               ip = MAC_HEADER_SIZE;
               udp = MAC_HEADER_SIZE + IPV4_HEADER_SIZE;
               bth = MAC_HEADER_SIZE + IPV4_HEADER_SIZE + UDP_HEADER_SIZE;
               aeth = MAC_HEADER_SIZE + IPV4_HEADER_SIZE + UDP_HEADER_SIZE + BTH_HEADER_SIZE;
               nreth = MAC_HEADER_SIZE + IPV4_HEADER_SIZE + UDP_HEADER_SIZE + BTH_HEADER_SIZE + AETH_HEADER_SIZE
           in result_bind (set_fields (mac_setters (fst src) (fst dst) @ header_at ip (ip_setters (snd src) (snd dst))) packet)
             (\<lambda>packet. result_bind (calculate_ipv4_checksum (drop ip packet)) (\<lambda>checksum.
              result_bind (set_fields (header_at ip [(Ipv4_checksum, ucast (u16_to_be checksum))] @
                header_at udp udp_setters @ header_at bth (bth_setters dqpn psn) @
                header_at aeth (aeth_setters (expected_psn \<noteq> None) msg_seq_num) @
                header_at nreth (nreth_setters expected_psn)) packet) (\<lambda>packet.
              result_bind (calculate_icrc crc32 (drop MAC_HEADER_SIZE packet)) (\<lambda>icrc.
                Ok (take (ACKPACKET_SIZE - ICRC_SIZE) packet @ u32_to_le_bytes icrc @ rest))))))"

subsection \<open>Descriptors\<close>

text \<open>The slot is given with the bytes it points to; the result has the bytes written.\<close>

definition make_ack_or_nack ::
  "(u8 list \<Rightarrow> u32) \<Rightarrow> Slot \<Rightarrow> u8 list \<Rightarrow> (Qpn \<rightharpoonup> QpContext) \<Rightarrow> Qpn \<Rightarrow> Msn \<Rightarrow> Psn \<Rightarrow> Psn option \<Rightarrow>
   (panic, (Error, ToCardWorkRbDesc) result \<times> u8 list) result" where
  "make_ack_or_nack crc32 ack_buf bytes qp_table qpn msn psn expected_psn =
     (case qp_table qpn of
        None \<Rightarrow> Ok (Err (Invalid ''QP''), bytes)
      | Some qp \<Rightarrow>
          (let common = \<lparr> wc_total_len = of_nat ACKPACKET_SIZE, wc_raddr = 0, wc_rkey = Key 0, wc_dqp_ip = qc_dqp_ip qp,
                           wc_dqpn = qpn, wc_mac_addr = qc_dqp_mac_addr qp, wc_pmtu = qc_pmtu qp, wc_flags = 0,
                           wc_qp_type = RawPacket, wc_psn = ThreeBytesStruct 0, wc_msn = msn \<rparr>
           in result_bind (write_packet crc32 bytes (qc_local_mac qp, qc_local_ip qp) (qc_dqp_mac_addr qp, qc_dqp_ip qp)
                qpn msn psn expected_psn) (\<lambda>bytes.
              result_bind (into_sge RDMA_ACK_BUFFER_SLOT_SIZE ack_buf (of_nat ACKPACKET_SIZE)) (\<lambda>sge.
                Ok (build (with_imm (Imm 0) (with_sge sge (with_common common (Builder_new CoWriteWithImm)))), bytes)))))"

definition make_ack ::
  "(u8 list \<Rightarrow> u32) \<Rightarrow> Slot \<Rightarrow> u8 list \<Rightarrow> (Qpn \<rightharpoonup> QpContext) \<Rightarrow> Qpn \<Rightarrow> Msn \<Rightarrow> Psn \<Rightarrow>
   (panic, (Error, ToCardWorkRbDesc) result \<times> u8 list) result" where
  "make_ack crc32 ack_buf bytes qp_table qpn msn psn = make_ack_or_nack crc32 ack_buf bytes qp_table qpn msn psn None"

definition make_nack ::
  "(u8 list \<Rightarrow> u32) \<Rightarrow> Slot \<Rightarrow> u8 list \<Rightarrow> (Qpn \<rightharpoonup> QpContext) \<Rightarrow> Qpn \<Rightarrow> Msn \<Rightarrow> Psn \<Rightarrow> Psn \<Rightarrow>
   (panic, (Error, ToCardWorkRbDesc) result \<times> u8 list) result" where
  "make_nack crc32 ack_buf bytes qp_table qpn msn start_psn end_psn =
     make_ack_or_nack crc32 ack_buf bytes qp_table qpn msn start_psn (Some end_psn)"

text \<open>The read response takes its sequence numbers from the queue pair, which moves on.\<close>

definition make_read_resp ::
  "ToHostWorkRbDescRead \<Rightarrow> (Qpn \<rightharpoonup> QpContext) \<Rightarrow> (Error, ToCardWorkRbDesc) result \<times> (Qpn \<rightharpoonup> QpContext)" where
  "make_read_resp read_req qp_table =
     (let dqpn = hw_dqpn (hr_common read_req)
      in case qp_table dqpn of
           None \<Rightarrow> (Err (Invalid ''QP''), qp_table)
         | Some qp \<Rightarrow>
             (let packet_cnt = calculate_packet_cnt (qc_pmtu qp) (hr_raddr read_req) (hr_len read_req);
                  first_pkt_psn = qc_sending_psn qp;
                  common = \<lparr> wc_total_len = hr_len read_req, wc_raddr = hr_raddr read_req, wc_rkey = hr_rkey read_req,
                              wc_dqp_ip = qc_dqp_ip qp, wc_dqpn = dqpn, wc_mac_addr = qc_dqp_mac_addr qp,
                              wc_pmtu = qc_pmtu qp, wc_flags = 0, wc_qp_type = qc_qp_type qp,
                              wc_psn = first_pkt_psn, wc_msn = hw_msn (hr_common read_req) \<rparr>;
                  sge = \<lparr> sge_addr = hr_laddr read_req, sge_len = hr_len read_req, sge_key = hr_lkey read_req \<rparr>
              in (build (with_sge sge (with_common common (Builder_new CoReadResp))),
                  qp_table(dqpn \<mapsto> qp\<lparr> qc_sending_psn := wrapping_add first_pkt_psn packet_cnt \<rparr>))))"

subsection \<open>The checksum verifies\<close>

lemma fold_carry_spec:
  "unat (fold_carry s) \<le> 65535 \<and> unat (fold_carry s) mod 65535 = unat s mod 65535 \<and> (fold_carry s = 0 \<longleftrightarrow> s = 0)"
proof (induction s rule: fold_carry.induct)
  case (1 s)
  show ?case
  proof (cases "drop_bit 16 s = 0")
    case True
    then have "unat s div 65536 = 0"
      using unat_high_low(1)[of s] by simp
    then have "unat s \<le> 65535"
      by (simp add: div_eq_0_iff)
    with True show ?thesis
      by (simp add: fold_carry.simps)
  next
    case False
    let ?s = "(s AND 0xFFFF) + drop_bit 16 s"
    have "unat s = unat s div 65536 * 65536 + unat s mod 65536"
      by simp
    then have "unat s = unat ?s + unat s div 65536 * 65535"
      unfolding unat_fold_step by linarith
    then have "unat ?s mod 65535 = unat s mod 65535"
      by (metis mod_mult_self1)
    moreover have "?s = 0 \<longleftrightarrow> s = 0"
    proof
      assume "?s = 0"
      then have "unat s mod 65536 + unat s div 65536 = 0"
        using unat_fold_step[of s] by simp
      then show "s = 0"
        using False unat_high_low(1)[of s] by (simp add: unat_eq_zero)
    qed simp
    moreover have "fold_carry s = fold_carry ?s"
      using False by (subst fold_carry.simps) simp
    ultimately show ?thesis
      using 1[OF False] by simp
  qed
qed

definition csum :: "u8 list \<Rightarrow> nat" where
  "csum header = sum_list (map (\<lambda>i. unat (checksum_word header i)) checksum_idxs)"

lemma checksum_sum_eq:
  assumes "\<forall>i\<in>set idxs. i < length header"
    and "unat acc + sum_list (map (\<lambda>i. unat (checksum_word header i)) idxs) < 2 ^ 32"
  shows "\<exists>s. checksum_sum header idxs acc = Ok s \<and>
    unat s = unat acc + sum_list (map (\<lambda>i. unat (checksum_word header i)) idxs)"
  using assms
proof (induction idxs arbitrary: acc)
  case (Cons i idxs)
  have w: "unat (ucast (checksum_word header i) :: u32) = unat (checksum_word header i)"
    by (simp add: unat_ucast_up)
  have "unat (acc + ucast (checksum_word header i)) = unat acc + unat (checksum_word header i)"
    using Cons.prems(2) by (subst unat_add_no_wrap) (simp_all add: w)
  with Cons.IH[of "acc + ucast (checksum_word header i)"] Cons.prems show ?case
    by (auto simp: not_le add.assoc)
qed simp

lemma csum_bound: "csum header \<le> 655350"
proof -
  have "sum_list (map (\<lambda>i. unat (checksum_word header i)) idxs) \<le> 65535 * length idxs" for idxs
  proof (induction idxs)
    case (Cons i idxs)
    then show ?case
      using unat_less_two_power[of "checksum_word header i"] by simp
  qed simp
  from this[of checksum_idxs] show ?thesis
    by (simp add: csum_def checksum_idxs_def size_defs)
qed

lemma calculate_ipv4_checksum_eq:
  assumes "20 \<le> length header"
  shows "\<exists>c f. calculate_ipv4_checksum header = Ok c \<and> unat c = 65535 - f \<and> f \<le> 65535 \<and>
    f mod 65535 = csum header mod 65535 \<and> (f = 0 \<longleftrightarrow> csum header = 0)"
proof -
  have "\<forall>i\<in>set checksum_idxs. i < length header"
    using assms by (auto simp: checksum_idxs_def size_defs)
  then obtain s where s: "checksum_sum header checksum_idxs 0 = Ok s" "unat s = csum header"
    using checksum_sum_eq[of checksum_idxs header 0] csum_bound[of header] by (auto simp: csum_def)
  have f: "unat (fold_carry s) \<le> 65535" "unat (fold_carry s) mod 65535 = csum header mod 65535"
      "unat (fold_carry s) = 0 \<longleftrightarrow> csum header = 0"
    using fold_carry_spec[of s] s(2) by (auto simp: unat_eq_zero)
  have "unat (NOT (fold_carry s)) = 4294967295 - unat (fold_carry s)"
    using unat_sub_le[of "fold_carry s" "-1"] by (simp add: not_eq_complement minus_diff_commute[of _ 1] unsigned_minus_1_eq_mask mask_eq_exp_minus_1)
  also have "\<dots> = (65535 - unat (fold_carry s)) + 65535 * 65536"
    using f(1) by simp
  finally have "unat (ucast (NOT (fold_carry s)) :: u16) = (65535 - unat (fold_carry s) + 65535 * 65536) mod 65536"
    by (simp add: unsigned_ucast_eq take_bit_eq_mod)
  then have "unat (ucast (NOT (fold_carry s)) :: u16) = 65535 - unat (fold_carry s)"
    unfolding mod_mult_self1 by simp
  then show ?thesis
    using s(1) f by (intro exI[of _ "ucast (NOT (fold_carry s))"] exI[of _ "unat (fold_carry s)"])
      (simp add: calculate_ipv4_checksum_def)
qed

text \<open>Writing the checksum into a header whose checksum is zero.\<close>

lemma checksum_verifies:
  assumes "20 \<le> length header" "20 \<le> length header'" "calculate_ipv4_checksum header = Ok c"
    and "checksum_word header 10 = 0" "checksum_word header' 10 = c"
    and "\<And>i. i \<in> {0, 2, 4, 6, 8, 12, 14, 16, 18} \<Longrightarrow> checksum_word header' i = checksum_word header i"
  shows "calculate_ipv4_checksum header' = Ok 0"
proof -
  obtain f where f: "unat c = 65535 - f" "f \<le> 65535" "f mod 65535 = csum header mod 65535" "f = 0 \<longleftrightarrow> csum header = 0"
    using calculate_ipv4_checksum_eq[OF assms(1)] assms(3) by auto
  have idxs: "checksum_idxs = [0, 2, 4, 6, 8, 10, 12, 14, 16, 18]"
    by (simp add: checksum_idxs_def size_defs upt_rec)
  have "csum header' = csum header + unat c"
    unfolding csum_def idxs using assms(4-6) by simp
  then have sum': "csum header' = csum header + (65535 - f)"
    using f(1) by simp
  obtain c' f' where c': "calculate_ipv4_checksum header' = Ok c'" "unat c' = 65535 - f'" "f' \<le> 65535"
      "f' mod 65535 = csum header' mod 65535" "f' = 0 \<longleftrightarrow> csum header' = 0"
    using calculate_ipv4_checksum_eq[OF assms(2)] by metis
  have "(csum header + (65535 - f)) mod 65535 = (f + (65535 - f)) mod 65535"
    using f(3) by (metis mod_add_left_eq)
  then have "f' mod 65535 = 0"
    using c'(4) sum' f(2) by simp
  moreover have "f' \<noteq> 0"
    using c'(5) sum' f(2,4) by auto
  ultimately have "f' = 65535"
    using c'(3) by (metis dvd_imp_le le_antisym mod_eq_0_iff_dvd not_gr_zero)
  then have "c' = 0"
    using c'(2) by (simp add: unat_eq_zero)
  with c'(1) show ?thesis
    by simp
qed

subsection \<open>The packet on the wire\<close>

lemma buf_bit_drop_le: "k \<le> length b \<Longrightarrow> buf_bit (drop k b) j = buf_bit b (8 * k + j)"
  by (simp add: buf_bit_def)

lemma buf_bit_append: "j < 8 * length a \<Longrightarrow> buf_bit (a @ b) j = buf_bit a j"
  by (simp add: buf_bit_def nth_append less_mult_imp_div_less mult.commute)

lemma buf_bit_byte: "k < 8 \<Longrightarrow> i < length b \<Longrightarrow> buf_bit b (8 * i + k) = bit (b ! i) k"
  by (simp add: buf_bit_def)

lemma bit_checksum_word:
  assumes "i + 1 < length header" "n < 16"
  shows "bit (checksum_word header i) n = buf_bit header (8 * i + (if n < 8 then 8 + n else n - 8))"
proof (cases "n < 8")
  case True
  then show ?thesis
    using assms buf_bit_byte[of n "i + 1" header] by (simp add: checksum_word_def bit_simps ac_simps)
next
  case False
  moreover have "\<not> bit (header ! (i + 1)) n"
    using False bit_imp_le_length[of "header ! (i + 1)" n] by auto
  moreover have "n - 8 < 8"
    using assms(2) by simp
  ultimately show ?thesis
    using assms buf_bit_byte[of "n - 8" i header] by (simp add: checksum_word_def bit_simps)
qed

lemma checksum_word_cong:
  assumes "i + 1 < length h" "i + 1 < length h'"
    and "\<And>j. 8 * i \<le> j \<Longrightarrow> j < 8 * i + 16 \<Longrightarrow> buf_bit h' j = buf_bit h j"
  shows "checksum_word h' i = checksum_word h i"
  using assms by (intro bit_word_eqI) (auto simp: bit_checksum_word)

lemma checksum_word_field:
  assumes "i + 1 < length h" "field_holds h (8 * i + 15, 8 * i) (ucast (u16_to_be c))"
  shows "checksum_word h i = c"
proof (rule bit_word_eqI)
  fix n assume "n < LENGTH(16)"
  then have n: "n < 16"
    by simp
  have h: "buf_bit h (8 * i + k) = bit (u16_to_be c) k" if "k < 16" for k
    using assms(2) that by (auto simp: field_holds_def bit_simps)
  have "bit (u16_to_be c) (if n < 8 then 8 + n else n - 8) = bit c n"
    using n bit_imp_le_length[of c "16 + n"] by (auto simp: u16_to_be_def bit_simps)
  then show "bit (checksum_word h i) n = bit c n"
    using n h[of "8 + n"] h[of "n - 8"] assms(1) by (cases "n < 8") (simp_all add: bit_checksum_word)
qed

lemma field_holds_drop:
  "k \<le> length b \<Longrightarrow> field_holds (drop k b) f v = field_holds b (at_byte k f) v"
  by (simp add: field_holds_def at_byte_def buf_bit_drop_le add.assoc)

lemma from_be_field:
  assumes "psn_ok p" "field_holds b f (ucast (into_be p))" "fst f = snd f + 23"
  shows "from_be (get_field f b) = p"
proof -
  have "get_field f b = take_bit 24 (ucast (ucast (into_be p) :: u64) :: u32)"
    using get_field_holds[OF assms(2), where 'a = 32] assms(3) by simp
  also have "\<dots> = into_be p"
    by (rule bit_word_eqI) (auto simp: bit_simps bit_into_be)
  finally show ?thesis
    by (simp add: from_be_into_be[OF assms(1)])
qed

lemma msn_field_be:
  assumes "field_holds b f (ucast (u16_to_be m))" "fst f = snd f + 15"
  shows "u16_to_be (get_field f b) = m"
proof -
  have "get_field f b = take_bit 16 (ucast (ucast (u16_to_be m) :: u64) :: u16)"
    using get_field_holds[OF assms(1), where 'a = 16] assms(2) by simp
  also have "\<dots> = u16_to_be m"
    by (rule bit_word_eqI) (auto simp: bit_simps)
  finally show ?thesis
    by simp
qed

lemma psn_0: "psn_new 0 = ThreeBytesStruct 0" "into_be (ThreeBytesStruct 0) = 0"
  by (simp_all add: psn_new_def into_be_def u32_to_le_bytes_def u32_from_le_bytes_def Let_def)

abbreviation packet_setters_1 :: "MacAddress \<times> Ipv4Addr \<Rightarrow> MacAddress \<times> Ipv4Addr \<Rightarrow> (field \<times> u64) list" where
  "packet_setters_1 src dst \<equiv>
     mac_setters (fst src) (fst dst) @ header_at MAC_HEADER_SIZE (ip_setters (snd src) (snd dst))"

abbreviation packet_setters_2 :: "u16 \<Rightarrow> Qpn \<Rightarrow> Msn \<Rightarrow> Psn \<Rightarrow> Psn option \<Rightarrow> (field \<times> u64) list" where
  "packet_setters_2 checksum dqpn msn psn expected_psn \<equiv>
     header_at MAC_HEADER_SIZE [(Ipv4_checksum, ucast (u16_to_be checksum))] @
     header_at (MAC_HEADER_SIZE + IPV4_HEADER_SIZE) udp_setters @
     header_at (MAC_HEADER_SIZE + IPV4_HEADER_SIZE + UDP_HEADER_SIZE) (bth_setters dqpn psn) @
     header_at (MAC_HEADER_SIZE + IPV4_HEADER_SIZE + UDP_HEADER_SIZE + BTH_HEADER_SIZE) (aeth_setters (expected_psn \<noteq> None) msn) @
     header_at (MAC_HEADER_SIZE + IPV4_HEADER_SIZE + UDP_HEADER_SIZE + BTH_HEADER_SIZE + AETH_HEADER_SIZE) (nreth_setters expected_psn)"

lemmas setter_defs = mac_setters_def ip_setters_def udp_setters_def bth_setters_def aeth_setters_def nreth_setters_def
  header_at_def at_byte_def

lemma packet_layout_ok:
  "layout_ok 66 (map fst (packet_setters_1 src dst))"
  "layout_ok 66 (map fst (packet_setters_2 c dqpn msn psn expected_psn))"
  by (simp_all add: setter_defs size_defs disjoint_def)

lemma calculate_icrc_Ok:
  assumes "44 \<le> length data"
  shows "\<exists>icrc. calculate_icrc crc32 data = Ok icrc"
proof -
  let ?fs = "[(Ipv4_dscp_ecn, 0xff), (Ipv4_ttl, 0xff), (Ipv4_checksum, 0xffff)] @
    header_at IPV4_HEADER_SIZE [(Udp_checksum, 0xffff)] @
    header_at (IPV4_HEADER_SIZE + UDP_HEADER_SIZE) [(Bth_ecn_and_resv6, 0xff :: u64)]"
  have "layout_ok (length (take IPV4_UDP_BTH_HEADER_SIZE data)) (map fst ?fs)"
    using assms by (simp add: setter_defs size_defs disjoint_def min_absorb2)
  then obtain buf where "set_fields ?fs (take IPV4_UDP_BTH_HEADER_SIZE data) = Ok buf"
    using set_fields_spec by blast
  moreover have "\<not> length data < IPV4_UDP_BTH_HEADER_SIZE + ICRC_SIZE"
    using assms by (simp add: size_defs)
  ultimately show ?thesis
    unfolding calculate_icrc_def by (simp del: set_fields.simps append.simps)
qed

lemma write_packet_stages:
  assumes "66 \<le> length buf"
  obtains b1 c b2 icrc where
    "write_packet crc32 buf src dst dqpn msn psn expected_psn = Ok (take 62 b2 @ u32_to_le_bytes icrc @ drop 66 buf)"
    "length b1 = 66" "list_all (\<lambda>(f, v). field_holds b1 f v) (packet_setters_1 src dst)"
    "calculate_ipv4_checksum (drop 14 b1) = Ok c"
    "length b2 = 66" "list_all (\<lambda>(f, v). field_holds b2 f v) (packet_setters_2 c dqpn msn psn expected_psn)"
    "\<forall>j. list_all (\<lambda>f. \<not> (snd f \<le> j \<and> j \<le> fst f)) (map fst (packet_setters_2 c dqpn msn psn expected_psn)) \<longrightarrow>
       buf_bit b2 j = buf_bit b1 j"
proof -
  have len: "length (take 66 buf) = 66"
    using assms by simp
  obtain b1 where b1: "set_fields (packet_setters_1 src dst) (take 66 buf) = Ok b1" "length b1 = 66"
    "list_all (\<lambda>(f, v). field_holds b1 f v) (packet_setters_1 src dst)"
    using set_fields_spec[of "take 66 buf" "packet_setters_1 src dst", unfolded len, OF packet_layout_ok(1)] by blast
  obtain c where c: "calculate_ipv4_checksum (drop 14 b1) = Ok c"
    using calculate_ipv4_checksum_eq[of "drop 14 b1"] b1(2) by auto
  obtain b2 where b2: "set_fields (packet_setters_2 c dqpn msn psn expected_psn) b1 = Ok b2" "length b2 = 66"
    "list_all (\<lambda>(f, v). field_holds b2 f v) (packet_setters_2 c dqpn msn psn expected_psn)"
    "\<forall>j. list_all (\<lambda>f. \<not> (snd f \<le> j \<and> j \<le> fst f)) (map fst (packet_setters_2 c dqpn msn psn expected_psn)) \<longrightarrow>
       buf_bit b2 j = buf_bit b1 j"
    using set_fields_spec[of b1 "packet_setters_2 c dqpn msn psn expected_psn", unfolded b1(2), OF packet_layout_ok(2)] by blast
  obtain icrc where icrc: "calculate_icrc crc32 (drop 14 b2) = Ok icrc"
    using calculate_icrc_Ok[of "drop 14 b2"] b2(2) by auto
  have "write_packet crc32 buf src dst dqpn msn psn expected_psn = Ok (take 62 b2 @ u32_to_le_bytes icrc @ drop 66 buf)"
  proof -
    have sz: "ACKPACKET_SIZE = 66" "MAC_HEADER_SIZE = 14" "66 - ICRC_SIZE = 62"
      by (simp_all add: size_defs)
    have "\<not> length buf < ACKPACKET_SIZE"
      using assms by (simp add: sz)
    then show ?thesis
      unfolding write_packet_def Let_def prod.case
      using b1(1) c b2(1) icrc
      by (simp only: if_False sz result_bind_simps)
  qed
  then show ?thesis
    using that b1(2,3) c b2(2-4) by blast
qed

lemma write_packet_length:
  assumes "66 \<le> length buf"
  shows "\<exists>out. write_packet crc32 buf src dst dqpn msn psn expected_psn = Ok out \<and> length out = length buf"
proof (rule write_packet_stages[OF assms, of crc32 src dst dqpn msn psn expected_psn])
  fix b2 :: "u8 list" and icrc
  assume "write_packet crc32 buf src dst dqpn msn psn expected_psn = Ok (take 62 b2 @ u32_to_le_bytes icrc @ drop 66 buf)"
    "length b2 = 66"
  then show ?thesis
    using assms by (simp add: u32_to_le_bytes_def)
qed

lemma field_holds_prefix:
  assumes "field_holds b f v" "fst f < 8 * k" "snd f \<le> fst f" "k \<le> length b"
  shows "field_holds (take k b @ xs) f v"
  using assms by (auto simp: field_holds_def buf_bit_append buf_bit_take)

lemma packet_checksum:
  assumes b1: "length b1 = 66" "list_all (\<lambda>(f, v). field_holds b1 f v) (packet_setters_1 src dst)"
    "calculate_ipv4_checksum (drop 14 b1) = Ok c"
    and b2: "length b2 = 66" "list_all (\<lambda>(f, v). field_holds b2 f v) (packet_setters_2 c dqpn msn psn expected_psn)"
    "\<forall>j. list_all (\<lambda>f. \<not> (snd f \<le> j \<and> j \<le> fst f)) (map fst (packet_setters_2 c dqpn msn psn expected_psn)) \<longrightarrow>
       buf_bit b2 j = buf_bit b1 j"
  shows "calculate_ipv4_checksum (drop 14 (take 62 b2 @ xs)) = Ok 0"
proof (rule checksum_verifies[OF _ _ b1(3)])
  let ?out = "take 62 b2 @ xs"
  have len: "62 \<le> length ?out"
    using b2(1) by simp
  show "20 \<le> length (drop 14 b1)" "20 \<le> length (drop 14 ?out)"
    using b1(1) b2(1) by simp_all
  have "field_holds (drop 14 b1) (8 * 10 + 15, 8 * 10) (ucast (u16_to_be 0))"
    using b1 by (simp add: field_holds_drop setter_defs size_defs u16_to_be_def)
  then show "checksum_word (drop 14 b1) 10 = 0"
    using b1(1) by (intro checksum_word_field) simp_all
  have "field_holds b2 (207, 192) (ucast (u16_to_be c))"
    using b2(2) by (simp add: setter_defs size_defs)
  then have "field_holds ?out (207, 192) (ucast (u16_to_be c))"
    by (rule field_holds_prefix) (use b2(1) in simp_all)
  then have "field_holds (drop 14 ?out) (8 * 10 + 15, 8 * 10) (ucast (u16_to_be c))"
    using len by (simp add: field_holds_drop at_byte_def del: drop_append)
  then show "checksum_word (drop 14 ?out) 10 = c"
    using len by (intro checksum_word_field) (simp_all del: drop_append)
  fix i :: nat assume i: "i \<in> {0, 2, 4, 6, 8, 12, 14, 16, 18}"
  show "checksum_word (drop 14 ?out) i = checksum_word (drop 14 b1) i"
  proof (rule checksum_word_cong)
    show "i + 1 < length (drop 14 b1)" "i + 1 < length (drop 14 ?out)"
      using i b1(1) b2(1) by auto
    fix j assume j: "8 * i \<le> j" "j < 8 * i + 16"
    have j': "j < 80 \<or> (96 \<le> j \<and> j < 160)"
      using i j by auto
    have "list_all (\<lambda>f. \<not> (snd f \<le> 112 + j \<and> 112 + j \<le> fst f)) (map fst (packet_setters_2 c dqpn msn psn expected_psn))"
      using j' by (auto simp: setter_defs size_defs)
    then have "buf_bit b2 (112 + j) = buf_bit b1 (112 + j)"
      using b2(3) by blast
    moreover have "buf_bit ?out (112 + j) = buf_bit b2 (112 + j)"
      using j' b2(1) by (auto simp: buf_bit_append buf_bit_take)
    ultimately show "buf_bit (drop 14 ?out) j = buf_bit (drop 14 b1) j"
      using len b1(1) by (simp add: buf_bit_drop_le del: drop_append)
  qed
qed

text \<open>
  C27. \<^term>\<open>write_packet\<close> never panics on a buffer that holds an acknowledgement, it writes no byte behind the packet,
  its IPv4 header verifies (the checksum over the finished header is zero), and a receiver reads back the
  queue pair, the sequence numbers, the code of an ACK or a NAK, and the expected PSN of a NAK.
\<close>

theorem write_packet_ok:
  assumes "ACKPACKET_SIZE \<le> length buf" "psn_ok dqpn" "psn_ok psn" "expected_psn = None \<or> psn_ok (the expected_psn)"
  shows "\<exists>out. write_packet crc32 buf src dst dqpn msn psn expected_psn = Ok out \<and> length out = length buf \<and>
    drop ACKPACKET_SIZE out = drop ACKPACKET_SIZE buf \<and>
    calculate_ipv4_checksum (drop MAC_HEADER_SIZE out) = Ok 0 \<and>
    from_be (get_field (at_byte 42 Bth_dqpn) out) = dqpn \<and> from_be (get_field (at_byte 42 Bth_psn) out) = psn \<and>
    get_field (at_byte 54 Aeth_aeth_code) out = (if expected_psn = None then 0 else 3 :: u32) \<and>
    u16_to_be (get_field (at_byte 54 Aeth_msn) out) = msn_get msn \<and>
    from_be (get_field (at_byte 58 NReth_last_retry_psn) out) = (case expected_psn of None \<Rightarrow> psn_new 0 | Some e \<Rightarrow> e)"
proof -
  have sz: "ACKPACKET_SIZE = 66" "MAC_HEADER_SIZE = 14"
    by (simp_all add: size_defs)
  have len: "66 \<le> length buf"
    using assms(1) by (simp add: sz)
  obtain b1 c b2 icrc where
    w: "write_packet crc32 buf src dst dqpn msn psn expected_psn = Ok (take 62 b2 @ u32_to_le_bytes icrc @ drop 66 buf)"
    and b1: "length b1 = 66" "list_all (\<lambda>(f, v). field_holds b1 f v) (packet_setters_1 src dst)"
    "calculate_ipv4_checksum (drop 14 b1) = Ok c"
    and b2: "length b2 = 66" "list_all (\<lambda>(f, v). field_holds b2 f v) (packet_setters_2 c dqpn msn psn expected_psn)"
    "\<forall>j. list_all (\<lambda>f. \<not> (snd f \<le> j \<and> j \<le> fst f)) (map fst (packet_setters_2 c dqpn msn psn expected_psn)) \<longrightarrow>
       buf_bit b2 j = buf_bit b1 j"
    by (rule write_packet_stages[OF len])
  define out where "out = take 62 b2 @ u32_to_le_bytes icrc @ drop 66 buf"
  have holds: "field_holds out f v" if "field_holds b2 f v" "fst f < 496" "snd f \<le> fst f" for f v
    unfolding out_def using that b2(1) by (intro field_holds_prefix) simp_all
  let ?e = "case expected_psn of None \<Rightarrow> psn_new 0 | Some e \<Rightarrow> e"
  have h: "field_holds out (at_byte 42 Bth_dqpn) (ucast (into_be dqpn))" "field_holds out (at_byte 42 Bth_psn) (ucast (into_be psn))"
    "field_holds out (at_byte 54 Aeth_aeth_code) (if expected_psn = None then 0 else 3)"
    "field_holds out (at_byte 54 Aeth_msn) (ucast (u16_to_be (msn_get msn)))"
    "field_holds out (at_byte 58 NReth_last_retry_psn) (ucast (into_be ?e))"
    using b2(2) by (auto intro!: holds simp: setter_defs size_defs psn_0 Msn_into_be_def split: option.splits)
  have e: "psn_ok ?e"
    using assms(4) by (auto simp: psn_0 psn_ok_def split: option.splits)
  have fields: "from_be (get_field (at_byte 42 Bth_dqpn) out) = dqpn" "from_be (get_field (at_byte 42 Bth_psn) out) = psn"
    "u16_to_be (get_field (at_byte 54 Aeth_msn) out) = msn_get msn"
    "from_be (get_field (at_byte 58 NReth_last_retry_psn) out) = ?e"
    by (rule from_be_field[OF assms(2) h(1)] from_be_field[OF assms(3) h(2)] msn_field_be[OF h(4)] from_be_field[OF e h(5)],
        simp add: at_byte_def)+
  have code: "get_field (at_byte 54 Aeth_aeth_code) out = (if expected_psn = None then 0 else 3 :: u32)"
    by (subst get_field_holds[OF h(3)]; cases expected_psn) (simp_all add: at_byte_def take_bit_eq_mask mask_eq_exp_minus_1)
  have "calculate_ipv4_checksum (drop 14 out) = Ok 0"
    unfolding out_def by (rule packet_checksum[OF b1 b2])
  moreover have "length out = length buf" "drop 66 out = drop 66 buf"
    using len b2(1) by (simp_all add: out_def u32_to_le_bytes_def)
  ultimately show ?thesis
    using w fields code unfolding out_def[symmetric] sz by blast
qed

theorem write_packet_ok_witness:
  "\<exists>out. write_packet (\<lambda>_. 0) (replicate 70 0) ([1, 2, 3, 4, 5, 6], 0x7f000002) ([6, 5, 4, 3, 2, 1], 0x7f000003)
     (psn_new 3) (Msn_new 9) (psn_new 4) (Some (psn_new 2)) = Ok out \<and> length out = 70 \<and>
     calculate_ipv4_checksum (drop 14 out) = Ok 0 \<and> from_be (get_field (at_byte 58 NReth_last_retry_psn) out) = psn_new 2"
  using write_packet_ok[of "replicate 70 0" "psn_new 3" "psn_new 4" "Some (psn_new 2)" "\<lambda>_. 0"
      "([1, 2, 3, 4, 5, 6], 0x7f000002)" "([6, 5, 4, 3, 2, 1], 0x7f000003)" "Msn_new 9"]
  by (auto simp: size_defs)

end
