(* ===== verification/Checker.thy ===== *)
theory Checker
  imports Sliding_Window Retry Responser
begin

text \<open>
  The packet checker of \<^verbatim>\<open>src/checker.rs\<close>: the receive contexts of the messages of each queue
  pair, the table of recent messages, and the handlers of the packets that the card
  reports. A queue pair is in order until a packet arrives with another sequence
  number than the expected one; from then on each message has a sliding window, and
  the checker asks for what is missing, acknowledges what is complete and tries to
  recover the queue pair.

  One event is handled at a time by one thread, so an event is one step here. The
  descriptors that the checker sends are collected in its state; \<^verbatim>\<open>pc_work_ok\<close> and
  \<^verbatim>\<open>pc_ctrl_ok\<close> say whether the senders accept them. The assertion of
  \<^verbatim>\<open>enter_qp_error_status\<close> is a debug assertion and left out.
\<close>

definition MAX_MSN_WINDOW_PER_QP :: nat where "MAX_MSN_WINDOW_PER_QP = 16"

datatype RecentQpMsnStatus = NoExist | Processing | MsnFinished | MsnUnKnown

record RecvContext =
  rc_is_read_resp :: bool
  rc_start_addr :: u64
  rc_len_in_bytes :: u32
  rc_start_psn :: Psn
  rc_recv_map :: "SlidingWindow option"

definition new_with_recvmap :: "ToHostWorkRbDescWriteOrReadResp \<Rightarrow> Pmtu \<Rightarrow> RecvContext" where
  "new_with_recvmap event pmtu =
     (let pkt_len = calculate_packet_cnt pmtu (ho_addr event) (ho_len event);
          m = sw_insert (ho_psn event, ho_psn event) (SlidingWindow_new (ho_psn event) pkt_len)
      in \<lparr> rc_is_read_resp = ho_is_read_resp event, rc_start_addr = ho_addr event, rc_len_in_bytes = ho_len event,
           rc_start_psn = ho_psn event, rc_recv_map = Some m \<rparr>)"

definition create_map_on_psn :: "Psn \<Rightarrow> Psn \<Rightarrow> Pmtu \<Rightarrow> RecvContext \<Rightarrow> RecvContext" where
  "create_map_on_psn last_continous_psn recved_psn pmtu self =
     (let pkt_len = calculate_packet_cnt pmtu (rc_start_addr self) (rc_len_in_bytes self);
          m = SlidingWindow_new (rc_start_psn self) pkt_len;
          m = sw_insert (rc_start_psn self, last_continous_psn) m;
          m = sw_insert (recved_psn, recved_psn) m
      in self\<lparr> rc_recv_map := Some m \<rparr>)"

definition RecvContext_from :: "ToHostWorkRbDescWriteOrReadResp \<Rightarrow> RecvContext" where
  "RecvContext_from event =
     \<lparr> rc_is_read_resp = ho_is_read_resp event, rc_start_addr = ho_addr event, rc_len_in_bytes = ho_len event,
       rc_start_psn = ho_psn event, rc_recv_map = None \<rparr>"

subsection \<open>The contexts of one queue pair\<close>

record PerQpContextMap =
  pq_map :: "(Msn, RecvContext) btree"
  pq_largest_psn_recved :: Psn
  pq_recent_msn_finished :: "(Msn \<times> RecentQpMsnStatus) list"

definition PerQpContextMap_new :: "Psn \<Rightarrow> PerQpContextMap" where
  "PerQpContextMap_new largest_psn_recved =
     \<lparr> pq_map = [], pq_largest_psn_recved = largest_psn_recved,
       pq_recent_msn_finished = replicate MAX_MSN_WINDOW_PER_QP (Msn_default, NoExist) \<rparr>"

definition update_largest_psn_recved :: "Psn \<Rightarrow> PerQpContextMap \<Rightarrow> PerQpContextMap" where
  "update_largest_psn_recved psn self =
     (if \<not> larger_in_psn (pq_largest_psn_recved self) psn then self\<lparr> pq_largest_psn_recved := psn \<rparr> else self)"

definition msn_idx :: "Msn \<Rightarrow> nat" where
  "msn_idx msn = unat (msn_get msn) mod MAX_MSN_WINDOW_PER_QP"

definition pq_query_recent_msn_status :: "Msn \<Rightarrow> PerQpContextMap \<Rightarrow> RecentQpMsnStatus" where
  "pq_query_recent_msn_status msn self =
     (case pq_recent_msn_finished self ! msn_idx msn of
        (_, NoExist) \<Rightarrow> NoExist
      | (_, Processing) \<Rightarrow> Processing
      | (previous_msn, MsnFinished) \<Rightarrow> if previous_msn = msn then MsnFinished else NoExist
      | (_, MsnUnKnown) \<Rightarrow> MsnUnKnown)"

definition pq_set_recent_msn_status :: "Msn \<Rightarrow> RecentQpMsnStatus \<Rightarrow> PerQpContextMap \<Rightarrow> PerQpContextMap" where
  "pq_set_recent_msn_status msn status self =
     self\<lparr> pq_recent_msn_finished := (pq_recent_msn_finished self)[msn_idx msn := (msn, status)] \<rparr>"

subsection \<open>The contexts of all queue pairs\<close>

type_synonym RecvContextMap = "Qpn \<rightharpoonup> PerQpContextMap"

definition RecvContextMap_new :: RecvContextMap where
  "RecvContextMap_new = Map.empty"

definition insert_ctx :: "Qpn \<Rightarrow> Msn \<Rightarrow> RecvContext \<Rightarrow> RecvContextMap \<Rightarrow> RecvContextMap" where
  "insert_ctx qpn msn ctx self =
     (let per_qp_map = (case self qpn of Some p \<Rightarrow> p | None \<Rightarrow> PerQpContextMap_new (psn_new 0));
          replaced = (bt_get (pq_map per_qp_map) msn \<noteq> None);
          per_qp_map = per_qp_map\<lparr> pq_map := bt_insert msn ctx (pq_map per_qp_map) \<rparr>
      in self(qpn \<mapsto> (if replaced then per_qp_map else pq_set_recent_msn_status msn Processing per_qp_map)))"

definition remove_ctx :: "Qpn \<Rightarrow> Msn \<Rightarrow> RecvContextMap \<Rightarrow> RecvContextMap" where
  "remove_ctx qpn msn self =
     (case self qpn of
        Some per_qp_map \<Rightarrow>
          self(qpn \<mapsto> pq_set_recent_msn_status msn MsnFinished
            (per_qp_map\<lparr> pq_map := bt_remove msn (pq_map per_qp_map) \<rparr>))
      | None \<Rightarrow> self)"

definition remove_per_qp_ctx :: "Qpn \<Rightarrow> RecvContextMap \<Rightarrow> RecvContextMap" where
  "remove_per_qp_ctx qpn self = self(qpn := None)"

text \<open>What the mutable references point to; \<open>put_ctx\<close> is a store through the first of them.\<close>

definition get_ctx_mut :: "Qpn \<Rightarrow> Msn \<Rightarrow> RecvContextMap \<Rightarrow> RecvContext option" where
  "get_ctx_mut qpn msn self =
     (case self qpn of Some per_qp_map \<Rightarrow> bt_get (pq_map per_qp_map) msn | None \<Rightarrow> None)"

definition put_ctx :: "Qpn \<Rightarrow> Msn \<Rightarrow> RecvContext \<Rightarrow> RecvContextMap \<Rightarrow> RecvContextMap" where
  "put_ctx qpn msn ctx self =
     (case self qpn of
        Some per_qp_map \<Rightarrow> self(qpn \<mapsto> per_qp_map\<lparr> pq_map := bt_insert msn ctx (pq_map per_qp_map) \<rparr>)
      | None \<Rightarrow> self)"

definition get_or_create_per_qp_ctx_mut :: "Qpn \<Rightarrow> Psn \<Rightarrow> RecvContextMap \<Rightarrow> PerQpContextMap \<times> RecvContextMap" where
  "get_or_create_per_qp_ctx_mut qpn psn self =
     (case self qpn of
        Some per_qp_map \<Rightarrow> (per_qp_map, self)
      | None \<Rightarrow> (PerQpContextMap_new psn, self(qpn \<mapsto> PerQpContextMap_new psn)))"

definition get_per_qp_ctx_mut :: "Qpn \<Rightarrow> RecvContextMap \<Rightarrow> PerQpContextMap option" where
  "get_per_qp_ctx_mut qpn self = self qpn"

definition query_recent_msn_status :: "Qpn \<Rightarrow> Msn \<Rightarrow> RecvContextMap \<Rightarrow> RecentQpMsnStatus" where
  "query_recent_msn_status qpn msn self =
     (case self qpn of Some per_qp_map \<Rightarrow> pq_query_recent_msn_status msn per_qp_map | None \<Rightarrow> NoExist)"

definition set_recent_msn_status :: "Qpn \<Rightarrow> Msn \<Rightarrow> RecentQpMsnStatus \<Rightarrow> RecvContextMap \<Rightarrow> RecvContextMap" where
  "set_recent_msn_status qpn msn status self =
     (case self qpn of
        Some per_qp_map \<Rightarrow> self(qpn \<mapsto> pq_set_recent_msn_status msn status per_qp_map)
      | None \<Rightarrow> self)"

subsection \<open>Events and handlers\<close>

datatype PacketCheckEvent =
    EvWrite ToHostWorkRbDescWriteOrReadResp
  | EvAck ToHostWorkRbDescAck
  | EvReadReq ToHostWorkRbDescRead

definition get_continous_range :: "Psn \<Rightarrow> Psn \<Rightarrow> (Psn \<times> Psn) option" where
  "get_continous_range largest_psn_recved expected_psn =
     (let left = wrapping_add largest_psn_recved 1;
          right = wrapping_sub expected_psn 1
      in if psn_get (wrapping_sub right (psn_get left)) \<le> PSN_MAX_WINDOW_SIZE then Some (left, right) else None)"

text \<open>
  The context of the thread. The bytes behind the acknowledge slots are a memory by
  address. A control descriptor is kept with the queue pair that its handler captures.
\<close>

record 'h PacketCheckerContext =
  pc_recv_ctx_map :: RecvContextMap
  pc_qp_table :: "Qpn \<rightharpoonup> QpContext"
  pc_user_op_ctx_map :: "op_key \<rightharpoonup> (unit, 'h) OpCtx"
  pc_ctrl_sent :: "(ToCardCtrlRbDesc \<times> Qpn) list"
  pc_work_sent :: "ToCardWorkRbDesc list"
  pc_ctrl_ok :: bool
  pc_work_ok :: bool
  pc_ack_buffers :: PacketBuf
  pc_ack_mem :: "usize \<Rightarrow> u8 list"
  pc_retry_map :: RetryMap

definition send_work_desc :: "ToCardWorkRbDesc \<Rightarrow> 'h PacketCheckerContext \<Rightarrow> 'h PacketCheckerContext" where
  "send_work_desc desc self =
     (if pc_work_ok self then self\<lparr> pc_work_sent := pc_work_sent self @ [desc] \<rparr> else self)"

definition wakeup_user_op_ctx :: "Qpn \<Rightarrow> Msn \<Rightarrow> 'h PacketCheckerContext \<Rightarrow> 'h PacketCheckerContext" where
  "wakeup_user_op_ctx qpn msn self =
     (case pc_user_op_ctx_map self (qpn, msn) of
        Some ctx \<Rightarrow>
          (case set_result () ctx of
             Inr (ctx, _) \<Rightarrow> self\<lparr> pc_user_op_ctx_map := (pc_user_op_ctx_map self)((qpn, msn) \<mapsto> ctx) \<rparr>
           | Inl _ \<Rightarrow> self)
      | None \<Rightarrow> self)"

definition try_recover :: "Qpn \<Rightarrow> Psn \<Rightarrow> 'h PacketCheckerContext \<Rightarrow> 'h PacketCheckerContext" where
  "try_recover qpn recover_psn self =
     (let desc = UpdateErrorPsnRecoverPoint
            \<lparr> ep_common = \<lparr> cc_op_id = 0 \<rparr>, ep_qpn = qpn, ep_recover_psn = recover_psn \<rparr>
      in if pc_ctrl_ok self then self\<lparr> pc_ctrl_sent := pc_ctrl_sent self @ [(desc, qpn)] \<rparr> else self)"

text \<open>The handler that \<^verbatim>\<open>try_recover\<close> sets, run by the thread that polls the control responses.\<close>

definition recover_handler :: "Qpn \<Rightarrow> bool \<Rightarrow> (Qpn \<rightharpoonup> QpContext) \<Rightarrow> (Qpn \<rightharpoonup> QpContext)" where
  "recover_handler qpn is_succ qp_table =
     (if is_succ then
        (case qp_table qpn of Some qp_ctx \<Rightarrow> qp_table(qpn \<mapsto> qp_ctx\<lparr> qc_status := Normal \<rparr>) | None \<Rightarrow> qp_table)
      else qp_table)"

text \<open>
  The slot comes from the ring of slots, which no other thread uses, so no exchange
  fails. The first component of the sender is \<^const>\<open>make_ack\<close> or \<^const>\<open>make_nack\<close>.
\<close>

definition send_slot ::
  "(Slot \<Rightarrow> u8 list \<Rightarrow> (Qpn \<rightharpoonup> QpContext) \<Rightarrow> (panic, (Error, ToCardWorkRbDesc) result \<times> u8 list) result) \<Rightarrow>
   'h PacketCheckerContext \<Rightarrow> (panic, 'h PacketCheckerContext) result" where
  "send_slot make_packet self =
     result_bind (recycle_buf RDMA_ACK_BUFFER_SLOT_SIZE [] (pc_ack_buffers self)) (\<lambda>(slot, bufs).
       result_bind (make_packet slot (pc_ack_mem self (slot_ptr slot)) (pc_qp_table self)) (\<lambda>(r, bytes).
         let self = self\<lparr> pc_ack_buffers := bufs, pc_ack_mem := (pc_ack_mem self)(slot_ptr slot := bytes) \<rparr>
         in Ok (case r of Inr desc \<Rightarrow> send_work_desc desc self | Inl _ \<Rightarrow> self)))"

definition send_ack ::
  "(u8 list \<Rightarrow> u32) \<Rightarrow> Qpn \<Rightarrow> Msn \<Rightarrow> Psn \<Rightarrow> 'h PacketCheckerContext \<Rightarrow> (panic, 'h PacketCheckerContext) result" where
  "send_ack crc32 qpn msn psn self =
     send_slot (\<lambda>slot bytes qp_table. make_ack crc32 slot bytes qp_table qpn msn psn) self"

definition send_nack ::
  "(u8 list \<Rightarrow> u32) \<Rightarrow> Qpn \<Rightarrow> Msn \<Rightarrow> Psn \<Rightarrow> Psn \<Rightarrow> 'h PacketCheckerContext \<Rightarrow> (panic, 'h PacketCheckerContext) result" where
  "send_nack crc32 qpn msn start_psn end_psn self =
     send_slot (\<lambda>slot bytes qp_table. make_nack crc32 slot bytes qp_table qpn msn start_psn end_psn) self"

definition with_recv :: "(RecvContextMap \<Rightarrow> RecvContextMap) \<Rightarrow> 'h PacketCheckerContext \<Rightarrow> 'h PacketCheckerContext" where
  "with_recv f self = self\<lparr> pc_recv_ctx_map := f (pc_recv_ctx_map self) \<rparr>"

definition cancel_retry :: "Qpn \<Rightarrow> Msn \<Rightarrow> 'h PacketCheckerContext \<Rightarrow> 'h PacketCheckerContext" where
  "cancel_retry qpn msn self = self\<lparr> pc_retry_map := snd (retry_cancel (qpn, msn) (pc_retry_map self)) \<rparr>"

text \<open>A message of one packet; both handlers treat it alike.\<close>

definition handle_only ::
  "(u8 list \<Rightarrow> u32) \<Rightarrow> ToHostWorkRbDescWriteOrReadResp \<Rightarrow> 'h PacketCheckerContext \<Rightarrow>
   (panic, 'h PacketCheckerContext) result" where
  "handle_only crc32 event self =
     (let qpn = hw_dqpn (ho_common event);
          msn = hw_msn (ho_common event);
          self = with_recv (set_recent_msn_status qpn msn MsnFinished) self
      in if ho_is_read_resp event then Ok (wakeup_user_op_ctx qpn msn self)
         else if \<not> ho_can_auto_ack event then send_ack crc32 qpn msn (ho_psn event) self
         else Ok self)"

definition handle_qp_normal ::
  "(u8 list \<Rightarrow> u32) \<Rightarrow> ToHostWorkRbDescWriteOrReadResp \<Rightarrow> 'h PacketCheckerContext \<Rightarrow>
   (panic, 'h PacketCheckerContext) result" where
  "handle_qp_normal crc32 event self =
     (let qpn = hw_dqpn (ho_common event);
          msn = hw_msn (ho_common event)
      in case ho_write_type event of
           WtFirst \<Rightarrow>
             Ok (if query_recent_msn_status qpn msn (pc_recv_ctx_map self) = NoExist
                 then with_recv (insert_ctx qpn msn (RecvContext_from event)) self else self)
         | WtLast \<Rightarrow>
             (let self = with_recv (remove_ctx qpn msn) self
              in if \<not> ho_is_read_resp event then
                   result_bind (if \<not> ho_can_auto_ack event then send_ack crc32 qpn msn (ho_psn event) self else Ok self)
                     (\<lambda>self. Ok (cancel_retry qpn msn self))
                 else Ok (wakeup_user_op_ctx qpn msn self))
         | WtOnly \<Rightarrow> handle_only crc32 event self
         | WtMiddle \<Rightarrow> Ok self)"

text \<open>
  The handler of a queue pair that is out of order. The contexts that it unwraps were
  made when the queue pair entered the error status.
\<close>

definition check_completed_and_try_recover ::
  "(u8 list \<Rightarrow> u32) \<Rightarrow> Qpn \<Rightarrow> Msn \<Rightarrow> 'h PacketCheckerContext \<Rightarrow> (panic, 'h PacketCheckerContext) result" where
  "check_completed_and_try_recover crc32 qpn msn self =
     result_bind (unwrap (get_per_qp_ctx_mut qpn (pc_recv_ctx_map self))) (\<lambda>perqp_map.
     result_bind
       (case bt_get (pq_map perqp_map) msn of
          Some ctx \<Rightarrow>
            result_bind (unwrap (rc_recv_map ctx)) (\<lambda>recv_map.
            result_bind (try_get_recover_psn recv_map) (\<lambda>recover_psn.
              Ok (rc_is_read_resp ctx, is_complete recv_map, last_psn recv_map, recover_psn)))
        | None \<Rightarrow> Ok (False, False, psn_new 0, None))
       (\<lambda>(is_read_resp, is_completed, last_psn, recover_psn).
     result_bind
       (if is_completed then
          let self = with_recv (remove_ctx qpn msn) self
          in if is_read_resp then Ok (wakeup_user_op_ctx qpn msn self)
             else result_bind (send_ack crc32 qpn msn last_psn self) (\<lambda>self. Ok (cancel_retry qpn msn self))
        else Ok self) (\<lambda>self.
     result_bind (unwrap (get_per_qp_ctx_mut qpn (pc_recv_ctx_map self))) (\<lambda>perqp_map.
       if length (pq_map perqp_map) \<le> 1 then
         let largest_psn_recved = pq_largest_psn_recved perqp_map
         in case recover_psn of
              Some recover_psn \<Rightarrow>
                if recover_psn \<noteq> wrapping_add largest_psn_recved 1 then Ok self
                else Ok (try_recover qpn recover_psn self)
            | None \<Rightarrow> Ok self
       else Ok self))))"

definition enter_qp_error_status ::
  "Qpn \<Rightarrow> Pmtu \<Rightarrow> Psn \<Rightarrow> Psn \<Rightarrow> 'h PacketCheckerContext \<Rightarrow> 'h PacketCheckerContext" where
  "enter_qp_error_status qpn pmtu expected_psn recved_psn self =
     (let self = (case pc_qp_table self qpn of
            Some qp \<Rightarrow> self\<lparr> pc_qp_table := (pc_qp_table self)(qpn \<mapsto> qp\<lparr> qc_status := OutOfOrder \<rparr>) \<rparr>
          | None \<Rightarrow> self);
          (per_qp_map, recv_ctx_map) = get_or_create_per_qp_ctx_mut qpn recved_psn (pc_recv_ctx_map self);
          start_psn = wrapping_sub expected_psn 1;
          per_qp_map = per_qp_map\<lparr> pq_map :=
            map (\<lambda>(k, ctx). (k, create_map_on_psn start_psn recved_psn pmtu ctx)) (pq_map per_qp_map) \<rparr>
      in self\<lparr> pc_recv_ctx_map := recv_ctx_map(qpn \<mapsto> per_qp_map) \<rparr>)"

text \<open>
  A middle or last packet of a message that has a context; the result says whether to
  check the message afterwards.
\<close>

definition handle_ooo_middle ::
  "(u8 list \<Rightarrow> u32) \<Rightarrow> ToHostWorkRbDescWriteOrReadResp \<Rightarrow> Psn \<Rightarrow> 'h PacketCheckerContext \<Rightarrow>
   (panic, 'h PacketCheckerContext \<times> bool) result" where
  "handle_ooo_middle crc32 event largest_psn_recved self =
     (let qpn = hw_dqpn (ho_common event);
          msn = hw_msn (ho_common event);
          recved_psn = ho_psn event
      in case get_ctx_mut qpn msn (pc_recv_ctx_map self) of
           Some ctx \<Rightarrow>
             (let expected_psn = hw_expected_psn (ho_common event);
                  rng = get_continous_range largest_psn_recved expected_psn
              in result_bind (unwrap (rc_recv_map ctx)) (\<lambda>recv_map.
                   let recv_map = (case rng of Some continous_range \<Rightarrow> sw_insert continous_range recv_map | None \<Rightarrow> recv_map);
                       recv_map = sw_insert (recved_psn, recved_psn) recv_map;
                       self = with_recv (put_ctx qpn msn (ctx\<lparr> rc_recv_map := Some recv_map \<rparr>)) self
                   in result_bind (get_recent_gap recv_map) (\<lambda>gap.
                      result_bind
                        (case gap of
                           Some (start_psn, end_psn) \<Rightarrow> send_nack crc32 qpn msn start_psn end_psn self
                         | None \<Rightarrow> Ok self) (\<lambda>self.
                        Ok (self, True)))))
         | None \<Rightarrow> Ok (self, False))"

definition handle_qp_ooo ::
  "(u8 list \<Rightarrow> u32) \<Rightarrow> ToHostWorkRbDescWriteOrReadResp \<Rightarrow> Pmtu \<Rightarrow> 'h PacketCheckerContext \<Rightarrow>
   (panic, 'h PacketCheckerContext) result" where
  "handle_qp_ooo crc32 event pmtu self =
     (let qpn = hw_dqpn (ho_common event);
          msn = hw_msn (ho_common event)
      in result_bind (unwrap (get_per_qp_ctx_mut qpn (pc_recv_ctx_map self))) (\<lambda>per_qp_map.
         let largest_psn_recved = pq_largest_psn_recved per_qp_map;
             recved_psn = ho_psn event
         in result_bind
              (case ho_write_type event of
                 WtFirst \<Rightarrow>
                   Ok (if query_recent_msn_status qpn msn (pc_recv_ctx_map self) = NoExist
                       then with_recv (insert_ctx qpn msn (new_with_recvmap event pmtu)) self else self, False)
               | WtMiddle \<Rightarrow> handle_ooo_middle crc32 event largest_psn_recved self
               | WtLast \<Rightarrow> handle_ooo_middle crc32 event largest_psn_recved self
               | WtOnly \<Rightarrow> result_bind (handle_only crc32 event self) (\<lambda>self. Ok (self, False)))
              (\<lambda>(self, need_check_completed_or_try_recover).
            result_bind (unwrap (get_per_qp_ctx_mut qpn (pc_recv_ctx_map self))) (\<lambda>per_qp_map.
              let self = with_recv (\<lambda>m. m(qpn \<mapsto> update_largest_psn_recved recved_psn per_qp_map)) self
              in if need_check_completed_or_try_recover then check_completed_and_try_recover crc32 qpn msn self
                 else Ok self))))"

definition handle_check_event ::
  "(u8 list \<Rightarrow> u32) \<Rightarrow> PacketCheckEvent \<Rightarrow> 'h PacketCheckerContext \<Rightarrow> (panic, 'h PacketCheckerContext) result" where
  "handle_check_event crc32 event self =
     (case event of
        EvWrite event \<Rightarrow>
          (let qpn = hw_dqpn (ho_common event);
               expected_psn = hw_expected_psn (ho_common event);
               psn = ho_psn event;
               enter_error = (expected_psn \<noteq> psn)
           in case pc_qp_table self qpn of
                None \<Rightarrow> Ok self
              | Some qp \<Rightarrow>
                  (let pmtu = qc_pmtu qp
                   in if is_normal (qc_status qp) \<and> enter_error
                      then handle_qp_ooo crc32 event pmtu (enter_qp_error_status qpn pmtu expected_psn psn self)
                      else if is_normal (qc_status qp) then handle_qp_normal crc32 event self
                      else handle_qp_ooo crc32 event pmtu self))
      | EvReadReq event \<Rightarrow>
          (let self = with_recv (set_recent_msn_status (hw_dqpn (hr_common event)) (hw_msn (hr_common event)) MsnFinished) self;
               (r, qp_table) = make_read_resp event (pc_qp_table self);
               self = self\<lparr> pc_qp_table := qp_table \<rparr>
           in Ok (case r of Inr desc \<Rightarrow> send_work_desc desc self | Inl _ \<Rightarrow> self))
      | EvAck event \<Rightarrow>
          (let qpn = hw_dqpn (ha_common event);
               msn = ha_msn event
           in case ha_code event of
                AethAck \<Rightarrow> Ok (wakeup_user_op_ctx qpn msn self)
              | AethNak \<Rightarrow>
                  Ok (case get_descritpor (qpn, msn)
                        (Some (psn_get (ha_psn event), psn_get (hw_expected_psn (ha_common event)))) (pc_retry_map self) of
                        Inr (Some desc) \<Rightarrow> send_work_desc desc self
                      | _ \<Rightarrow> self)
              | AethRnr \<Rightarrow> Ok self
              | AethRsvd \<Rightarrow> Ok self))"

text \<open>The loop of the thread over the events that it receives until it is stopped.\<close>

fun working_thread ::
  "(u8 list \<Rightarrow> u32) \<Rightarrow> PacketCheckEvent list \<Rightarrow> 'h PacketCheckerContext \<Rightarrow> (panic, 'h PacketCheckerContext) result" where
  "working_thread crc32 [] ctx = Ok ctx"
| "working_thread crc32 (event # events) ctx =
     result_bind (handle_check_event crc32 event ctx) (working_thread crc32 events)"

subsection \<open>Windows that hold their first packet\<close>

text \<open>
  Any range inserted keeps the intervals in order and the offsets covered; what it adds
  lies in the range.
\<close>

lemma insert_offsets_grows:
  assumes "sw_inv m" "unat l \<le> unat r" "unat r < 2 ^ 23"
  shows "sw_inv (insert_offsets l r m) \<and> coverage (bt_get m) \<subseteq> coverage (bt_get (insert_offsets l r m)) \<and>
    coverage (bt_get (insert_offsets l r m)) \<subseteq> coverage (bt_get m) \<union> {unat l..unat r}"
proof (cases "reaches l r m")
  case True
  then show ?thesis
    using insert_offsets_exact[OF assms] by blast
next
  case False
  then obtain rs re where nb: "bt_first_gt l m = Some (rs, re)"
    by (cases "bt_first_gt l m") (auto simp: reaches_def)
  with False have r: "unat rs \<le> unat r + 1" "unat re < unat r"
    by (simp_all add: reaches_def)
  have rs: "unat l < unat rs" "unat rs \<le> unat re" "unat re < 2 ^ 23"
    using right_neighbour[OF assms(1) nb] by auto
  have left: "unat le < unat rs" if "bt_last_le l m = Some (ls, le)" for ls le
    using left_neighbour(1,2)[OF assms(1) that] right_neighbour(1)[OF assms(1) nb] rs(1) assms(1)
      ivs_ok_sep[of "bt_get m" ls le rs re] by (simp add: sw_inv_def)
  have "\<not> rs \<le> l" "rs - 1 \<le> r" "rs - 1 \<le> re"
    using rs r(1) unat_pred_iv[of l rs] by (auto simp: word_le_nat_alt)
  moreover have "\<not> r \<le> le" "\<not> re \<le> le" if "bt_last_le l m = Some (ls, le)" for ls le
    using left[OF that] rs r by (auto simp: word_le_nat_alt)
  ultimately have eq: "insert_offsets l r m = insert_offsets l re m"
    using nb by (cases "m = []") (simp_all add: insert_offsets_def Let_def split: option.splits)
  have "reaches l re m"
    using nb by (simp add: reaches_def)
  then have "exact_insert l re m (insert_offsets l re m)"
    using insert_offsets_exact[OF assms(1), of l re] rs by simp
  then show ?thesis
    unfolding eq using r(2) by auto
qed

definition window_started :: "SlidingWindow \<Rightarrow> bool" where
  "window_started w \<longleftrightarrow> window_ok w \<and> bt_get (sw_intervals w) 0 \<noteq> None"

lemma zero_covered: "0 \<in> coverage g \<longleftrightarrow> g 0 \<noteq> None"
  by (auto simp: coverage_def unat_eq_zero)

abbreviation range_ordered :: "Psn \<Rightarrow> Psn \<times> Psn \<Rightarrow> bool" where
  "range_ordered start rng \<equiv>
     psn_offset start (fst rng) < 2 ^ 23 \<longrightarrow> psn_offset start (snd rng) < 2 ^ 23 \<longrightarrow>
     psn_offset start (fst rng) \<le> psn_offset start (snd rng)"

lemma sw_insert_grows:
  assumes "window_ok w" "range_ordered (sw_start_psn w) rng"
  shows "window_ok (sw_insert rng w) \<and> window_cov w \<subseteq> window_cov (sw_insert rng w)"
proof -
  obtain "from" "to" where rng: "rng = (from, to)"
    by fastforce
  show ?thesis
    using assms insert_offsets_grows[OF assms(1), of
        "psn_get (wrapping_sub from (psn_get (sw_start_psn w)))" "psn_get (wrapping_sub to (psn_get (sw_start_psn w)))"]
    by (auto simp: rng sw_insert_def Let_def psn_offset_def PSN_MAX_WINDOW_SIZE_eq word_le_nat_alt not_le)
qed

lemma window_started_insert:
  assumes "window_started w" "range_ordered (sw_start_psn w) rng"
  shows "window_started (sw_insert rng w)"
  using sw_insert_grows[of w rng] assms unfolding window_started_def zero_covered[symmetric] by auto

lemma get_recent_gap_Ok:
  assumes "window_ok w"
  shows "\<exists>gap. get_recent_gap w = Ok gap"
proof -
  have ok: "bt_invar (sw_intervals w)" "ivs_ok (bt_get (sw_intervals w))"
    using assms by (simp_all add: sw_inv_def)
  have "left + 1 \<noteq> right" if "rev (sw_intervals w) = (left, e) # (s, right) # rest" for left e s right rest
  proof -
    have iv: "sw_intervals w = rev rest @ [(s, right), (left, e)]"
      using arg_cong[OF that, of rev] by simp
    have get: "bt_get (sw_intervals w) s = Some right" "bt_get (sw_intervals w) left = Some e"
      using bt_get_mem[OF ok(1)] iv by simp_all
    have "s < left"
      using ok(1) iv by (simp add: bt_invar_def sorted_wrt_append)
    then have "unat right + 1 < unat left" "unat left < 2 ^ 23"
      using ivs_ok_sep[OF ok(2) get] ivs_okD[OF ok(2) get(2)] by (auto simp: word_less_nat_alt)
    then show ?thesis
      using unat_succ_iv[of left] by auto
  qed
  then show ?thesis
    by (auto simp: get_recent_gap_def Let_def split: list.splits)
qed

lemma try_get_recover_psn_Ok:
  "window_started w \<Longrightarrow> \<exists>p. try_get_recover_psn w = Ok p"
  by (auto simp: window_started_def try_get_recover_psn_def Let_def)

lemma psn_offset_int:
  "psn_ok p \<Longrightarrow> int (psn_offset start p) = (uint (psn_get p) - uint (psn_get start)) mod 2 ^ 24"
  using uint_wrapping_sub[of p "psn_get start"] by (simp add: psn_offset_def)

text \<open>The range that the card received without reporting it is never inverted.\<close>

lemma continous_range_ordered:
  assumes "get_continous_range largest expected = Some rng" "psn_ok expected"
  shows "range_ordered start rng"
proof (intro impI)
  let ?l = "wrapping_add largest 1" and ?r = "wrapping_sub expected 1"
  assume small: "psn_offset start (fst rng) < 2 ^ 23" "psn_offset start (snd rng) < 2 ^ 23"
  have rng: "rng = (?l, ?r)" "uint (psn_get (wrapping_sub ?r (psn_get ?l))) \<le> 2 ^ 23"
    using assms(1) by (auto simp: get_continous_range_def Let_def PSN_MAX_WINDOW_SIZE_eq word_le_def split: if_splits)
  have r: "psn_ok ?r"
    using assms(2) by (rule psn_ok_wrapping_sub)
  define l r s where "l = uint (psn_get ?l)" and "r = uint (psn_get ?r)" and "s = uint (psn_get start)"
  have off: "int (psn_offset start ?l) = (l - s) mod 2 ^ 24" "int (psn_offset start ?r) = (r - s) mod 2 ^ 24"
    using psn_offset_int[OF psn_ok_wrapping_add] psn_offset_int[OF r] by (simp_all add: l_def r_def s_def)
  have "(r - l) mod 2 ^ 24 \<le> 2 ^ 23"
    using rng(2) uint_wrapping_sub[OF r] by (simp add: l_def r_def)
  moreover have "(r - l) mod 2 ^ 24 = ((r - s) mod 2 ^ 24 - (l - s) mod 2 ^ 24) mod 2 ^ 24"
    by (simp add: mod_diff_eq)
  ultimately have "(int (psn_offset start ?r) - int (psn_offset start ?l)) mod 2 ^ 24 \<le> 2 ^ 23"
    by (simp add: off)
  then show "psn_offset start (fst rng) \<le> psn_offset start (snd rng)"
    using small int_mod_window[of "2 ^ 24" "int (psn_offset start ?r) - int (psn_offset start ?l)"]
    by (auto simp: rng(1) split: if_splits)
qed

subsection \<open>The checker does not panic\<close>

text \<open>
  Every queue pair that is out of order has its contexts, and each of them has a window
  that holds the first packet. \<open>Q\<close> are the queue pairs that are out of order.
\<close>

definition ctx_tracked :: "RecvContext \<Rightarrow> bool" where
  "ctx_tracked ctx = (case rc_recv_map ctx of None \<Rightarrow> False | Some w \<Rightarrow> window_started w)"

definition pq_tracked :: "PerQpContextMap \<Rightarrow> bool" where
  "pq_tracked p \<longleftrightarrow> (\<forall>msn ctx. bt_get (pq_map p) msn = Some ctx \<longrightarrow> ctx_tracked ctx)"

definition pq_ok :: "PerQpContextMap \<Rightarrow> bool" where
  "pq_ok p \<longleftrightarrow>
     bt_invar (pq_map p) \<and> (\<forall>msn ctx. bt_get (pq_map p) msn = Some ctx \<longrightarrow> psn_ok (rc_start_psn ctx))"

definition recv_inv :: "Qpn set \<Rightarrow> RecvContextMap \<Rightarrow> bool" where
  "recv_inv Q m \<longleftrightarrow> (\<forall>q p. m q = Some p \<longrightarrow> pq_ok p) \<and> (\<forall>q \<in> Q. \<exists>p. m q = Some p \<and> pq_tracked p)"

definition out_of_order :: "(Qpn \<rightharpoonup> QpContext) \<Rightarrow> Qpn set" where
  "out_of_order qp_table = {q. \<exists>qp. qp_table q = Some qp \<and> \<not> is_normal (qc_status qp)}"

definition bufs_ok :: "'h PacketCheckerContext \<Rightarrow> bool" where
  "bufs_ok self \<longleftrightarrow> pb_slot_length (pc_ack_buffers self) \<noteq> 0 \<and> (\<forall>a. length (pc_ack_mem self a) = 128)"

definition checker_inv :: "'h PacketCheckerContext \<Rightarrow> bool" where
  "checker_inv self \<longleftrightarrow> recv_inv (out_of_order (pc_qp_table self)) (pc_recv_ctx_map self) \<and> bufs_ok self"

lemma pq_frame [simp]:
  "pq_map (pq_set_recent_msn_status msn st p) = pq_map p"
  "pq_largest_psn_recved (pq_set_recent_msn_status msn st p) = pq_largest_psn_recved p"
  "pq_map (update_largest_psn_recved psn p) = pq_map p"
  "pq_map (PerQpContextMap_new psn) = []"
  "pq_largest_psn_recved (PerQpContextMap_new psn) = psn"
  by (simp_all add: pq_set_recent_msn_status_def update_largest_psn_recved_def PerQpContextMap_new_def)

lemma recv_invD:
  assumes "recv_inv Q m" "m q = Some p"
  shows "pq_ok p" "bt_invar (pq_map p)" "q \<in> Q \<Longrightarrow> pq_tracked p"
  using assms by (auto simp: recv_inv_def pq_ok_def)

lemma recv_inv_exists: "recv_inv Q m \<Longrightarrow> q \<in> Q \<Longrightarrow> \<exists>p. m q = Some p \<and> pq_tracked p"
  by (simp add: recv_inv_def)

lemma recv_inv_upd:
  assumes "recv_inv Q m" "pq_ok p" "q \<in> Q \<Longrightarrow> pq_tracked p"
  shows "recv_inv Q (m(q \<mapsto> p))"
  using assms by (auto simp: recv_inv_def)

lemma pq_inv_frame [simp]:
  "pq_tracked (pq_set_recent_msn_status msn st p) = pq_tracked p"
  "pq_tracked (update_largest_psn_recved psn p) = pq_tracked p"
  "pq_tracked (PerQpContextMap_new psn)"
  "pq_ok (pq_set_recent_msn_status msn st p) = pq_ok p"
  "pq_ok (update_largest_psn_recved psn p) = pq_ok p"
  "pq_ok (PerQpContextMap_new psn)"
  by (simp_all add: pq_tracked_def pq_ok_def)

lemma pq_inv_insert:
  assumes "psn_ok (rc_start_psn ctx)" "pq_ok p"
  shows "pq_ok (p\<lparr> pq_map := bt_insert msn ctx (pq_map p) \<rparr>)"
    "pq_tracked p \<Longrightarrow> ctx_tracked ctx \<Longrightarrow> pq_tracked (p\<lparr> pq_map := bt_insert msn ctx (pq_map p) \<rparr>)"
  using assms by (auto simp: pq_tracked_def pq_ok_def bt_get_insert bt.invar_ins split: if_splits)

lemma pq_inv_remove:
  assumes "pq_ok p"
  shows "pq_ok (p\<lparr> pq_map := bt_remove msn (pq_map p) \<rparr>)"
    "pq_tracked p \<Longrightarrow> pq_tracked (p\<lparr> pq_map := bt_remove msn (pq_map p) \<rparr>)"
  using assms by (auto simp: pq_tracked_def pq_ok_def bt_get_remove bt.invar_rem split: if_splits)

lemma recv_inv_set_recent [invs]:
  "recv_inv Q m \<Longrightarrow> recv_inv Q (set_recent_msn_status qpn msn st m)"
  using recv_invD[of Q m qpn]
  by (auto simp: set_recent_msn_status_def split: option.splits intro!: recv_inv_upd)

lemma recv_inv_remove [invs]: "recv_inv Q m \<Longrightarrow> recv_inv Q (remove_ctx qpn msn m)"
  using recv_invD[of Q m qpn]
  by (auto simp: remove_ctx_def pq_inv_remove split: option.splits intro!: recv_inv_upd)

lemma recv_inv_insert [invs]:
  assumes "recv_inv Q m" "psn_ok (rc_start_psn ctx)" "qpn \<in> Q \<Longrightarrow> ctx_tracked ctx"
  shows "recv_inv Q (insert_ctx qpn msn ctx m)"
proof (cases "m qpn")
  case None
  then have "qpn \<notin> Q"
    using recv_inv_exists[OF assms(1), of qpn] by auto
  with None show ?thesis
    using assms(1) pq_inv_insert(1)[OF assms(2), of "PerQpContextMap_new (psn_new 0)"]
    by (auto simp: insert_ctx_def Let_def intro!: recv_inv_upd)
next
  case (Some p)
  then show ?thesis
    using assms pq_inv_insert[OF assms(2), of p] recv_invD[OF assms(1) Some]
    by (auto simp: insert_ctx_def Let_def intro!: recv_inv_upd)
qed

lemma recv_inv_put [invs]:
  assumes "recv_inv Q m" "psn_ok (rc_start_psn ctx)" "qpn \<in> Q \<Longrightarrow> ctx_tracked ctx"
  shows "recv_inv Q (put_ctx qpn msn ctx m)"
  using assms pq_inv_insert[OF assms(2)] recv_invD[OF assms(1), of qpn]
  by (auto simp: put_ctx_def split: option.splits intro!: recv_inv_upd)

lemma recv_inv_largest [invs]:
  "recv_inv Q m \<Longrightarrow> m qpn = Some p \<Longrightarrow> recv_inv Q (m(qpn \<mapsto> update_largest_psn_recved psn p))"
  using recv_invD[of Q m qpn p] by (auto intro!: recv_inv_upd)

lemma psn_offset_self: "psn_ok p \<Longrightarrow> psn_offset p p = 0"
  using uint_wrapping_sub[of p "psn_get p"] by (simp add: psn_offset_def uint_0_iff)

lemma window_started_first:
  assumes "psn_ok psn" "psn_offset psn cont < 2 ^ 23"
  shows "window_started (sw_insert (psn, cont) (SlidingWindow_new psn n))"
proof -
  define r where "r = psn_get (wrapping_sub cont (psn_get psn))"
  have r: "unat r < 2 ^ 23"
    using assms(2) by (simp add: r_def psn_offset_def)
  have "psn_get (wrapping_sub psn (psn_get psn)) = 0"
    using psn_offset_self[OF assms(1)] by (simp add: psn_offset_def unat_eq_zero)
  then have iv: "sw_intervals (sw_insert (psn, cont) (SlidingWindow_new psn n)) = [(0, r)]"
    using r by (simp add: sw_insert_def SlidingWindow_new_def is_complete_def bt_first_def insert_offsets_def Let_def
        PSN_MAX_WINDOW_SIZE_eq word_le_nat_alt not_le r_def[symmetric])
  have "sw_inv [(0, r)]"
    using r by (simp add: sw_inv_def bt_invar_def ivs_ok_def)
  with iv show ?thesis
    by (simp add: window_started_def)
qed

lemma new_with_recvmap_tracked [invs]: "psn_ok (ho_psn event) \<Longrightarrow> ctx_tracked (new_with_recvmap event pmtu)"
  using window_started_first[of "ho_psn event" "ho_psn event"]
  by (simp add: ctx_tracked_def new_with_recvmap_def Let_def psn_offset_self)

text \<open>Entering the error status gives each open message a window.\<close>

lemma create_map_on_psn_tracked:
  assumes "psn_ok (rc_start_psn ctx)" "psn_offset (rc_start_psn ctx) cont < 2 ^ 23"
  shows "ctx_tracked (create_map_on_psn cont psn pmtu ctx)"
  using window_started_insert[OF window_started_first[OF assms], of _ "(psn, psn)"]
  by (simp add: ctx_tracked_def create_map_on_psn_def Let_def)

lemma bt_get_map: "bt_get (map (\<lambda>(k, v). (k, f v)) m) = map_option f \<circ> bt_get m"
  by (simp add: bt_get_def map_of_map)

lemma bt_invar_map: "bt_invar (map (\<lambda>(k, v). (k, f v)) m) = bt_invar m"
  by (simp add: bt_invar_def case_prod_unfold comp_def)

lemma pq_inv_create_maps:
  assumes "pq_ok p"
    and "\<And>msn ctx. bt_get (pq_map p) msn = Some ctx \<Longrightarrow> psn_offset (rc_start_psn ctx) cont < 2 ^ 23"
  shows "pq_ok (p\<lparr> pq_map := map (\<lambda>(k, ctx). (k, create_map_on_psn cont psn pmtu ctx)) (pq_map p) \<rparr>)"
    "pq_tracked (p\<lparr> pq_map := map (\<lambda>(k, ctx). (k, create_map_on_psn cont psn pmtu ctx)) (pq_map p) \<rparr>)"
proof -
  have "rc_start_psn (create_map_on_psn cont psn pmtu ctx) = rc_start_psn ctx" for ctx
    by (simp add: create_map_on_psn_def Let_def)
  then show "pq_ok (p\<lparr> pq_map := map (\<lambda>(k, ctx). (k, create_map_on_psn cont psn pmtu ctx)) (pq_map p) \<rparr>)"
    "pq_tracked (p\<lparr> pq_map := map (\<lambda>(k, ctx). (k, create_map_on_psn cont psn pmtu ctx)) (pq_map p) \<rparr>)"
    using assms by (auto simp: pq_ok_def pq_tracked_def bt_get_map bt_invar_map intro!: create_map_on_psn_tracked)
qed

lemma enter_qp_error_status_inv:
  assumes "recv_inv Q (pc_recv_ctx_map self)"
    and "\<And>p msn ctx. pc_recv_ctx_map self qpn = Some p \<Longrightarrow> bt_get (pq_map p) msn = Some ctx \<Longrightarrow>
      psn_offset (rc_start_psn ctx) (wrapping_sub expected 1) < 2 ^ 23"
  shows "recv_inv (insert qpn Q) (pc_recv_ctx_map (enter_qp_error_status qpn pmtu expected psn self))"
proof -
  define p where "p = (case pc_recv_ctx_map self qpn of None \<Rightarrow> PerQpContextMap_new psn | Some p \<Rightarrow> p)"
  define p' where "p' = p\<lparr> pq_map := map (\<lambda>(k, ctx). (k, create_map_on_psn (wrapping_sub expected 1) psn pmtu ctx)) (pq_map p) \<rparr>"
  have "pq_ok p"
    using recv_invD(1)[OF assms(1)] by (auto simp: p_def split: option.splits)
  moreover have "psn_offset (rc_start_psn ctx) (wrapping_sub expected 1) < 2 ^ 23"
    if "bt_get (pq_map p) msn = Some ctx" for msn ctx
    using that assms(2) by (auto simp: p_def split: option.splits)
  ultimately have p': "pq_ok p'" "pq_tracked p'"
    unfolding p'_def by (intro pq_inv_create_maps; blast)+
  have "pc_recv_ctx_map (enter_qp_error_status qpn pmtu expected psn self) = (pc_recv_ctx_map self)(qpn \<mapsto> p')"
    by (simp add: enter_qp_error_status_def get_or_create_per_qp_ctx_mut_def p'_def p_def Let_def split: option.splits)
  with assms(1) p' show ?thesis
    by (auto simp: recv_inv_def)
qed

lemma enter_qp_error_status_frame [simp]:
  "bufs_ok (enter_qp_error_status qpn pmtu expected psn self) = bufs_ok self"
  "pc_qp_table (enter_qp_error_status qpn pmtu expected psn self) =
     (case pc_qp_table self qpn of
        Some qp \<Rightarrow> (pc_qp_table self)(qpn \<mapsto> qp\<lparr> qc_status := OutOfOrder \<rparr>) | None \<Rightarrow> pc_qp_table self)"
  by (simp_all add: enter_qp_error_status_def bufs_ok_def Let_def split: option.splits prod.splits)

text \<open>Results that are not a panic and satisfy a condition.\<close>

definition returns :: "('a \<Rightarrow> bool) \<Rightarrow> (panic, 'a) result \<Rightarrow> bool" where
  "returns P r = (case r of Inr a \<Rightarrow> P a | Inl _ \<Rightarrow> False)"

lemma returns_Ok [simp]: "returns P (Ok a) = P a"
  by (simp add: returns_def)

lemma returns_iff: "returns P r \<longleftrightarrow> (\<exists>a. r = Ok a \<and> P a)"
  by (cases r) (simp_all add: returns_def)

lemma returns_bind:
  "returns P r \<Longrightarrow> (\<And>a. P a \<Longrightarrow> returns Q (f a)) \<Longrightarrow> returns Q (result_bind r f)"
  by (auto simp: returns_iff)

lemma returns_unwrap: "x = Some a \<Longrightarrow> P a \<Longrightarrow> returns P (unwrap x)"
  by simp

text \<open>What sending leaves alone: everything but the buffers and what was sent.\<close>

definition same_tables :: "'h PacketCheckerContext \<Rightarrow> 'h PacketCheckerContext \<Rightarrow> bool" where
  "same_tables s s' \<longleftrightarrow> pc_recv_ctx_map s' = pc_recv_ctx_map s \<and> pc_qp_table s' = pc_qp_table s \<and> (bufs_ok s \<longrightarrow> bufs_ok s')"

lemma same_tables_refl [simp]: "same_tables s s"
  by (simp add: same_tables_def)

lemma same_tables_trans [trans]: "same_tables s t \<Longrightarrow> same_tables t u \<Longrightarrow> same_tables s u"
  by (simp add: same_tables_def)

lemma send_work_desc_tables [simp]: "same_tables s (send_work_desc d s)"
  by (simp add: same_tables_def send_work_desc_def bufs_ok_def)

lemma wakeup_tables [simp]: "same_tables s (wakeup_user_op_ctx qpn msn s)"
  by (auto simp: same_tables_def wakeup_user_op_ctx_def bufs_ok_def split: option.splits sum.splits)

lemma cancel_retry_tables [simp]: "same_tables s (cancel_retry qpn msn s)"
  by (simp add: same_tables_def cancel_retry_def bufs_ok_def)

lemma try_recover_tables [simp]: "same_tables s (try_recover qpn psn s)"
  by (simp add: same_tables_def try_recover_def bufs_ok_def Let_def)

lemma make_ack_or_nack_Ok:
  assumes "length bytes = 128"
  shows "\<exists>r bytes'. make_ack_or_nack crc32 slot bytes qp_table qpn msn psn expected = Ok (r, bytes') \<and> length bytes' = 128"
proof (cases "qp_table qpn")
  case (Some qp)
  obtain out where "write_packet crc32 bytes (qc_local_mac qp, qc_local_ip qp) (qc_dqp_mac_addr qp, qc_dqp_ip qp)
      qpn msn psn expected = Ok out" "length out = 128"
    using write_packet_length[of bytes crc32 "(qc_local_mac qp, qc_local_ip qp)" "(qc_dqp_mac_addr qp, qc_dqp_ip qp)"
        qpn msn psn expected] assms by auto
  moreover have "\<exists>sge. into_sge RDMA_ACK_BUFFER_SLOT_SIZE slot (of_nat ACKPACKET_SIZE) = Ok sge"
    by (simp add: into_sge_def RDMA_ACK_BUFFER_SLOT_SIZE_def size_defs)
  ultimately show ?thesis
    using Some by (auto simp: make_ack_or_nack_def Let_def)
qed (simp add: make_ack_or_nack_def assms)

lemma send_slot_returns:
  assumes "bufs_ok s"
    and "\<And>slot bytes. length bytes = 128 \<Longrightarrow>
      \<exists>r bytes'. make_packet slot bytes (pc_qp_table s) = Ok (r, bytes') \<and> length bytes' = 128"
  shows "returns (same_tables s) (send_slot make_packet s)"
proof -
  obtain slot bufs where b: "recycle_buf RDMA_ACK_BUFFER_SLOT_SIZE [] (pc_ack_buffers s) = Ok (slot, bufs)"
    "pb_slot_length bufs \<noteq> 0"
    using assms(1) recycle_loop_ok[of "pc_ack_buffers s" "[]"] by (auto simp: bufs_ok_def recycle_buf_def)
  obtain r bytes where p: "make_packet slot (pc_ack_mem s (slot_ptr slot)) (pc_qp_table s) = Ok (r, bytes)" "length bytes = 128"
    using assms(1) assms(2)[of "pc_ack_mem s (slot_ptr slot)" slot] by (auto simp: bufs_ok_def)
  let ?s = "s\<lparr> pc_ack_buffers := bufs, pc_ack_mem := (pc_ack_mem s)(slot_ptr slot := bytes) \<rparr>"
  have "same_tables s ?s"
    using b(2) p(2) by (simp add: same_tables_def bufs_ok_def)
  then have "same_tables s (case r of Inr desc \<Rightarrow> send_work_desc desc ?s | Inl _ \<Rightarrow> ?s)"
    by (auto intro: same_tables_trans send_work_desc_tables split: sum.splits)
  then show ?thesis
    by (simp add: send_slot_def b(1) p(1) Let_def)
qed

lemma send_ack_returns: "bufs_ok s \<Longrightarrow> returns (same_tables s) (send_ack crc32 qpn msn psn s)"
  unfolding send_ack_def make_ack_def by (rule send_slot_returns) (simp_all add: make_ack_or_nack_Ok)

lemma send_nack_returns: "bufs_ok s \<Longrightarrow> returns (same_tables s) (send_nack crc32 qpn msn p q s)"
  unfolding send_nack_def make_nack_def by (rule send_slot_returns) (simp_all add: make_ack_or_nack_Ok)

text \<open>
  The condition under which a handler works for the queue pairs \<open>Q\<close>, and the one of the
  state it returns: the table of queue pairs is as before.
\<close>

definition handler_inv :: "(Qpn \<rightharpoonup> QpContext) \<Rightarrow> Qpn set \<Rightarrow> 'h PacketCheckerContext \<Rightarrow> bool" where
  "handler_inv T Q s \<longleftrightarrow> pc_qp_table s = T \<and> recv_inv Q (pc_recv_ctx_map s) \<and> bufs_ok s"

lemma handler_inv_same: "same_tables s s' \<Longrightarrow> handler_inv T Q s \<Longrightarrow> handler_inv T Q s'"
  by (simp add: same_tables_def handler_inv_def)

lemma handler_inv_same_simps [simp]:
  "handler_inv T Q s \<Longrightarrow> handler_inv T Q (wakeup_user_op_ctx qpn msn s)"
  "handler_inv T Q s \<Longrightarrow> handler_inv T Q (cancel_retry qpn msn s)"
  "handler_inv T Q s \<Longrightarrow> handler_inv T Q (try_recover qpn psn s)"
  "handler_inv T Q s \<Longrightarrow> handler_inv T Q (send_work_desc d s)"
  by (erule handler_inv_same[rotated], simp)+

lemma handler_inv_recv:
  "handler_inv T Q s \<Longrightarrow> (recv_inv Q (pc_recv_ctx_map s) \<Longrightarrow> recv_inv Q (f (pc_recv_ctx_map s))) \<Longrightarrow>
   handler_inv T Q (with_recv f s)"
  by (simp add: handler_inv_def with_recv_def bufs_ok_def)

lemma handler_inv_send:
  assumes "handler_inv T Q s"
  shows "returns (handler_inv T Q) (send_ack crc32 qpn msn psn s)"
    "returns (handler_inv T Q) (send_nack crc32 qpn msn p q s)"
  using send_ack_returns[of s] send_nack_returns[of s] assms handler_inv_same[of s _ T Q]
  by (auto simp: returns_iff handler_inv_def, metis+)

lemma handle_only_inv:
  "handler_inv T Q s \<Longrightarrow> returns (handler_inv T Q) (handle_only crc32 event s)"
  by (simp add: handle_only_def Let_def handler_inv_recv recv_inv_set_recent handler_inv_send)

lemma handle_qp_normal_inv:
  assumes "handler_inv T Q s" "psn_ok (ho_psn event)" "hw_dqpn (ho_common event) \<notin> Q"
  shows "returns (handler_inv T Q) (handle_qp_normal crc32 event s)"
proof (cases "ho_write_type event")
  case WtFirst
  then show ?thesis
    using assms
    by (auto simp: handle_qp_normal_def Let_def RecvContext_from_def intro!: handler_inv_recv recv_inv_insert)
next
  case WtLast
  let ?s = "with_recv (remove_ctx (hw_dqpn (ho_common event)) (hw_msn (ho_common event))) s"
  have "handler_inv T Q ?s"
    using assms(1) by (auto intro!: handler_inv_recv recv_inv_remove)
  then show ?thesis
    using WtLast by (auto simp: handle_qp_normal_def Let_def handler_inv_send intro!: returns_bind[where P = "handler_inv T Q"])
qed (use assms handle_only_inv in \<open>auto simp: handle_qp_normal_def Let_def\<close>)

lemma tracked_ctx:
  assumes "handler_inv T Q s" "qpn \<in> Q"
  obtains p where "pc_recv_ctx_map s qpn = Some p" "pq_ok p" "pq_tracked p"
  using assms recv_inv_exists[of Q "pc_recv_ctx_map s" qpn] recv_invD(1)[of Q "pc_recv_ctx_map s" qpn]
  by (auto simp: handler_inv_def)

lemma check_completed_inv:
  assumes inv: "handler_inv T Q s" and q: "qpn \<in> Q"
  shows "returns (handler_inv T Q) (check_completed_and_try_recover crc32 qpn msn s)"
  unfolding check_completed_and_try_recover_def get_per_qp_ctx_mut_def
proof (rule returns_bind[where P = pq_tracked], goal_cases)
  case 1
  show ?case
    by (rule tracked_ctx[OF inv q]) simp
next
  case (2 p)
  then have "returns (\<lambda>_. True) (case bt_get (pq_map p) msn of
      Some ctx \<Rightarrow> result_bind (unwrap (rc_recv_map ctx)) (\<lambda>recv_map.
        result_bind (try_get_recover_psn recv_map) (\<lambda>recover_psn.
          Ok (rc_is_read_resp ctx, is_complete recv_map, last_psn recv_map, recover_psn)))
    | None \<Rightarrow> Ok (False, False, psn_new 0, None))"
  proof (cases "bt_get (pq_map p) msn")
    case (Some ctx)
    with 2 obtain w where w: "rc_recv_map ctx = Some w" "window_started w"
      by (auto simp: pq_tracked_def ctx_tracked_def split: option.splits)
    then obtain r where "try_get_recover_psn w = Ok r"
      using try_get_recover_psn_Ok by blast
    with Some w(1) show ?thesis
      by simp
  qed simp
  then show ?case
  proof (rule returns_bind; clarify)
    fix is_read_resp is_completed lpsn and recover_psn :: "Psn option"
    show "returns (handler_inv T Q)
      (result_bind (if is_completed then
          let self = with_recv (remove_ctx qpn msn) s
          in if is_read_resp then Ok (wakeup_user_op_ctx qpn msn self)
             else result_bind (send_ack crc32 qpn msn lpsn self) (\<lambda>self. Ok (cancel_retry qpn msn self))
        else Ok s) (\<lambda>self.
     result_bind (unwrap (pc_recv_ctx_map self qpn)) (\<lambda>perqp_map.
       if length (pq_map perqp_map) \<le> 1 then
         let largest_psn_recved = pq_largest_psn_recved perqp_map
         in case recover_psn of
              Some recover_psn \<Rightarrow>
                if recover_psn \<noteq> wrapping_add largest_psn_recved 1 then Ok self
                else Ok (try_recover qpn recover_psn self)
            | None \<Rightarrow> Ok self
       else Ok self)))"
    proof (rule returns_bind[where P = "handler_inv T Q"], goal_cases)
      case 1
      have "handler_inv T Q (with_recv (remove_ctx qpn msn) s)"
        using inv by (auto intro!: handler_inv_recv recv_inv_remove)
      then have "returns (handler_inv T Q)
          (result_bind (send_ack crc32 qpn msn lpsn (with_recv (remove_ctx qpn msn) s)) (\<lambda>self. Ok (cancel_retry qpn msn self)))"
        by (rule returns_bind[OF handler_inv_send(1)]) (simp only: returns_Ok, rule handler_inv_same_simps(2))
      with \<open>handler_inv T Q (with_recv (remove_ctx qpn msn) s)\<close> show ?case
        using inv by (simp add: Let_def)
    next
      case (2 s')
      obtain p where "pc_recv_ctx_map s' qpn = Some p"
        by (rule tracked_ctx[OF 2 q])
      with 2 show ?case
        by (simp add: Let_def split: option.splits)
    qed
  qed
qed

lemma handle_ooo_middle_inv:
  assumes inv: "handler_inv T Q s" and q: "hw_dqpn (ho_common event) \<in> Q" and e: "psn_ok (hw_expected_psn (ho_common event))"
  shows "returns (\<lambda>(s, _). handler_inv T Q s) (handle_ooo_middle crc32 event largest s)"
proof (cases "get_ctx_mut (hw_dqpn (ho_common event)) (hw_msn (ho_common event)) (pc_recv_ctx_map s)")
  case (Some ctx)
  let ?qpn = "hw_dqpn (ho_common event)" and ?msn = "hw_msn (ho_common event)"
  obtain p where p: "pc_recv_ctx_map s ?qpn = Some p" "pq_ok p" "pq_tracked p"
    by (rule tracked_ctx[OF inv q])
  then have ctx: "psn_ok (rc_start_psn ctx)" "ctx_tracked ctx"
    using Some by (auto simp: get_ctx_mut_def pq_ok_def pq_tracked_def)
  then obtain w where w: "rc_recv_map ctx = Some w" "window_started w"
    by (auto simp: ctx_tracked_def split: option.splits)
  define w1 where "w1 = (case get_continous_range largest (hw_expected_psn (ho_common event)) of
      Some rng \<Rightarrow> sw_insert rng w | None \<Rightarrow> w)"
  define w2 where "w2 = sw_insert (ho_psn event, ho_psn event) w1"
  define s' where "s' = with_recv (put_ctx ?qpn ?msn (ctx\<lparr> rc_recv_map := Some w2 \<rparr>)) s"
  have "window_started w1"
    using w(2) e continous_range_ordered by (auto simp: w1_def split: option.splits intro!: window_started_insert)
  then have w2: "window_started w2"
    by (simp add: w2_def window_started_insert)
  then have "handler_inv T Q s'"
    unfolding s'_def using inv ctx(1) by (auto simp: ctx_tracked_def intro!: handler_inv_recv recv_inv_put)
  moreover obtain gap where "get_recent_gap w2 = Ok gap"
    using get_recent_gap_Ok w2 by (auto simp: window_started_def)
  ultimately show ?thesis
    using Some w(1)
    by (auto simp: handle_ooo_middle_def Let_def w1_def[symmetric] w2_def[symmetric] s'_def[symmetric] handler_inv_send
        split: option.splits intro!: returns_bind[where P = "handler_inv T Q"])
qed (simp add: handle_ooo_middle_def inv)

lemma handle_qp_ooo_inv:
  assumes inv: "handler_inv T Q s" and q: "hw_dqpn (ho_common event) \<in> Q"
    and e: "psn_ok (hw_expected_psn (ho_common event))" "psn_ok (ho_psn event)"
  shows "returns (handler_inv T Q) (handle_qp_ooo crc32 event pmtu s)"
  unfolding handle_qp_ooo_def Let_def get_per_qp_ctx_mut_def
proof (rule returns_bind[where P = "\<lambda>_. True"], goal_cases)
  case 1
  show ?case
    by (rule tracked_ctx[OF inv q]) simp
next
  case (2 p)
  show ?case
  proof (rule returns_bind[where P = "\<lambda>(s, _). handler_inv T Q s"], goal_cases)
    case 1
    have "handler_inv T Q (with_recv (insert_ctx (hw_dqpn (ho_common event)) (hw_msn (ho_common event))
        (new_with_recvmap event pmtu)) s)"
      using inv e(2) new_with_recvmap_tracked[OF e(2)]
      by (auto simp: new_with_recvmap_def Let_def intro!: handler_inv_recv recv_inv_insert)
    then show ?case
      using inv handle_ooo_middle_inv[OF inv q e(1)] handle_only_inv[OF inv]
      by (auto split: ToHostWorkRbDescWriteType.splits intro!: returns_bind[where P = "handler_inv T Q"])
  next
    case (2 r)
    then obtain s' check where r: "r = (s', check)" "handler_inv T Q s'"
      by auto
    obtain p where p: "pc_recv_ctx_map s' (hw_dqpn (ho_common event)) = Some p"
      by (rule tracked_ctx[OF r(2) q])
    then have "handler_inv T Q (with_recv (\<lambda>m. m(hw_dqpn (ho_common event) \<mapsto> update_largest_psn_recved (ho_psn event) p)) s')"
      using r(2) by (auto intro!: handler_inv_recv recv_inv_largest)
    with p show ?case
      by (auto simp: r(1) intro: check_completed_inv[OF _ q])
  qed
qed

text \<open>
  What the card promises about an event: its sequence numbers have 24 bits, and when it
  reports a packet out of order, what it expects lies after the start of every message
  that the queue pair has open, by less than half the sequence space.
\<close>

definition event_ok :: "PacketCheckEvent \<Rightarrow> 'h PacketCheckerContext \<Rightarrow> bool" where
  "event_ok event s =
     (case event of
        EvWrite e \<Rightarrow>
          psn_ok (ho_psn e) \<and> psn_ok (hw_expected_psn (ho_common e)) \<and>
          (case pc_recv_ctx_map s (hw_dqpn (ho_common e)) of
             None \<Rightarrow> True
           | Some p \<Rightarrow>
               hw_expected_psn (ho_common e) = ho_psn e \<or>
               list_all (\<lambda>(_, ctx). psn_offset (rc_start_psn ctx) (wrapping_sub (hw_expected_psn (ho_common e)) 1) < 2 ^ 23)
                 (pq_map p))
      | _ \<Rightarrow> True)"

text \<open>
  The checker and the threads that share its tables: an event, the handler of a recovery,
  queue pairs that come and go or move on, and operations and retry records.
\<close>

inductive checker_step :: "(u8 list \<Rightarrow> u32) \<Rightarrow> 'h PacketCheckerContext \<Rightarrow> 'h PacketCheckerContext \<Rightarrow> bool" for crc32 where
  step_event: "event_ok event s \<Longrightarrow> handle_check_event crc32 event s = Ok s' \<Longrightarrow> checker_step crc32 s s'"
| step_recover: "checker_step crc32 s (s\<lparr> pc_qp_table := recover_handler qpn is_succ (pc_qp_table s) \<rparr>)"
| step_create_qp: "qc_status qp = Normal \<Longrightarrow> checker_step crc32 s (s\<lparr> pc_qp_table := (pc_qp_table s)(qpn \<mapsto> qp) \<rparr>)"
| step_destroy_qp: "checker_step crc32 s (s\<lparr> pc_qp_table := (pc_qp_table s)(qpn := None) \<rparr>)"
| step_use_qp: "pc_qp_table s qpn = Some qp \<Longrightarrow> qc_status qp' = qc_status qp \<Longrightarrow>
    checker_step crc32 s (s\<lparr> pc_qp_table := (pc_qp_table s)(qpn \<mapsto> qp') \<rparr>)"
| step_ops: "checker_step crc32 s (s\<lparr> pc_user_op_ctx_map := ops, pc_retry_map := retries, pc_work_ok := w, pc_ctrl_ok := c \<rparr>)"

inductive_cases checker_stepE: "checker_step crc32 s s'"

definition checker_start :: "'h PacketCheckerContext \<Rightarrow> bool" where
  "checker_start s \<longleftrightarrow> pc_recv_ctx_map s = RecvContextMap_new \<and> out_of_order (pc_qp_table s) = {} \<and> bufs_ok s"

lemma checker_inv_start: "checker_start s \<Longrightarrow> checker_inv s"
  by (simp add: checker_start_def checker_inv_def recv_inv_def RecvContextMap_new_def)

lemma recv_inv_mono: "recv_inv Q m \<Longrightarrow> Q' \<subseteq> Q \<Longrightarrow> recv_inv Q' m"
  by (auto simp: recv_inv_def)

lemma handler_inv_start:
  "checker_inv s \<longleftrightarrow> handler_inv (pc_qp_table s) (out_of_order (pc_qp_table s)) s"
  by (simp add: checker_inv_def handler_inv_def)

lemma handler_inv_end: "handler_inv T (out_of_order T) s \<Longrightarrow> checker_inv s"
  by (simp add: checker_inv_def handler_inv_def)

lemma handle_write_inv:
  assumes inv: "checker_inv s" and ok: "event_ok (EvWrite e) s"
  shows "returns checker_inv (handle_check_event crc32 (EvWrite e) s)"
proof (cases "pc_qp_table s (hw_dqpn (ho_common e))")
  case (Some qp)
  let ?qpn = "hw_dqpn (ho_common e)" and ?psn = "ho_psn e" and ?exp = "hw_expected_psn (ho_common e)" and ?T = "pc_qp_table s"
  have psn: "psn_ok ?psn" "psn_ok ?exp"
    using ok by (simp_all add: event_ok_def)
  have finish: "returns checker_inv r" if "returns (handler_inv T (out_of_order T)) r" for T r
    using that handler_inv_end by (auto simp: returns_iff)
  have h: "handler_inv ?T (out_of_order ?T) s"
    using inv by (simp add: handler_inv_start)
  consider "is_normal (qc_status qp)" "?exp \<noteq> ?psn" | "is_normal (qc_status qp)" "?exp = ?psn" | "\<not> is_normal (qc_status qp)"
    by blast
  then show ?thesis
  proof cases
    case 1
    let ?s = "enter_qp_error_status ?qpn (qc_pmtu qp) ?exp ?psn s"
    have T: "pc_qp_table ?s = ?T(?qpn \<mapsto> qp\<lparr> qc_status := OutOfOrder \<rparr>)"
      by (simp add: Some)
    then have ooo: "out_of_order (pc_qp_table ?s) = insert ?qpn (out_of_order ?T)"
      by (auto simp: out_of_order_def)
    have "psn_offset (rc_start_psn ctx) (wrapping_sub ?exp 1) < 2 ^ 23"
      if "pc_recv_ctx_map s ?qpn = Some p" "bt_get (pq_map p) m = Some ctx" for p m ctx
      using ok 1(2) that(1) map_of_SomeD[of "pq_map p" m ctx] that(2)
      by (auto simp: event_ok_def list_all_iff bt_get_def)
    then have "recv_inv (out_of_order (pc_qp_table ?s)) (pc_recv_ctx_map ?s)"
      unfolding ooo using inv by (intro enter_qp_error_status_inv) (simp_all add: checker_inv_def)
    then have hs: "handler_inv (pc_qp_table ?s) (out_of_order (pc_qp_table ?s)) ?s"
      using inv by (simp add: handler_inv_def checker_inv_def)
    have "?qpn \<in> out_of_order (pc_qp_table ?s)"
      unfolding ooo by simp
    then have "returns checker_inv (handle_qp_ooo crc32 e (qc_pmtu qp) ?s)"
      using psn by (intro finish[OF handle_qp_ooo_inv[OF hs]])
    with 1 Some show ?thesis
      by (simp add: handle_check_event_def Let_def)
  next
    case 2
    then have "returns checker_inv (handle_qp_normal crc32 e s)"
      using psn(1) Some by (intro finish[OF handle_qp_normal_inv[OF h]]) (simp_all add: out_of_order_def)
    with 2 Some show ?thesis
      by (simp add: handle_check_event_def Let_def)
  next
    case 3
    then have "returns checker_inv (handle_qp_ooo crc32 e (qc_pmtu qp) s)"
      using psn Some by (intro finish[OF handle_qp_ooo_inv[OF h]]) (simp_all add: out_of_order_def)
    with 3 Some show ?thesis
      by (simp add: handle_check_event_def Let_def)
  qed
qed (simp add: handle_check_event_def inv)

lemma handle_check_event_inv:
  assumes "checker_inv s" "event_ok event s"
  shows "returns checker_inv (handle_check_event crc32 event s)"
proof (cases event)
  case (EvWrite e)
  with assms show ?thesis
    by (simp add: handle_write_inv)
next
  case (EvAck e)
  have "checker_inv (wakeup_user_op_ctx qpn msn s)" "checker_inv (send_work_desc d s)" for qpn msn d
    using assms(1) wakeup_tables[of s qpn msn] send_work_desc_tables[of s d] by (simp_all add: checker_inv_def same_tables_def)
  with EvAck assms(1) show ?thesis
    by (auto simp: handle_check_event_def Let_def split: ToHostWorkRbDescAethCode.splits sum.splits option.splits)
next
  case (EvReadReq e)
  let ?s = "with_recv (set_recent_msn_status (hw_dqpn (hr_common e)) (hw_msn (hr_common e)) MsnFinished) s"
  obtain r T where r: "make_read_resp e (pc_qp_table s) = (r, T)"
    by fastforce
  have "out_of_order T = out_of_order (pc_qp_table s)"
    using r by (auto simp: make_read_resp_def Let_def out_of_order_def split: option.splits if_splits)
  then have "checker_inv (?s\<lparr> pc_qp_table := T \<rparr>)"
    using assms(1) recv_inv_set_recent by (auto simp: checker_inv_def with_recv_def bufs_ok_def)
  then have "checker_inv (send_work_desc d (?s\<lparr> pc_qp_table := T \<rparr>))" for d
    using send_work_desc_tables[of "?s\<lparr> pc_qp_table := T \<rparr>" d] by (simp add: checker_inv_def same_tables_def)
  with \<open>checker_inv (?s\<lparr> pc_qp_table := T \<rparr>)\<close> show ?thesis
    using EvReadReq r by (simp add: handle_check_event_def Let_def with_recv_def split: sum.splits)
qed

lemma checker_inv_table:
  assumes "checker_inv s" "out_of_order T \<subseteq> out_of_order (pc_qp_table s)"
  shows "checker_inv (s\<lparr> pc_qp_table := T \<rparr>)"
  using assms recv_inv_mono by (auto simp: checker_inv_def bufs_ok_def)

lemma checker_inv_step:
  assumes "checker_step crc32 s s'" "checker_inv s"
  shows "checker_inv s'"
  using assms
proof cases
  case (step_event event)
  then show ?thesis
    using handle_check_event_inv[OF assms(2), of event crc32] by (simp add: returns_def)
next
  case (step_recover qpn is_succ)
  then show ?thesis
    using assms(2)
    by (auto simp: recover_handler_def out_of_order_def split: option.splits if_splits intro!: checker_inv_table)
qed (use assms(2) in \<open>auto simp: out_of_order_def split: if_splits intro!: checker_inv_table\<close>,
     simp add: checker_inv_def bufs_ok_def)

lemma checker_inv_reachable: "(checker_step crc32)\<^sup>*\<^sup>* s s' \<Longrightarrow> checker_inv s \<Longrightarrow> checker_inv s'"
  by (induction rule: rtranclp_induct) (simp_all add: checker_inv_step)


definition sample_qp :: QpContext where
  "sample_qp = QpContext_new
     \<lparr> qp_pd = \<lparr> pd_handle = 1 \<rparr>, qp_qpn = psn_new 3, qp_peer_qpn = psn_new 3, qp_qp_type = Rc,
       qp_rq_acc_flags = IbvAccessRemoteWrite, qp_pmtu = Mtu256, qp_dqp_ip = 0x0a000002, qp_dqp_mac = [2, 0, 0, 0, 0, 2] \<rparr>
     0x0a000001 [2, 0, 0, 0, 0, 1]"

definition sample_checker :: "unit PacketCheckerContext" where
  "sample_checker =
     \<lparr> pc_recv_ctx_map = RecvContextMap_new, pc_qp_table = [psn_new 3 \<mapsto> sample_qp], pc_user_op_ctx_map = Map.empty,
       pc_ctrl_sent = [], pc_work_sent = [], pc_ctrl_ok = True, pc_work_ok = True,
       pc_ack_buffers = \<lparr> pb_head = 0, pb_start_va = 0x1000, pb_slot_length = 4, pb_lkey = Key 5 \<rparr>,
       pc_ack_mem = (\<lambda>_. replicate 128 0), pc_retry_map = RetryMap_new 3 100 \<rparr>"

definition sample_packet :: "ToHostWorkRbDescWriteType \<Rightarrow> u32 \<Rightarrow> u32 \<Rightarrow> ToHostWorkRbDescWriteOrReadResp" where
  "sample_packet t psn expected_psn =
     \<lparr> ho_common = \<lparr> hw_status = StNormal, hw_trans = TtRc, hw_dqpn = psn_new 3, hw_msn = Msn 1,
                      hw_expected_psn = psn_new expected_psn \<rparr>,
       ho_is_read_resp = False, ho_write_type = t, ho_psn = psn_new psn, ho_addr = 0, ho_len = 1024,
       ho_can_auto_ack = False \<rparr>"

lemmas sample_defs = sample_qp_def sample_checker_def sample_packet_def QpContext_new_def

lemma sample_proj:
  "hw_dqpn (ho_common (sample_packet t p q)) = psn_new 3" "hw_msn (ho_common (sample_packet t p q)) = Msn 1"
  "hw_expected_psn (ho_common (sample_packet t p q)) = psn_new q" "ho_psn (sample_packet t p q) = psn_new p"
  "ho_write_type (sample_packet t p q) = t" "pc_qp_table sample_checker = [psn_new 3 \<mapsto> sample_qp]"
  "qc_status sample_qp = Normal" "pc_recv_ctx_map sample_checker = RecvContextMap_new"
  by (simp_all add: sample_defs)


subsection \<open>One packet of a message out of order\<close>

text \<open>What sending changes, and that it only adds.\<close>

lemma send_slot_cases:
  assumes "bufs_ok s"
    and "\<And>slot bytes. length bytes = 128 \<Longrightarrow>
      \<exists>r bytes'. make_packet slot bytes (pc_qp_table s) = Ok (r, bytes') \<and> length bytes' = 128"
  obtains slot bufs r bytes where
    "make_packet slot (pc_ack_mem s (slot_ptr slot)) (pc_qp_table s) = Ok (r, bytes)"
    "send_slot make_packet s = Ok (s\<lparr> pc_ack_buffers := bufs, pc_ack_mem := (pc_ack_mem s)(slot_ptr slot := bytes),
       pc_work_sent := pc_work_sent s @ (case r of Inr d \<Rightarrow> if pc_work_ok s then [d] else [] | Inl _ \<Rightarrow> []) \<rparr>)"
proof -
  obtain slot bufs where b: "recycle_buf RDMA_ACK_BUFFER_SLOT_SIZE [] (pc_ack_buffers s) = Ok (slot, bufs)"
    using assms(1) recycle_loop_ok[of "pc_ack_buffers s" "[]"] by (auto simp: bufs_ok_def recycle_buf_def)
  obtain r bytes where p: "make_packet slot (pc_ack_mem s (slot_ptr slot)) (pc_qp_table s) = Ok (r, bytes)"
    using assms(1) assms(2)[of "pc_ack_mem s (slot_ptr slot)" slot] by (auto simp: bufs_ok_def)
  show ?thesis
    by (rule that[OF p, of bufs]) (simp add: send_slot_def b p Let_def send_work_desc_def split: sum.splits)
qed

lemma send_nack_cases:
  assumes "bufs_ok s"
  obtains bufs mem sent where
    "send_nack crc32 qpn msn a b s = Ok (s\<lparr> pc_ack_buffers := bufs, pc_ack_mem := mem, pc_work_sent := sent \<rparr>)"
    "bufs_ok (s\<lparr> pc_ack_buffers := bufs, pc_ack_mem := mem, pc_work_sent := sent \<rparr>)"
proof -
  obtain bufs mem sent where
    s: "send_nack crc32 qpn msn a b s = Ok (s\<lparr> pc_ack_buffers := bufs, pc_ack_mem := mem, pc_work_sent := sent \<rparr>)"
    unfolding send_nack_def make_nack_def
    by (rule send_slot_cases[OF assms, of "\<lambda>slot bytes qp_table. make_ack_or_nack crc32 slot bytes qp_table qpn msn a (Some b)"])
      (auto simp: make_ack_or_nack_Ok)
  then have "bufs_ok (s\<lparr> pc_ack_buffers := bufs, pc_ack_mem := mem, pc_work_sent := sent \<rparr>)"
    using send_nack_returns[OF assms, of crc32 qpn msn a b] assms by (simp add: same_tables_def)
  with s show ?thesis
    by (rule that)
qed

lemma window_full_single:
  assumes "window_ok w" "window_cov w = {0..<n}"
  shows "length (sw_intervals w) \<le> 1"
proof (rule ccontr)
  have ok: "bt_invar (sw_intervals w)" "ivs_ok (bt_get (sw_intervals w))"
    using assms(1) by (simp_all add: sw_inv_def)
  assume "\<not> length (sw_intervals w) \<le> 1"
  then obtain c d where "bt_get (sw_intervals w) c \<noteq> None" "bt_get (sw_intervals w) d \<noteq> None" "c < d"
    using bt_length_gt_1[OF ok(1)] by auto
  then obtain e f where cd: "bt_get (sw_intervals w) c = Some e" "bt_get (sw_intervals w) d = Some f" "unat c < unat d"
    by (auto simp: word_less_nat_alt)
  have "unat d \<in> window_cov w"
    using cd(2) ivs_okD[OF ok(2) cd(2)] unfolding coverage_def by blast
  then have "unat e + 1 \<in> window_cov w"
    using ivs_ok_sep[OF ok(2) cd] assms(2) by simp
  then obtain s t where st: "bt_get (sw_intervals w) s = Some t" "unat s \<le> unat e + 1" "unat e + 1 \<le> unat t"
    by (auto simp: coverage_def)
  consider "unat s < unat c" | "unat c < unat s" | "s = c"
    using linorder_neqE_nat word_unat_eq_iff by blast
  then show False
    using st cd ivs_ok_sep[OF ok(2) st(1) cd(1)] ivs_ok_sep[OF ok(2) cd(1) st(1)] ivs_okD[OF ok(2) cd(1)]
    by cases auto
qed

lemma no_gap_single: "length (sw_intervals w) \<le> 1 \<Longrightarrow> get_recent_gap w = Ok None"
  by (cases "sw_intervals w"; cases "tl (sw_intervals w)") (auto simp: get_recent_gap_def)

text \<open>The window of the message after the packet, and whether the handler asks for what is missing.\<close>

lemma handle_ooo_middle_window:
  assumes "bufs_ok s" "pc_recv_ctx_map s qpn = Some p" "bt_get (pq_map p) msn = Some ctx" "rc_recv_map ctx = Some w"
    and "hw_dqpn (ho_common e) = qpn" "hw_msn (ho_common e) = msn"
    and "get_continous_range largest (hw_expected_psn (ho_common e)) = None"
    and "window_ok w" "0 < unat (sw_num_of_packets w)" "unat (sw_num_of_packets w) \<le> 2 ^ 23"
    and "window_cov w \<subseteq> {0..<unat (sw_num_of_packets w)}" "psn_offset (sw_start_psn w) (ho_psn e) < unat (sw_num_of_packets w)"
  obtains w' bufs mem sent where
    "handle_ooo_middle crc32 e largest s =
       Ok (s\<lparr> pc_recv_ctx_map := put_ctx qpn msn (ctx\<lparr> rc_recv_map := Some w' \<rparr>) (pc_recv_ctx_map s),
              pc_ack_buffers := bufs, pc_ack_mem := mem, pc_work_sent := sent \<rparr>, True)"
    "w' = sw_insert (ho_psn e, ho_psn e) w" "window_ok w'"
    "window_cov w' = insert (psn_offset (sw_start_psn w) (ho_psn e)) (window_cov w)"
    "window_cov w' = {0..<unat (sw_num_of_packets w)} \<Longrightarrow> bufs = pc_ack_buffers s \<and> mem = pc_ack_mem s \<and> sent = pc_work_sent s"
    "bufs_ok (s\<lparr> pc_ack_buffers := bufs, pc_ack_mem := mem \<rparr>)"
proof -
  let ?w = "sw_insert (ho_psn e, ho_psn e) w"
  let ?s = "with_recv (put_ctx qpn msn (ctx\<lparr> rc_recv_map := Some ?w \<rparr>)) s"
  have ctx: "get_ctx_mut qpn msn (pc_recv_ctx_map s) = Some ctx"
    using assms(2,3) by (simp add: get_ctx_mut_def)
  have w: "window_ok ?w" "window_cov ?w = insert (psn_offset (sw_start_psn w) (ho_psn e)) (window_cov w)"
    using sw_receive_step[OF assms(8-12)] by simp_all
  obtain gap where gap: "get_recent_gap ?w = Ok gap"
    using get_recent_gap_Ok[OF w(1)] by blast
  have full: "gap = None" if "window_cov ?w = {0..<unat (sw_num_of_packets w)}"
    using no_gap_single[OF window_full_single[OF w(1) that]] gap by simp
  have bufs: "bufs_ok ?s"
    using assms(1) by (simp add: bufs_ok_def with_recv_def)
  show ?thesis
  proof (cases gap)
    case None
    then show ?thesis
      using w gap ctx assms(4-7)
      by (intro that[where w' = ?w and bufs = "pc_ack_buffers s" and mem = "pc_ack_mem s" and sent = "pc_work_sent s"])
        (simp_all add: handle_ooo_middle_def Let_def with_recv_def assms(1))
  next
    case (Some ab)
    obtain a b where ab: "ab = (a, b)"
      by fastforce
    obtain bufs mem sent where "send_nack crc32 qpn msn a b ?s =
        Ok (?s\<lparr> pc_ack_buffers := bufs, pc_ack_mem := mem, pc_work_sent := sent \<rparr>)"
      "bufs_ok (?s\<lparr> pc_ack_buffers := bufs, pc_ack_mem := mem, pc_work_sent := sent \<rparr>)"
      by (rule send_nack_cases[OF bufs])
    with Some ab full show ?thesis
      using w gap ctx assms(4-7)
      by (intro that[where w' = ?w and bufs = bufs and mem = mem and sent = sent])
        (auto simp: handle_ooo_middle_def Let_def with_recv_def bufs_ok_def)
  qed
qed

lemma recover_part:
  assumes "pc_recv_ctx_map s qpn = Some p"
  shows "\<exists>ctrl. result_bind (unwrap (get_per_qp_ctx_mut qpn (pc_recv_ctx_map s))) (\<lambda>perqp_map.
       if length (pq_map perqp_map) \<le> 1 then
         let largest_psn_recved = pq_largest_psn_recved perqp_map
         in case recover_psn of
              Some recover_psn \<Rightarrow>
                if recover_psn \<noteq> wrapping_add largest_psn_recved 1 then Ok s
                else Ok (try_recover qpn recover_psn s)
            | None \<Rightarrow> Ok s
       else Ok s) = Ok (s\<lparr> pc_ctrl_sent := ctrl \<rparr>)"
proof -
  have "\<exists>ctrl. s = s\<lparr> pc_ctrl_sent := ctrl \<rparr>" "\<exists>ctrl. try_recover qpn q s = s\<lparr> pc_ctrl_sent := ctrl \<rparr>" for q
    by (rule exI[of _ "pc_ctrl_sent s"], simp)
      (rule exI[of _ "pc_ctrl_sent (try_recover qpn q s)"], simp add: try_recover_def Let_def)
  then show ?thesis
    using assms by (simp add: get_per_qp_ctx_mut_def Let_def split: option.splits)
qed

lemma check_completed_cases:
  assumes "bufs_ok s" "pc_recv_ctx_map s qpn = Some p" "bt_get (pq_map p) msn = Some ctx" "rc_recv_map ctx = Some w"
    and "window_started w"
  shows "\<not> is_complete w \<Longrightarrow> \<exists>ctrl. check_completed_and_try_recover crc32 qpn msn s = Ok (s\<lparr> pc_ctrl_sent := ctrl \<rparr>)"
    "is_complete w \<Longrightarrow> rc_is_read_resp ctx \<Longrightarrow> \<exists>ctrl. check_completed_and_try_recover crc32 qpn msn s =
       Ok ((wakeup_user_op_ctx qpn msn (with_recv (remove_ctx qpn msn) s))\<lparr> pc_ctrl_sent := ctrl \<rparr>)"
    "is_complete w \<Longrightarrow> \<not> rc_is_read_resp ctx \<Longrightarrow> \<exists>ctrl slot bufs r bytes.
       make_ack crc32 slot (pc_ack_mem s (slot_ptr slot)) (pc_qp_table s) qpn msn (last_psn w) = Ok (r, bytes) \<and>
       check_completed_and_try_recover crc32 qpn msn s =
         Ok ((cancel_retry qpn msn (with_recv (remove_ctx qpn msn) s))\<lparr> pc_ack_buffers := bufs,
           pc_ack_mem := (pc_ack_mem s)(slot_ptr slot := bytes),
           pc_work_sent := pc_work_sent s @ (case r of Inr d \<Rightarrow> if pc_work_ok s then [d] else [] | Inl _ \<Rightarrow> []),
           pc_ctrl_sent := ctrl \<rparr>)"
proof -
  obtain rp where rp: "try_get_recover_psn w = Ok rp"
    using try_get_recover_psn_Ok[OF assms(5)] by blast
  let ?s = "with_recv (remove_ctx qpn msn) s"
  obtain p' where p': "pc_recv_ctx_map ?s qpn = Some p'"
    using assms(2) by (simp add: with_recv_def remove_ctx_def)
  show "\<not> is_complete w \<Longrightarrow> \<exists>ctrl. check_completed_and_try_recover crc32 qpn msn s = Ok (s\<lparr> pc_ctrl_sent := ctrl \<rparr>)"
    using recover_part[OF assms(2), of rp] assms(2-4) rp
    by (simp add: check_completed_and_try_recover_def get_per_qp_ctx_mut_def)
  show "\<exists>ctrl. check_completed_and_try_recover crc32 qpn msn s = Ok ((wakeup_user_op_ctx qpn msn ?s)\<lparr> pc_ctrl_sent := ctrl \<rparr>)"
    if c: "is_complete w" "rc_is_read_resp ctx"
  proof -
    have "pc_recv_ctx_map (wakeup_user_op_ctx qpn msn ?s) qpn = Some p'"
      using p' wakeup_tables[of ?s] by (simp add: same_tables_def)
    from recover_part[OF this, of rp] show ?thesis
      using c assms(2-4) rp by (simp add: check_completed_and_try_recover_def get_per_qp_ctx_mut_def Let_def)
  qed
  show "\<exists>ctrl slot bufs r bytes.
       make_ack crc32 slot (pc_ack_mem s (slot_ptr slot)) (pc_qp_table s) qpn msn (last_psn w) = Ok (r, bytes) \<and>
       check_completed_and_try_recover crc32 qpn msn s =
         Ok ((cancel_retry qpn msn ?s)\<lparr> pc_ack_buffers := bufs, pc_ack_mem := (pc_ack_mem s)(slot_ptr slot := bytes),
           pc_work_sent := pc_work_sent s @ (case r of Inr d \<Rightarrow> if pc_work_ok s then [d] else [] | Inl _ \<Rightarrow> []),
           pc_ctrl_sent := ctrl \<rparr>)"
    if c: "is_complete w" "\<not> rc_is_read_resp ctx"
  proof -
    have bufs: "bufs_ok ?s"
      using assms(1) by (simp add: bufs_ok_def with_recv_def)
    obtain slot bufs r bytes where m: "make_ack crc32 slot (pc_ack_mem ?s (slot_ptr slot)) (pc_qp_table ?s) qpn msn (last_psn w) = Ok (r, bytes)"
      and sent: "send_ack crc32 qpn msn (last_psn w) ?s = Ok (?s\<lparr> pc_ack_buffers := bufs,
        pc_ack_mem := (pc_ack_mem ?s)(slot_ptr slot := bytes),
        pc_work_sent := pc_work_sent ?s @ (case r of Inr d \<Rightarrow> if pc_work_ok ?s then [d] else [] | Inl _ \<Rightarrow> []) \<rparr>)"
      unfolding send_ack_def make_ack_def
      by (rule send_slot_cases[OF bufs, of "\<lambda>slot bytes qp_table. make_ack_or_nack crc32 slot bytes qp_table qpn msn (last_psn w) None"])
        (auto simp: make_ack_or_nack_Ok)
    define s' where "s' = cancel_retry qpn msn (?s\<lparr> pc_ack_buffers := bufs,
        pc_ack_mem := (pc_ack_mem ?s)(slot_ptr slot := bytes),
        pc_work_sent := pc_work_sent ?s @ (case r of Inr d \<Rightarrow> if pc_work_ok ?s then [d] else [] | Inl _ \<Rightarrow> []) \<rparr>)"
    have "pc_recv_ctx_map s' qpn = Some p'"
      using p' by (simp add: s'_def cancel_retry_def)
    note recover = recover_part[OF this, of rp]
    have "result_bind (send_ack crc32 qpn msn (last_psn w) ?s) (\<lambda>self. Ok (cancel_retry qpn msn self)) = Ok s'"
      by (simp add: sent s'_def)
    with recover obtain ctrl where
      "check_completed_and_try_recover crc32 qpn msn s = Ok (s'\<lparr> pc_ctrl_sent := ctrl \<rparr>)"
      using c assms(2-4) rp by (simp add: check_completed_and_try_recover_def get_per_qp_ctx_mut_def Let_def) blast
    with m show ?thesis
      by (intro exI[of _ ctrl] exI[of _ slot] exI[of _ bufs] exI[of _ r] exI[of _ bytes])
        (simp add: s'_def cancel_retry_def with_recv_def split: sum.split)
  qed
qed

lemma remove_ctx_finished:
  assumes "m qpn = Some p" "bt_invar (pq_map p)" "length (pq_recent_msn_finished p) = MAX_MSN_WINDOW_PER_QP"
  shows "get_ctx_mut qpn msn (remove_ctx qpn msn m) = None"
    "query_recent_msn_status qpn msn (remove_ctx qpn msn m) = MsnFinished"
  using assms
  by (simp_all add: get_ctx_mut_def remove_ctx_def query_recent_msn_status_def pq_query_recent_msn_status_def
      pq_set_recent_msn_status_def bt_get_remove msn_idx_def MAX_MSN_WINDOW_PER_QP_def)

lemma retry_cancel_gone: "map_of (rm_map (snd (retry_cancel key m))) key = None"
  by (auto simp: retry_cancel_def map_of_eq_None_iff)

text \<open>The event comes down to the check of the message in a state with the new window.\<close>

lemma ooo_packet_reduces:
  assumes "checker_inv s" "pc_qp_table s qpn = Some qp" "qc_status qp = OutOfOrder"
    and "pc_recv_ctx_map s qpn = Some p" "bt_get (pq_map p) msn = Some ctx" "rc_recv_map ctx = Some w"
    and "hw_dqpn (ho_common e) = qpn" "hw_msn (ho_common e) = msn" "ho_write_type e \<in> {WtMiddle, WtLast}"
    and "get_continous_range (pq_largest_psn_recved p) (hw_expected_psn (ho_common e)) = None"
    and "0 < unat (sw_num_of_packets w)" "unat (sw_num_of_packets w) \<le> 2 ^ 23"
    and "window_cov w \<subseteq> {0..<unat (sw_num_of_packets w)}" "psn_offset (sw_start_psn w) (ho_psn e) < unat (sw_num_of_packets w)"
  obtains s2 p2 w' where "handle_check_event crc32 (EvWrite e) s = check_completed_and_try_recover crc32 qpn msn s2"
    "bufs_ok s2" "pc_recv_ctx_map s2 qpn = Some p2" "bt_get (pq_map p2) msn = Some (ctx\<lparr> rc_recv_map := Some w' \<rparr>)"
    "bt_invar (pq_map p2)" "length (pq_recent_msn_finished p2) = length (pq_recent_msn_finished p)"
    "window_started w'" "w' = sw_insert (ho_psn e, ho_psn e) w"
    "window_cov w' = insert (psn_offset (sw_start_psn w) (ho_psn e)) (window_cov w)"
    "pc_retry_map s2 = pc_retry_map s" "pc_user_op_ctx_map s2 = pc_user_op_ctx_map s" "pc_qp_table s2 = pc_qp_table s"
    "pc_work_ok s2 = pc_work_ok s"
    "window_cov w' = {0..<unat (sw_num_of_packets w)} \<Longrightarrow> pc_ack_mem s2 = pc_ack_mem s \<and> pc_work_sent s2 = pc_work_sent s"
proof -
  have bufs: "bufs_ok s"
    using assms(1) by (simp add: checker_inv_def)
  have "qpn \<in> out_of_order (pc_qp_table s)"
    using assms(2,3) by (simp add: out_of_order_def)
  then have inv: "pq_tracked p" "bt_invar (pq_map p)"
    using recv_invD[of _ "pc_recv_ctx_map s" qpn p] assms(1,4) by (auto simp: checker_inv_def)
  then have "ctx_tracked ctx"
    using assms(5) by (simp add: pq_tracked_def)
  then have w: "window_started w" "window_ok w"
    by (simp_all add: ctx_tracked_def assms(6) window_started_def)
  obtain w' bufs' mem sent where m:
    "handle_ooo_middle crc32 e (pq_largest_psn_recved p) s =
       Ok (s\<lparr> pc_recv_ctx_map := put_ctx qpn msn (ctx\<lparr> rc_recv_map := Some w' \<rparr>) (pc_recv_ctx_map s),
              pc_ack_buffers := bufs', pc_ack_mem := mem, pc_work_sent := sent \<rparr>, True)"
    and w': "w' = sw_insert (ho_psn e, ho_psn e) w"
    "window_cov w' = insert (psn_offset (sw_start_psn w) (ho_psn e)) (window_cov w)"
    and same: "window_cov w' = {0..<unat (sw_num_of_packets w)} \<Longrightarrow>
      bufs' = pc_ack_buffers s \<and> mem = pc_ack_mem s \<and> sent = pc_work_sent s"
    and bufs': "bufs_ok (s\<lparr> pc_ack_buffers := bufs', pc_ack_mem := mem \<rparr>)"
    by (rule handle_ooo_middle_window[OF bufs assms(4-8,10) w(2) assms(11-14), of crc32]) blast
  define p2 where "p2 = update_largest_psn_recved (ho_psn e) (p\<lparr> pq_map := bt_insert msn (ctx\<lparr> rc_recv_map := Some w' \<rparr>) (pq_map p) \<rparr>)"
  define s2 where "s2 = s\<lparr> pc_ack_buffers := bufs', pc_ack_mem := mem, pc_work_sent := sent,
      pc_recv_ctx_map := (pc_recv_ctx_map s)(qpn \<mapsto> p2) \<rparr>"
  have "handle_check_event crc32 (EvWrite e) s = check_completed_and_try_recover crc32 qpn msn s2"
    using assms(2-4,7-9) m
    by (auto simp: handle_check_event_def handle_qp_ooo_def get_per_qp_ctx_mut_def Let_def with_recv_def put_ctx_def
        s2_def p2_def)
  then show ?thesis
  proof (rule that)
    show "bufs_ok s2" "pc_recv_ctx_map s2 qpn = Some p2" "bt_get (pq_map p2) msn = Some (ctx\<lparr> rc_recv_map := Some w' \<rparr>)"
      using bufs' by (simp_all add: s2_def p2_def bt_get_insert bufs_ok_def)
    show "bt_invar (pq_map p2)" "length (pq_recent_msn_finished p2) = length (pq_recent_msn_finished p)"
      using inv(2) by (simp_all add: p2_def bt.invar_ins update_largest_psn_recved_def)
    show "window_started w'"
      using window_started_insert[OF w(1), of "(ho_psn e, ho_psn e)"] by (simp add: w'(1))
  qed (use w' same in \<open>simp_all add: s2_def\<close>)
qed


definition sample_window :: SlidingWindow where
  "sample_window = \<lparr> sw_intervals = [(0, 0)], sw_start_psn = psn_new 5, sw_num_of_packets = 2 \<rparr>"

definition sample_ctx :: RecvContext where
  "sample_ctx = \<lparr> rc_is_read_resp = False, rc_start_addr = 0, rc_len_in_bytes = 512, rc_start_psn = psn_new 5,
     rc_recv_map = Some sample_window \<rparr>"

definition sample_open :: "Psn \<Rightarrow> unit PacketCheckerContext" where
  "sample_open largest = sample_checker\<lparr>
     pc_qp_table := [psn_new 3 \<mapsto> sample_qp\<lparr> qc_status := OutOfOrder \<rparr>],
     pc_recv_ctx_map := [psn_new 3 \<mapsto> (PerQpContextMap_new largest)\<lparr> pq_map := [(Msn 1, sample_ctx)] \<rparr>] \<rparr>"

lemma sample_window_started: "window_started sample_window" "window_cov sample_window = {0}"
  by (auto simp: window_started_def sample_window_def sw_inv_def bt_invar_def ivs_ok_def coverage_def split: if_splits)

lemma sample_open_inv: "checker_inv (sample_open largest)"
proof -
  have "recv_inv {psn_new 3} [psn_new 3 \<mapsto> (PerQpContextMap_new largest)\<lparr> pq_map := [(Msn 1, sample_ctx)] \<rparr>]"
    using sample_window_started
    by (auto simp: recv_inv_def pq_ok_def pq_tracked_def ctx_tracked_def sample_ctx_def bt_invar_def split: if_splits)
  then show ?thesis
    by (simp add: checker_inv_def sample_open_def out_of_order_def bufs_ok_def)
      (simp add: sample_checker_def Collect_conv_if)
qed


subsection \<open>Where recovery and retransmission fail\<close>

text \<open>
  A NAK never causes a retransmission when the message starts at a sequence number that
  is not below its number of packets: the handler passes the sequence number of the NAK,
  which lies in the message, as an offset into it, and the range is rejected.
\<close>

lemma nak_ignored:
  assumes "map_of (rm_map (pc_retry_map s)) (hw_dqpn (ha_common e), ha_msn e) = Some rc" "rt_descriptor rc = CWrite wd"
    and "ha_code e = AethNak" "psn_ok (ha_psn e)" "psn_ok (wc_psn (cw_common wd))"
    and "n = unat (calculate_packet_cnt (wc_pmtu (cw_common wd)) (wc_raddr (cw_common wd)) (wc_total_len (cw_common wd)))"
    and "n \<le> unat (psn_get (wc_psn (cw_common wd)))" "unat (psn_get (wc_psn (cw_common wd))) + n \<le> 2 ^ 24"
    and "psn_offset (wc_psn (cw_common wd)) (ha_psn e) < n"
  shows "handle_check_event crc32 (EvAck e) s = Ok s"
proof -
  define a b where "a = uint (psn_get (wc_psn (cw_common wd)))" and "b = uint (psn_get (ha_psn e))"
  have bounds: "0 \<le> a" "0 \<le> b" "b < 2 ^ 24" "int n \<le> a" "a + int n \<le> 2 ^ 24"
    using assms(4) of_nat_mono[OF assms(7), where 'a = int] of_nat_mono[OF assms(8), where 'a = int]
    by (simp_all add: a_def b_def psn_ok_int)
  have "(b - a) mod 2 ^ 24 < int n"
    unfolding a_def b_def psn_offset_int[OF assms(4), symmetric] using assms(9) by simp
  then have "a \<le> b"
    using bounds int_mod_window[of "2 ^ 24" "b - a"] by (auto split: if_splits)
  then have "int n \<le> int (unat (psn_get (ha_psn e)))"
    using bounds by (simp add: b_def)
  then have "calculate_packet_cnt (wc_pmtu (cw_common wd)) (wc_raddr (cw_common wd)) (wc_total_len (cw_common wd)) \<le> psn_get (ha_psn e)"
    by (simp add: word_le_def assms(6))
  then show ?thesis
    using assms(1-3) by (simp add: handle_check_event_def get_descritpor_def Let_def)
qed

definition sample_write :: "ToCardWorkRbDescWrite" where
  "sample_write = \<lparr> cw_common = ToCardWorkRbDescCommon_default\<lparr> wc_psn := psn_new 8, wc_total_len := 512, wc_pmtu := Mtu256 \<rparr>,
     cw_is_last = True, cw_is_first = True, cw_sge0 = DescSge_default, cw_sge1 = None, cw_sge2 = None, cw_sge3 = None \<rparr>"

definition sample_nak :: ToHostWorkRbDescAck where
  "sample_nak = \<lparr> ha_common = \<lparr> hw_status = StNormal, hw_trans = TtRc, hw_dqpn = psn_new 3, hw_msn = Msn 1, hw_expected_psn = psn_new 9 \<rparr>,
     ha_msn = Msn 1, ha_psn = psn_new 8, ha_retry_psn = psn_new 8, ha_code = AethNak, ha_value = 0 \<rparr>"

text \<open>What a handler leaves alone until it tries to recover the queue pair.\<close>

definition quiet :: "Qpn \<Rightarrow> 'h PacketCheckerContext \<Rightarrow> 'h PacketCheckerContext \<Rightarrow> bool" where
  "quiet qpn s s' \<longleftrightarrow> pc_qp_table s' = pc_qp_table s \<and> pc_ctrl_sent s' = pc_ctrl_sent s \<and>
     map_option pq_largest_psn_recved (pc_recv_ctx_map s' qpn) = map_option pq_largest_psn_recved (pc_recv_ctx_map s qpn)"

definition ensures :: "('a \<Rightarrow> bool) \<Rightarrow> (panic, 'a) result \<Rightarrow> bool" where
  "ensures P r = (case r of Inr a \<Rightarrow> P a | Inl _ \<Rightarrow> True)"

lemma ensures_simps [simp]: "ensures P (Ok a) = P a" "ensures P (Err e)"
  by (simp_all add: ensures_def)

lemma ensures_bind: "ensures P r \<Longrightarrow> (\<And>a. P a \<Longrightarrow> ensures Q (f a)) \<Longrightarrow> ensures Q (result_bind r f)"
  by (cases r) simp_all

lemma quiet_trans: "quiet qpn s t \<Longrightarrow> quiet qpn t u \<Longrightarrow> quiet qpn s u"
  by (simp add: quiet_def)

lemma quiet_simps [simp]:
  "quiet qpn s s" "quiet qpn s (send_work_desc d s)" "quiet qpn s (wakeup_user_op_ctx q msn s)" "quiet qpn s (cancel_retry q msn s)"
  "quiet qpn s (with_recv (set_recent_msn_status q msn st) s)" "quiet qpn s (with_recv (remove_ctx q msn) s)"
  "quiet qpn s (with_recv (put_ctx q msn ctx) s)"
  "pc_recv_ctx_map s qpn \<noteq> None \<Longrightarrow> quiet qpn s (with_recv (insert_ctx qpn msn ctx) s)"
  by (auto simp: quiet_def send_work_desc_def wakeup_user_op_ctx_def cancel_retry_def with_recv_def set_recent_msn_status_def
      remove_ctx_def put_ctx_def insert_ctx_def Let_def split: option.splits sum.splits)

lemma quiet_send_slot: "ensures (quiet qpn s) (send_slot make_packet s)"
proof (cases "recycle_buf RDMA_ACK_BUFFER_SLOT_SIZE [] (pc_ack_buffers s)")
  case (Inr r)
  obtain slot bufs where r: "r = (slot, bufs)"
    by fastforce
  show ?thesis
    by (cases "make_packet slot (pc_ack_mem s (slot_ptr slot)) (pc_qp_table s)")
      (auto simp: send_slot_def Inr r quiet_def send_work_desc_def Let_def split: sum.splits)
qed (simp add: send_slot_def)

lemma quiet_send: "ensures (quiet qpn s) (send_ack crc32 q msn psn s)" "ensures (quiet qpn s) (send_nack crc32 q msn a b s)"
  by (simp_all add: send_ack_def send_nack_def quiet_send_slot)

lemma quiet_handle_only: "ensures (quiet qpn s) (handle_only crc32 e s)"
proof -
  let ?s = "with_recv (set_recent_msn_status (hw_dqpn (ho_common e)) (hw_msn (ho_common e)) MsnFinished) s"
  have "ensures (quiet qpn s) r" if "ensures (quiet qpn ?s) r" for r
    using that quiet_trans[of qpn s ?s] by (cases r) simp_all
  then show ?thesis
    by (simp add: handle_only_def Let_def quiet_send)
qed

lemma quiet_handle_ooo_middle: "ensures (\<lambda>r. quiet qpn s (fst r)) (handle_ooo_middle crc32 e largest s)"
proof -
  have send: "ensures (\<lambda>r. quiet qpn s (fst r)) (result_bind (send_nack crc32 q msn a b (with_recv (put_ctx q' msn' ctx) s)) (\<lambda>s. Ok (s, True)))"
    for q msn a b q' msn' ctx
    by (rule ensures_bind[OF quiet_send(2)]) (auto intro: quiet_trans[OF quiet_simps(7)])
  show ?thesis
    unfolding handle_ooo_middle_def Let_def
    by (auto simp: result_bind_def[of "ok_or _ _"] result_bind_def[of "get_recent_gap _"] ok_or_def intro!: send
        split: option.split sum.split)
qed

definition stuck_step :: "Qpn \<Rightarrow> Psn \<Rightarrow> 'h PacketCheckerContext \<Rightarrow> 'h PacketCheckerContext \<Rightarrow> bool" where
  "stuck_step qpn largest s s' \<longleftrightarrow> pc_qp_table s' = pc_qp_table s \<and>
     map_option pq_largest_psn_recved (pc_recv_ctx_map s' qpn) = Some largest \<and>
     set (pc_ctrl_sent s') \<subseteq> insert (UpdateErrorPsnRecoverPoint \<lparr> ep_common = \<lparr> cc_op_id = 0 \<rparr>, ep_qpn = qpn,
       ep_recover_psn = wrapping_add largest 1 \<rparr>, qpn) (set (pc_ctrl_sent s))"

lemma stuck_recover_part:
  assumes "quiet qpn s s'" "map_option pq_largest_psn_recved (pc_recv_ctx_map s qpn) = Some largest"
  shows "ensures (stuck_step qpn largest s)
    (result_bind (unwrap (get_per_qp_ctx_mut qpn (pc_recv_ctx_map s'))) (\<lambda>perqp_map.
       if length (pq_map perqp_map) \<le> 1 then
         let largest_psn_recved = pq_largest_psn_recved perqp_map
         in case recover_psn of
              Some recover_psn \<Rightarrow>
                if recover_psn \<noteq> wrapping_add largest_psn_recved 1 then Ok s'
                else Ok (try_recover qpn recover_psn s')
            | None \<Rightarrow> Ok s'
       else Ok s'))"
  using assms
  by (auto simp: quiet_def stuck_step_def get_per_qp_ctx_mut_def try_recover_def Let_def split: option.splits)

lemma stuck_check_completed:
  assumes "map_option pq_largest_psn_recved (pc_recv_ctx_map s qpn) = Some largest"
  shows "ensures (stuck_step qpn largest s) (check_completed_and_try_recover crc32 qpn msn s)"
proof -
  have fin: "ensures (quiet qpn s)
      (if c then let self = with_recv (remove_ctx qpn msn) s
          in if rr then Ok (wakeup_user_op_ctx qpn msn self)
             else result_bind (send_ack crc32 qpn msn lp self) (\<lambda>self. Ok (cancel_retry qpn msn self))
        else Ok s)" for c rr lp
    by (auto simp: Let_def intro!: ensures_bind[OF quiet_send(1)[of qpn]] quiet_trans[OF quiet_simps(6) quiet_simps(3)]
        intro: quiet_trans[OF quiet_trans[OF quiet_simps(6)] quiet_simps(4)])
  show ?thesis
    unfolding check_completed_and_try_recover_def
    apply (rule ensures_bind[where P = "\<lambda>_. True"], simp add: ensures_def split: sum.split)
    apply (rule ensures_bind[where P = "\<lambda>_. True"], simp add: ensures_def split: sum.split)
    apply (clarify, rule ensures_bind[OF fin])
    apply (erule stuck_recover_part[OF _ assms])
    done
qed

lemma not_larger_update:
  assumes "2 ^ 23 \<le> unat (psn_get psn)" "psn_ok psn" "pq_largest_psn_recved p = psn_new 0"
  shows "pq_largest_psn_recved (update_largest_psn_recved psn p) = psn_new 0"
proof -
  have "larger_in_psn (psn_new 0) psn"
    using assms(1,2) int_mod_window[of "2 ^ 24" "- uint (psn_get psn)"] of_nat_mono[OF assms(1), where 'a = int]
    by (auto simp: larger_in_psn_iff psn_0 psn_ok_int split: if_splits)
  then show ?thesis
    by (simp add: update_largest_psn_recved_def assms(3))
qed

lemma stuck_handle_qp_ooo:
  assumes "hw_dqpn (ho_common e) = qpn" "2 ^ 23 \<le> unat (psn_get (ho_psn e))" "psn_ok (ho_psn e)"
    and largest: "map_option pq_largest_psn_recved (pc_recv_ctx_map s qpn) = Some (psn_new 0)"
  shows "ensures (stuck_step qpn (psn_new 0) s) (handle_qp_ooo crc32 e pmtu s)"
  unfolding handle_qp_ooo_def Let_def assms(1)
proof (rule ensures_bind[where P = "\<lambda>_. True"], goal_cases)
  case 1
  show ?case
    by (simp add: ensures_def split: sum.split)
next
  case (2 p)
  have "pc_recv_ctx_map s qpn \<noteq> None"
    using largest by auto
  then have "ensures (\<lambda>r. quiet qpn s (fst r))
      (case ho_write_type e of
         WtFirst \<Rightarrow> Ok (if query_recent_msn_status qpn (hw_msn (ho_common e)) (pc_recv_ctx_map s) = NoExist
           then with_recv (insert_ctx qpn (hw_msn (ho_common e)) (new_with_recvmap e pmtu)) s else s, False)
       | WtMiddle \<Rightarrow> handle_ooo_middle crc32 e (pq_largest_psn_recved p) s
       | WtLast \<Rightarrow> handle_ooo_middle crc32 e (pq_largest_psn_recved p) s
       | WtOnly \<Rightarrow> result_bind (handle_only crc32 e s) (\<lambda>self. Ok (self, False)))"
    by (auto split: ToHostWorkRbDescWriteType.split intro!: quiet_handle_ooo_middle ensures_bind[OF quiet_handle_only])
  then show ?case
  proof (rule ensures_bind, clarsimp)
    fix s' check
    assume q: "quiet qpn s s'"
    then obtain p where p: "pc_recv_ctx_map s' qpn = Some p" "pq_largest_psn_recved p = psn_new 0"
      using largest by (auto simp: quiet_def)
    let ?s = "with_recv (\<lambda>m. m(qpn \<mapsto> update_largest_psn_recved (ho_psn e) p)) s'"
    have s: "map_option pq_largest_psn_recved (pc_recv_ctx_map ?s qpn) = Some (psn_new 0)"
      using not_larger_update[OF assms(2,3) p(2)] by (simp add: with_recv_def)
    have "stuck_step qpn (psn_new 0) s t" if "stuck_step qpn (psn_new 0) ?s t" for t
      using that q by (simp add: stuck_step_def quiet_def with_recv_def)
    moreover have "stuck_step qpn (psn_new 0) s ?s"
      using q s by (simp add: stuck_step_def quiet_def with_recv_def subset_insertI)
    ultimately show "ensures (stuck_step qpn (psn_new 0) s)
      (result_bind (unwrap (get_per_qp_ctx_mut qpn (pc_recv_ctx_map s'))) (\<lambda>per_qp_map.
         if check then check_completed_and_try_recover crc32 qpn (hw_msn (ho_common e))
           (with_recv (\<lambda>m. m(qpn \<mapsto> update_largest_psn_recved (ho_psn e) per_qp_map)) s')
         else Ok (with_recv (\<lambda>m. m(qpn \<mapsto> update_largest_psn_recved (ho_psn e) per_qp_map)) s')))"
      using stuck_check_completed[OF s, of crc32 "hw_msn (ho_common e)"] p(1)
      by (auto simp: get_per_qp_ctx_mut_def ensures_def split: sum.splits)
  qed
qed



end
