(* ===== verification/Page_Table.thy ===== *)
theory Page_Table
  imports Rdma_Types
begin

text \<open>
  The allocator of the page table of the memory regions, \<^verbatim>\<open>MrPgt\<close> of \<^verbatim>\<open>src/mr.rs\<close>. The doubly
  linked list of free blocks is a list here, in the order of the \<^verbatim>\<open>next\<close> pointers. The
  theory shows when allocated ranges are disjoint, and a history of calls after which
  two of them overlap.
\<close>

definition MR_PGT_LENGTH :: usize where "MR_PGT_LENGTH = 1024"
definition MR_PGT_ENTRY_SIZE :: usize where "MR_PGT_ENTRY_SIZE = 8"

record MrPgtFreeBlk =
  fb_idx :: usize
  fb_len :: usize

record MrPgt =
  pgt_table :: "usize \<Rightarrow> u64"
  free_blk_list :: "MrPgtFreeBlk list"

text \<open>The buffer is given by its address, its size and its entries.\<close>

definition MrPgt_new :: "usize \<Rightarrow> usize \<Rightarrow> (usize \<Rightarrow> u64) \<Rightarrow> (panic, MrPgt) result" where
  "MrPgt_new addr buf_size table =
     (let len = buf_size div MR_PGT_ENTRY_SIZE;
          free_blk = \<lparr> fb_idx = 0, fb_len = len \<rparr>
      in if addr mod of_nat PAGE_SIZE \<noteq> 0 then Err Panic
         else Ok \<lparr> pgt_table = table, free_blk_list = [free_blk] \<rparr>)"

text \<open>The loop over the blocks: the first that is large enough is cut at its start.\<close>

fun alloc_blk :: "usize \<Rightarrow> MrPgtFreeBlk list \<Rightarrow> (usize \<times> MrPgtFreeBlk list) option" where
  "alloc_blk len [] = None"
| "alloc_blk len (blk # next) =
     (if fb_len blk \<ge> len then
        let idx = fb_idx blk;
            blk = blk\<lparr> fb_idx := fb_idx blk + len, fb_len := fb_len blk - len \<rparr>
        in Some (idx, if fb_len blk = 0 then next else blk # next)
      else map_option (\<lambda>(idx, next). (idx, blk # next)) (alloc_blk len next))"

definition pgt_alloc :: "usize \<Rightarrow> MrPgt \<Rightarrow> (Error, usize) result \<times> MrPgt" where
  "pgt_alloc len self =
     (case alloc_blk len (free_blk_list self) of
        Some (idx, blks) \<Rightarrow> (Ok idx, self\<lparr> free_blk_list := blks \<rparr>)
      | None \<Rightarrow> (Err (ResourceNoAvailable ''MR page table''), self))"

text \<open>
  The merging loops of \<^verbatim>\<open>dealloc\<close>. The blocks before the new one are given from the nearest
  on. The first loop compares the end of the block before with the length of the new one.
\<close>

fun merge_prev :: "MrPgtFreeBlk \<Rightarrow> MrPgtFreeBlk list \<Rightarrow> MrPgtFreeBlk \<times> MrPgtFreeBlk list" where
  "merge_prev new [] = (new, [])"
| "merge_prev new (prev # prevs) =
     (if fb_idx prev + fb_len prev \<noteq> fb_len new then (new, prev # prevs)
      else merge_prev (new\<lparr> fb_idx := fb_idx prev, fb_len := fb_len new + fb_len prev \<rparr>) prevs)"

fun merge_next :: "MrPgtFreeBlk \<Rightarrow> MrPgtFreeBlk list \<Rightarrow> MrPgtFreeBlk \<times> MrPgtFreeBlk list" where
  "merge_next new [] = (new, [])"
| "merge_next new (next # nexts) =
     (if fb_idx next \<noteq> fb_idx new + fb_len new then (new, next # nexts)
      else merge_next (new\<lparr> fb_len := fb_len new + fb_len next \<rparr>) nexts)"

definition dealloc_blk :: "usize \<Rightarrow> usize \<Rightarrow> MrPgtFreeBlk list \<Rightarrow> MrPgtFreeBlk list" where
  "dealloc_blk idx len blks =
     (let prevs = takeWhile (\<lambda>blk. \<not> fb_len blk > len) blks;
          nexts = dropWhile (\<lambda>blk. \<not> fb_len blk > len) blks;
          (new, prevs) = merge_prev \<lparr> fb_idx = idx, fb_len = len \<rparr> (rev prevs);
          (new, nexts) = merge_next new nexts
      in rev prevs @ new # nexts)"

definition pgt_dealloc :: "usize \<Rightarrow> usize \<Rightarrow> MrPgt \<Rightarrow> MrPgt" where
  "pgt_dealloc idx len self = self\<lparr> free_blk_list := dealloc_blk idx len (free_blk_list self) \<rparr>"

subsection \<open>Ranges of entries\<close>

text \<open>The entries of a block, of a list of blocks, and blocks that lie in the table and are disjoint.\<close>

definition entries :: "usize \<Rightarrow> usize \<Rightarrow> nat set" where
  "entries idx len = {unat idx..<unat idx + unat len}"

abbreviation blk_entries :: "MrPgtFreeBlk \<Rightarrow> nat set" where
  "blk_entries blk \<equiv> entries (fb_idx blk) (fb_len blk)"

definition free_entries :: "MrPgtFreeBlk list \<Rightarrow> nat set" where
  "free_entries blks = (\<Union>blk \<in> set blks. blk_entries blk)"

abbreviation fits :: "usize \<Rightarrow> usize \<Rightarrow> bool" where
  "fits idx len \<equiv> unat idx + unat len \<le> 1024"

fun blks_ok :: "MrPgtFreeBlk list \<Rightarrow> bool" where
  "blks_ok [] = True"
| "blks_ok (blk # blks) \<longleftrightarrow> fits (fb_idx blk) (fb_len blk) \<and> blk_entries blk \<inter> free_entries blks = {} \<and> blks_ok blks"

lemma free_entries_simps [simp]:
  "free_entries [] = {}" "free_entries (blk # blks) = blk_entries blk \<union> free_entries blks"
  "free_entries (xs @ ys) = free_entries xs \<union> free_entries ys" "free_entries (rev xs) = free_entries xs"
  by (auto simp: free_entries_def)

lemma blks_ok_append:
  "blks_ok (xs @ ys) \<longleftrightarrow> blks_ok xs \<and> blks_ok ys \<and> free_entries xs \<inter> free_entries ys = {}"
  by (induction xs) auto

lemma entries_cut:
  assumes "fits idx n" "len \<le> n"
  shows "entries idx len \<subseteq> entries idx n" "entries (idx + len) (n - len) = entries idx n - entries idx len"
    "fits (idx + len) (n - len)"
proof -
  have "unat len \<le> unat n"
    using assms(2) by (simp add: word_le_nat_alt)
  moreover from this have "unat (idx + len) = unat idx + unat len" "unat (n - len) = unat n - unat len"
    using assms by (simp_all add: unat_add_no_wrap unat_sub_le)
  ultimately show "entries idx len \<subseteq> entries idx n" "entries (idx + len) (n - len) = entries idx n - entries idx len"
    "fits (idx + len) (n - len)"
    using assms(1) by (auto simp: entries_def)
qed

lemma entries_join:
  assumes "fits a n" "fits (a + n) m"
  shows "entries a (n + m) = entries a n \<union> entries (a + n) m" "fits a (n + m)"
proof -
  have "unat (a + n) = unat a + unat n"
    using assms(1) by (simp add: unat_add_no_wrap)
  moreover from this have "unat (n + m) = unat n + unat m"
    using assms by (simp add: unat_add_no_wrap)
  ultimately show "entries a (n + m) = entries a n \<union> entries (a + n) m" "fits a (n + m)"
    using assms by (auto simp: entries_def)
qed

lemma entries_empty: "entries idx 0 = {}"
  by (simp add: entries_def)

lemma alloc_blk_spec:
  assumes "alloc_blk len blks = Some (idx, blks')" "blks_ok blks"
  shows "entries idx len \<subseteq> free_entries blks \<and> free_entries blks' = free_entries blks - entries idx len \<and>
    blks_ok blks' \<and> fits idx len"
  using assms
proof (induction blks arbitrary: idx blks')
  case (Cons blk blks)
  show ?case
  proof (cases "len \<le> fb_len blk")
    case True
    note cut = entries_cut[of "fb_idx blk" "fb_len blk" len]
    have blks': "idx = fb_idx blk" "blks' = (if fb_len blk = len then blks
        else blk\<lparr> fb_idx := fb_idx blk + len, fb_len := fb_len blk - len \<rparr> # blks)"
      using Cons.prems(1) True by (auto simp: Let_def split: if_splits)
    have "unat len \<le> unat (fb_len blk)"
      using True by (simp add: word_le_nat_alt)
    then show ?thesis
      using Cons.prems(2) True cut blks' by (auto split: if_splits)
  next
    case False
    then obtain blks1 where b: "alloc_blk len blks = Some (idx, blks1)" "blks' = blk # blks1"
      using Cons.prems(1) by auto
    have ok: "blks_ok blks" "fits (fb_idx blk) (fb_len blk)" "blk_entries blk \<inter> free_entries blks = {}"
      using Cons.prems(2) by simp_all
    show ?thesis
      using Cons.IH[OF b(1) ok(1)] ok(2,3) b(2) by auto
  qed
qed simp

lemma alloc_blk_None: "alloc_blk len blks = None \<longleftrightarrow> (\<forall>blk \<in> set blks. fb_len blk < len)"
  by (induction blks) (auto simp: Let_def not_le)

lemma merge_next_spec:
  assumes "blks_ok (new # nexts)" "merge_next new nexts = (new', nexts')"
  shows "blks_ok (new' # nexts') \<and> free_entries (new' # nexts') = free_entries (new # nexts)"
  using assms
proof (induction new nexts rule: merge_next.induct)
  case (2 new blk nexts)
  show ?case
  proof (cases "fb_idx blk = fb_idx new + fb_len new")
    case True
    let ?new = "new\<lparr> fb_len := fb_len new + fb_len blk \<rparr>"
    have "blk_entries ?new = blk_entries new \<union> blk_entries blk" "fits (fb_idx ?new) (fb_len ?new)"
      using entries_join[of "fb_idx new" "fb_len new" "fb_len blk"] "2.prems"(1) True by simp_all
    moreover from this have "blks_ok (?new # nexts)"
      using "2.prems"(1) by auto
    ultimately show ?thesis
      using "2.IH" "2.prems"(2) True by auto
  qed (use 2 in auto)
qed simp

text \<open>Whether the first merging loop stops at once.\<close>

definition no_false_merge :: "usize \<Rightarrow> MrPgtFreeBlk list \<Rightarrow> bool" where
  "no_false_merge len blks =
     (case rev (takeWhile (\<lambda>blk. \<not> fb_len blk > len) blks) of
        [] \<Rightarrow> True
      | prev # _ \<Rightarrow> fb_idx prev + fb_len prev \<noteq> len)"

lemma dealloc_blk_spec:
  assumes "blks_ok blks" "fits idx len" "entries idx len \<inter> free_entries blks = {}" "no_false_merge len blks"
  shows "blks_ok (dealloc_blk idx len blks) \<and> free_entries (dealloc_blk idx len blks) = free_entries blks \<union> entries idx len"
proof -
  define prevs nexts where "prevs = takeWhile (\<lambda>blk. \<not> fb_len blk > len) blks"
    and "nexts = dropWhile (\<lambda>blk. \<not> fb_len blk > len) blks"
  let ?new = "\<lparr> fb_idx = idx, fb_len = len \<rparr>"
  have blks: "blks = prevs @ nexts"
    by (simp add: prevs_def nexts_def)
  have "merge_prev ?new (rev prevs) = (?new, rev prevs)"
    using assms(4) unfolding no_false_merge_def prevs_def[symmetric] by (cases "rev prevs") simp_all
  moreover obtain new nexts' where n: "merge_next ?new nexts = (new, nexts')"
    by fastforce
  ultimately have d: "dealloc_blk idx len blks = prevs @ new # nexts'"
    by (simp add: dealloc_blk_def prevs_def[symmetric] nexts_def[symmetric])
  have parts: "blks_ok prevs" "blks_ok nexts" "free_entries prevs \<inter> free_entries nexts = {}"
    using assms(1) by (simp_all add: blks blks_ok_append)
  then have "blks_ok (?new # nexts)"
    using assms(2,3) by (auto simp: blks)
  from merge_next_spec[OF this n] show ?thesis
    unfolding d using parts assms(3) by (auto simp: blks blks_ok_append)
qed

subsection \<open>A client that frees what it holds\<close>

text \<open>
  The contract of an allocator of ranges: \<open>free\<close> is what it can still hand out, and \<open>safe\<close> says
  which calls of \<open>dealloc\<close> the contract covers.
\<close>

locale range_allocator =
  fixes free :: "'m \<Rightarrow> nat set"
    and valid :: "'m \<Rightarrow> bool"
    and alloc :: "usize \<Rightarrow> 'm \<Rightarrow> (Error, usize) result \<times> 'm"
    and dealloc :: "usize \<Rightarrow> usize \<Rightarrow> 'm \<Rightarrow> 'm"
    and safe :: "usize \<Rightarrow> usize \<Rightarrow> 'm \<Rightarrow> bool"
  assumes alloc_Ok: "valid m \<Longrightarrow> alloc len m = (Inr idx, m') \<Longrightarrow>
      fits idx len \<and> entries idx len \<subseteq> free m \<and> free m' = free m - entries idx len \<and> valid m'"
    and alloc_Err: "valid m \<Longrightarrow> alloc len m = (Inl e, m') \<Longrightarrow> m' = m"
    and dealloc_safe: "valid m \<Longrightarrow> safe idx len m \<Longrightarrow> fits idx len \<Longrightarrow> entries idx len \<inter> free m = {} \<Longrightarrow>
      valid (dealloc idx len m) \<and> free (dealloc idx len m) = free m \<union> entries idx len"

text \<open>The allocator and the ranges that its client holds, the latest first.\<close>

inductive range_step ::
  "(usize \<Rightarrow> 'm \<Rightarrow> (Error, usize) result \<times> 'm) \<Rightarrow> (usize \<Rightarrow> usize \<Rightarrow> 'm \<Rightarrow> 'm) \<Rightarrow> (usize \<Rightarrow> usize \<Rightarrow> 'm \<Rightarrow> bool) \<Rightarrow>
   'm \<times> MrPgtFreeBlk list \<Rightarrow> 'm \<times> MrPgtFreeBlk list \<Rightarrow> bool" for alloc dealloc safe where
  range_alloc: "alloc len m = (Inr idx, m') \<Longrightarrow>
    range_step alloc dealloc safe (m, held) (m', \<lparr> fb_idx = idx, fb_len = len \<rparr> # held)"
| range_fail: "alloc len m = (Inl e, m') \<Longrightarrow> range_step alloc dealloc safe (m, held) (m', held)"
| range_dealloc: "safe (fb_idx blk) (fb_len blk) m \<Longrightarrow>
    range_step alloc dealloc safe (m, xs @ blk # ys) (dealloc (fb_idx blk) (fb_len blk) m, xs @ ys)"

context range_allocator
begin

definition ranges_inv :: "'m \<times> MrPgtFreeBlk list \<Rightarrow> bool" where
  "ranges_inv s \<longleftrightarrow> valid (fst s) \<and> blks_ok (snd s) \<and> free_entries (snd s) \<inter> free (fst s) = {}"

lemma ranges_inv_step:
  assumes "range_step alloc dealloc safe s s'" "ranges_inv s"
  shows "ranges_inv s'"
  using assms
proof cases
  case (range_alloc len m idx m' held)
  then show ?thesis
    using assms(2) alloc_Ok[of m len idx m'] by (auto simp: ranges_inv_def)
next
  case (range_fail len m e m' held)
  then show ?thesis
    using assms(2) alloc_Err[of m len e m'] by (simp add: ranges_inv_def)
next
  case (range_dealloc blk m xs ys)
  then show ?thesis
    using assms(2) dealloc_safe[of m "fb_idx blk" "fb_len blk"] by (auto simp: ranges_inv_def blks_ok_append)
qed

lemma ranges_inv_reachable:
  "(range_step alloc dealloc safe)\<^sup>*\<^sup>* s s' \<Longrightarrow> ranges_inv s \<Longrightarrow> ranges_inv s'"
  by (induction rule: rtranclp_induct) (simp_all add: ranges_inv_step)

end

interpretation pgt: range_allocator "\<lambda>m. free_entries (free_blk_list m)" "\<lambda>m. blks_ok (free_blk_list m)"
  pgt_alloc pgt_dealloc "\<lambda>idx len m. no_false_merge len (free_blk_list m)"
proof unfold_locales
  fix m m' :: MrPgt and len idx e
  show "blks_ok (free_blk_list m) \<Longrightarrow> pgt_alloc len m = (Inr idx, m') \<Longrightarrow>
      fits idx len \<and> entries idx len \<subseteq> free_entries (free_blk_list m) \<and>
      free_entries (free_blk_list m') = free_entries (free_blk_list m) - entries idx len \<and> blks_ok (free_blk_list m')"
    using alloc_blk_spec[of len "free_blk_list m" idx] by (auto simp: pgt_alloc_def split: option.splits)
  show "blks_ok (free_blk_list m) \<Longrightarrow> pgt_alloc len m = (Inl e, m') \<Longrightarrow> m' = m"
    by (auto simp: pgt_alloc_def split: option.splits)
  show "blks_ok (free_blk_list m) \<Longrightarrow> no_false_merge len (free_blk_list m) \<Longrightarrow> fits idx len \<Longrightarrow>
      entries idx len \<inter> free_entries (free_blk_list m) = {} \<Longrightarrow>
      blks_ok (free_blk_list (pgt_dealloc idx len m)) \<and>
      free_entries (free_blk_list (pgt_dealloc idx len m)) = free_entries (free_blk_list m) \<union> entries idx len"
    using dealloc_blk_spec[of "free_blk_list m" idx len] by (simp add: pgt_dealloc_def)
qed

text \<open>
  C32. A client that frees only ranges that it holds, and never one whose length is the end of
  the free block that the list puts before it, holds disjoint ranges of page table
  entries, all of them in the table and none of them free.
\<close>

theorem pgt_ranges_disjoint:
  assumes "MrPgt_new addr (MR_PGT_LENGTH * MR_PGT_ENTRY_SIZE) table = Ok m"
    and "(range_step pgt_alloc pgt_dealloc (\<lambda>idx len m. no_false_merge len (free_blk_list m)))\<^sup>*\<^sup>* (m, []) (m', held)"
  shows "blks_ok held \<and> free_entries held \<inter> free_entries (free_blk_list m') = {}"
proof -
  have "free_blk_list m = [\<lparr> fb_idx = 0, fb_len = 1024 \<rparr>]"
    using assms(1) by (auto simp: MrPgt_new_def Let_def MR_PGT_LENGTH_def MR_PGT_ENTRY_SIZE_def split: if_splits)
  then have "pgt.ranges_inv (m, [])"
    by (simp add: pgt.ranges_inv_def)
  from pgt.ranges_inv_reachable[OF assms(2) this] show ?thesis
    by (simp add: pgt.ranges_inv_def)
qed

definition sample_pgt :: "(usize \<times> usize) list \<Rightarrow> MrPgt" where
  "sample_pgt blks = \<lparr> pgt_table = (\<lambda>_. 0), free_blk_list = map (\<lambda>(i, n). \<lparr> fb_idx = i, fb_len = n \<rparr>) blks \<rparr>"

abbreviation blk :: "usize \<Rightarrow> usize \<Rightarrow> MrPgtFreeBlk" where
  "blk idx len \<equiv> \<lparr> fb_idx = idx, fb_len = len \<rparr>"

lemma sample_pgt_new: "MrPgt_new 0 (MR_PGT_LENGTH * MR_PGT_ENTRY_SIZE) (\<lambda>_. 0) = Ok (sample_pgt [(0, 1024)])"
  by (simp add: MrPgt_new_def MR_PGT_LENGTH_def MR_PGT_ENTRY_SIZE_def sample_pgt_def)

lemma sample_allocs:
  "pgt_alloc 2 (sample_pgt [(0, 1024)]) = (Ok 0, sample_pgt [(2, 1022)])"
  "pgt_alloc 2 (sample_pgt [(2, 1022)]) = (Ok 2, sample_pgt [(4, 1020)])"
  "pgt_alloc 2 (sample_pgt [(4, 1020)]) = (Ok 4, sample_pgt [(6, 1018)])"
  by (simp_all add: pgt_alloc_def sample_pgt_def)

text \<open>The steps that do not depend on which calls of \<^verbatim>\<open>dealloc\<close> are covered.\<close>

lemma sample_three:
  "(range_step pgt_alloc pgt_dealloc safe)\<^sup>*\<^sup>* (sample_pgt [(0, 1024)], []) (sample_pgt [(6, 1018)], [blk 4 2, blk 2 2, blk 0 2])"
  using range_alloc[where alloc = pgt_alloc and safe = safe and dealloc = pgt_dealloc, OF sample_allocs(1), of "[]"]
    range_alloc[where alloc = pgt_alloc and safe = safe and dealloc = pgt_dealloc, OF sample_allocs(2), of "[blk 0 2]"]
    range_alloc[where alloc = pgt_alloc and safe = safe and dealloc = pgt_dealloc, OF sample_allocs(3), of "[blk 2 2, blk 0 2]"]
  by (meson rtranclp.rtrancl_into_rtrancl rtranclp.rtrancl_refl)

theorem pgt_ranges_disjoint_witness:
  "(range_step pgt_alloc pgt_dealloc (\<lambda>idx len m. no_false_merge len (free_blk_list m)))\<^sup>*\<^sup>*
     (sample_pgt [(0, 1024)], []) (sample_pgt [(0, 2), (6, 1018)], [blk 4 2, blk 2 2]) \<and> blks_ok [blk 4 2, blk 2 2]"
proof -
  let ?safe = "\<lambda>idx len m. no_false_merge len (free_blk_list m)"
  have "?safe 0 2 (sample_pgt [(6, 1018)])" "pgt_dealloc 0 2 (sample_pgt [(6, 1018)]) = sample_pgt [(0, 2), (6, 1018)]"
    by (simp_all add: no_false_merge_def pgt_dealloc_def dealloc_blk_def sample_pgt_def)
  then have "range_step pgt_alloc pgt_dealloc ?safe (sample_pgt [(6, 1018)], [blk 4 2, blk 2 2, blk 0 2])
      (sample_pgt [(0, 2), (6, 1018)], [blk 4 2, blk 2 2])"
    using range_dealloc[of ?safe "blk 0 2" "sample_pgt [(6, 1018)]" pgt_alloc pgt_dealloc "[blk 4 2, blk 2 2]" "[]"] by simp
  with sample_three have *: "(range_step pgt_alloc pgt_dealloc ?safe)\<^sup>*\<^sup>* (sample_pgt [(0, 1024)], [])
      (sample_pgt [(0, 2), (6, 1018)], [blk 4 2, blk 2 2])"
    by (rule rtranclp.rtrancl_into_rtrancl)
  with pgt_ranges_disjoint[OF sample_pgt_new *] show ?thesis
    by blast
qed

text \<open>
  C33. Without that condition the allocator hands out entries that are in use: of three
  ranges of two entries the first and the third are freed; the second of these calls
  takes the block before for adjacent and makes one free block of the first four
  entries; the next allocation of four entries returns the two that are still held.
\<close>

theorem pgt_double_alloc:
  "\<exists>m m' held. MrPgt_new 0 (MR_PGT_LENGTH * MR_PGT_ENTRY_SIZE) (\<lambda>_. 0) = Ok m \<and>
     (range_step pgt_alloc pgt_dealloc (\<lambda>_ _ _. True))\<^sup>*\<^sup>* (m, []) (m', held) \<and>
     blk 0 4 \<in> set held \<and> blk 2 2 \<in> set held \<and> entries 2 2 \<subseteq> entries 0 4"
proof -
  let ?step = "range_step pgt_alloc pgt_dealloc (\<lambda>_ _ _. True)"
  have d: "pgt_dealloc 0 2 (sample_pgt [(6, 1018)]) = sample_pgt [(0, 2), (6, 1018)]"
    "pgt_dealloc 4 2 (sample_pgt [(0, 2), (6, 1018)]) = sample_pgt [(0, 4), (6, 1018)]"
    "pgt_alloc 4 (sample_pgt [(0, 4), (6, 1018)]) = (Ok 0, sample_pgt [(6, 1018)])"
    by (simp_all add: pgt_dealloc_def dealloc_blk_def sample_pgt_def pgt_alloc_def)
  have "?step (sample_pgt [(6, 1018)], [blk 4 2, blk 2 2, blk 0 2]) (sample_pgt [(0, 2), (6, 1018)], [blk 4 2, blk 2 2])"
    "?step (sample_pgt [(0, 2), (6, 1018)], [blk 4 2, blk 2 2]) (sample_pgt [(0, 4), (6, 1018)], [blk 2 2])"
    "?step (sample_pgt [(0, 4), (6, 1018)], [blk 2 2]) (sample_pgt [(6, 1018)], [blk 0 4, blk 2 2])"
    using range_dealloc[of "\<lambda>_ _ _. True" "blk 0 2" "sample_pgt [(6, 1018)]" pgt_alloc pgt_dealloc "[blk 4 2, blk 2 2]" "[]"]
      range_dealloc[of "\<lambda>_ _ _. True" "blk 4 2" "sample_pgt [(0, 2), (6, 1018)]" pgt_alloc pgt_dealloc "[]" "[blk 2 2]"]
      range_alloc[where alloc = pgt_alloc and safe = "\<lambda>_ _ _. True" and dealloc = pgt_dealloc, OF d(3), of "[blk 2 2]"] d
    by simp_all
  then have "?step\<^sup>*\<^sup>* (sample_pgt [(0, 1024)], []) (sample_pgt [(6, 1018)], [blk 0 4, blk 2 2])"
    using sample_three by (meson rtranclp.rtrancl_into_rtrancl)
  moreover have "entries 2 2 \<subseteq> entries 0 4"
    by (auto simp: entries_def)
  ultimately show ?thesis
    using sample_pgt_new by (intro exI[of _ "sample_pgt [(0, 1024)]"] exI[of _ "sample_pgt [(6, 1018)]"] exI[of _ "[blk 0 4, blk 2 2]"]) simp
qed

end
