(* ===== verification/Device.thy ===== *)
theory Device
  imports Checker Page_Table
begin

unbundle bit_operations_syntax

text \<open>
  The device: \<^verbatim>\<open>src/pd.rs\<close>, \<^verbatim>\<open>src/mr.rs\<close>, the operations of \<^verbatim>\<open>src/qp.rs\<close> on the device, the work and
  control operations of \<^verbatim>\<open>src/lib.rs\<close>, and the thread of \<^verbatim>\<open>src/ctrl_poller.rs\<close> that takes the
  responses of the card. An operation is a function on the state of the device; it returns a
  result, panics, or waits for a response that does not come. A result is given with the state that the
  early returns leave behind. The operations hold the locks of the tables they
  change, so each of them is one step.
\<close>

definition MR_KEY_IDX_BIT_CNT :: nat where "MR_KEY_IDX_BIT_CNT = 8"
definition MR_TABLE_SIZE :: nat where "MR_TABLE_SIZE = 64"
definition ACKNOWLEDGE_BUFFER_SIZE :: usize where "ACKNOWLEDGE_BUFFER_SIZE = of_nat PAGE_SIZE"
definition NIC_BUFFER_SIZE :: usize where "NIC_BUFFER_SIZE = of_nat PAGE_SIZE"

record Mr =
  mr_key :: Key

record MrCtx =
  mx_pd :: Pd
  mx_len :: u32
  mx_pgt_offset :: usize
  mx_pg_size :: u32

record PdCtx =
  px_mr :: "Mr set"
  px_qp :: "Qpn set"

text \<open>
  The descriptors that were pushed to the card are kept in order. The handler of a
  control operation is the queue pair that the closure of \<^const>\<open>try_recover\<close> captures.
\<close>

record DeviceInner =
  dv_pd :: "Pd \<rightharpoonup> PdCtx"
  dv_mr_table :: "MrCtx option list"
  dv_qp_table :: "Qpn \<rightharpoonup> QpContext"
  dv_mr_pgt :: MrPgt
  dv_pgt_addr :: usize
  dv_user_op_ctx_map :: "op_key \<rightharpoonup> (unit, Qpn) OpCtx"
  dv_ctrl_op_ctx_map :: "u32 \<rightharpoonup> Qpn CtrlOpCtx"
  dv_next_ctrl_op_id :: u32
  dv_local_network :: RdmaDeviceNetworkParam
  dv_retry_map :: RetryMap
  dv_ctrl_rb :: "ToCardCtrlRbDesc list"
  dv_work_rb :: "ToCardWorkRbDesc list"

text \<open>
  The adaptor of the device, behind a trait object: which pushes succeed, the translation of
  addresses, and the responses that the control poller takes from the ring while the
  caller waits for a descriptor.
\<close>

record adaptor =
  ad_ctrl_push :: "ToCardCtrlRbDesc \<Rightarrow> bool"
  ad_work_push :: "ToCardWorkRbDesc \<Rightarrow> bool"
  ad_get_phys_addr :: "usize \<Rightarrow> (string, usize) result"
  ad_responses :: "ToCardCtrlRbDesc \<Rightarrow> ToHostCtrlRbDesc list"

subsection \<open>Operations\<close>

datatype 'a outcome = Done "(Error, 'a) result" | Panics | WaitsForever

type_synonym 'a dev = "DeviceInner \<Rightarrow> 'a outcome \<times> DeviceInner"

definition dev_return :: "'a \<Rightarrow> 'a dev" where
  "dev_return a d = (Done (Ok a), d)"

definition dev_fail :: "Error \<Rightarrow> 'a dev" where
  "dev_fail e d = (Done (Err e), d)"

definition dev_panic :: "'a dev" where
  "dev_panic d = (Panics, d)"

definition dev_bind :: "'a dev \<Rightarrow> ('a \<Rightarrow> 'b dev) \<Rightarrow> 'b dev" where
  "dev_bind m f d =
     (case m d of
        (Done (Inr a), d) \<Rightarrow> f a d
      | (Done (Inl e), d) \<Rightarrow> (Done (Inl e), d)
      | (Panics, d) \<Rightarrow> (Panics, d)
      | (WaitsForever, d) \<Rightarrow> (WaitsForever, d))"

definition dev_get :: "(DeviceInner \<Rightarrow> 'a) \<Rightarrow> 'a dev" where
  "dev_get f d = (Done (Ok (f d)), d)"

definition dev_modify :: "(DeviceInner \<Rightarrow> DeviceInner) \<Rightarrow> unit dev" where
  "dev_modify f d = (Done (Ok ()), f d)"

definition dev_result :: "(Error, 'a) result \<Rightarrow> 'a dev" where
  "dev_result r d = (Done r, d)"

lemma dev_simps [simp]:
  "dev_bind (dev_return a) f = f a" "dev_bind (dev_fail e) f' = dev_fail e" "dev_bind dev_panic f'' = dev_panic"
  "dev_bind (dev_get g) h d = h (g d) d" "dev_bind (dev_modify m) k d = k () (m d)"
  "dev_bind (dev_result (Ok b)) l = l b" "dev_bind (dev_result (Err e)) l' = dev_fail e"
  by (simp_all add: dev_bind_def dev_return_def dev_fail_def dev_panic_def dev_get_def dev_modify_def dev_result_def fun_eq_iff)

lemmas dev_defs = dev_bind_def dev_return_def dev_fail_def dev_panic_def dev_get_def dev_modify_def dev_result_def

subsection \<open>Control operations and the control poller\<close>

definition get_ctrl_op_id :: "u32 dev" where
  "get_ctrl_op_id = dev_bind (dev_get dv_next_ctrl_op_id) (\<lambda>i.
     dev_bind (dev_modify (\<lambda>d. d\<lparr> dv_next_ctrl_op_id := i + 1 \<rparr>)) (\<lambda>_. dev_return i))"

definition ctrl_push :: "adaptor \<Rightarrow> ToCardCtrlRbDesc \<Rightarrow> unit dev" where
  "ctrl_push ad desc =
     (if ad_ctrl_push ad desc then dev_modify (\<lambda>d. d\<lparr> dv_ctrl_rb := dv_ctrl_rb d @ [desc] \<rparr>) else dev_fail DeviceBusy)"

definition insert_ctrl_ctx :: "u32 \<Rightarrow> unit dev" where
  "insert_ctrl_ctx i =
     dev_bind (dev_get (\<lambda>d. dv_ctrl_op_ctx_map d i)) (\<lambda>old.
     dev_bind (dev_modify (\<lambda>d. d\<lparr> dv_ctrl_op_ctx_map := (dv_ctrl_op_ctx_map d)(i \<mapsto> new_running) \<rparr>)) (\<lambda>_.
       if old \<noteq> None then dev_fail CreateOpCtxFailed else dev_return ()))"

text \<open>Both return the context, which is the one that the map holds at the identifier.\<close>

definition do_ctrl_op :: "adaptor \<Rightarrow> u32 \<Rightarrow> ToCardCtrlRbDesc \<Rightarrow> u32 dev" where
  "do_ctrl_op ad i desc =
     dev_bind (insert_ctrl_ctx i) (\<lambda>_. dev_bind (ctrl_push ad desc) (\<lambda>_. dev_return i))"

definition send_ctrl_desc :: "adaptor \<Rightarrow> ToCardCtrlRbDesc \<Rightarrow> u32 dev" where
  "send_ctrl_desc ad desc =
     dev_bind get_ctrl_op_id (\<lambda>i.
     dev_bind (ctrl_push ad (set_id i desc)) (\<lambda>_. dev_bind (insert_ctrl_ctx i) (\<lambda>_. dev_return i)))"

definition handle_ctrl_desc_resp :: "ToHostCtrlRbDesc \<Rightarrow> DeviceInner \<Rightarrow> DeviceInner" where
  "handle_ctrl_desc_resp desc self =
     (let i = hc_op_id (hd_common desc);
          is_success = hc_is_success (hd_common desc)
      in case dv_ctrl_op_ctx_map self i of
           Some ctx \<Rightarrow>
             (case take_handler ctx of (handler, ctx) \<Rightarrow>
                let qp_table = (case handler of
                      Some qpn \<Rightarrow> recover_handler qpn is_success (dv_qp_table self) | None \<Rightarrow> dv_qp_table self);
                    ctx = (case set_result is_success ctx of Inr (ctx, _) \<Rightarrow> ctx | Inl _ \<Rightarrow> ctx)
                in self\<lparr> dv_qp_table := qp_table, dv_ctrl_op_ctx_map := (dv_ctrl_op_ctx_map self)(i \<mapsto> ctx) \<rparr>)
         | None \<Rightarrow> self)"

text \<open>The loop over the responses that it takes from the ring.\<close>

fun poll_ctrl_thread :: "ToHostCtrlRbDesc list \<Rightarrow> DeviceInner \<Rightarrow> DeviceInner" where
  "poll_ctrl_thread [] ctx = ctx"
| "poll_ctrl_thread (desc # descs) ctx =
     poll_ctrl_thread descs
       (if hc_opcode (hd_common desc) = OpUpdateErrorPsnRecoverPoint then ctx else handle_ctrl_desc_resp desc ctx)"

text \<open>The caller waits while the poller works, and takes the result of the context.\<close>

definition wait_ctrl :: "adaptor \<Rightarrow> ToCardCtrlRbDesc \<Rightarrow> u32 \<Rightarrow> bool dev" where
  "wait_ctrl ad desc i =
     dev_bind (dev_modify (poll_ctrl_thread (ad_responses ad desc))) (\<lambda>_ d.
       case dv_ctrl_op_ctx_map d i of
         None \<Rightarrow> (WaitsForever, d)
       | Some ctx \<Rightarrow>
           if oc_status ctx = Running then (WaitsForever, d)
           else dev_bind (dev_result (wait_result ctx)) (\<lambda>r. dev_result (ok_or r SetCtxResultFailed)) d)"

text \<open>The common part of the operations: send, wait, and fail when the card reports failure.\<close>

definition ctrl_op :: "adaptor \<Rightarrow> string \<Rightarrow> u32 \<Rightarrow> ToCardCtrlRbDesc \<Rightarrow> unit dev" where
  "ctrl_op ad what i desc =
     dev_bind (do_ctrl_op ad i desc) (\<lambda>ctx.
     dev_bind (wait_ctrl ad desc ctx) (\<lambda>res.
       if \<not> res then dev_fail (DeviceReturnFailed what) else dev_return ()))"

subsection \<open>Protection domains\<close>

text \<open>The handle is a random number, an argument here.\<close>

definition alloc_pd :: "u32 \<Rightarrow> Pd dev" where
  "alloc_pd rng =
     (let pd = \<lparr> pd_handle = rng \<rparr>
      in dev_bind (dev_get (\<lambda>d. dv_pd d pd)) (\<lambda>res.
         dev_bind (dev_modify (\<lambda>d. d\<lparr> dv_pd := (dv_pd d)(pd \<mapsto> \<lparr> px_mr = {}, px_qp = {} \<rparr>) \<rparr>)) (\<lambda>_.
           if res \<noteq> None then dev_fail (Invalid ''PD'') else dev_return pd)))"

definition dealloc_pd :: "Pd \<Rightarrow> unit dev" where
  "dealloc_pd pd =
     dev_bind (dev_get (\<lambda>d. dv_pd d pd)) (\<lambda>ctx.
     dev_bind (dev_result (ok_or ctx (Invalid ''PD''))) (\<lambda>pd_ctx.
       if px_mr pd_ctx \<noteq> {} then dev_fail (PdInUse ''mr is not empty'')
       else if px_qp pd_ctx \<noteq> {} then dev_fail (PdInUse ''qp is not empty'')
       else dev_modify (\<lambda>d. d\<lparr> dv_pd := (dv_pd d)(pd := None) \<rparr>)))"

subsection \<open>Memory regions\<close>

definition modify_pgt :: "(MrPgt \<Rightarrow> MrPgt) \<Rightarrow> unit dev" where
  "modify_pgt f = dev_modify (\<lambda>d. d\<lparr> dv_mr_pgt := f (dv_mr_pgt d) \<rparr>)"

definition phys_addr :: "adaptor \<Rightarrow> usize \<Rightarrow> usize dev" where
  "phys_addr ad va = dev_result (case ad_get_phys_addr ad va of Inr pa \<Rightarrow> Ok pa | Inl e \<Rightarrow> Err (GetPhysAddrFailed e))"

text \<open>The loop that fills the table: entry \<open>i\<close> for each \<open>i\<close> of the list.\<close>

fun fill_pgt :: "adaptor \<Rightarrow> u64 \<Rightarrow> u32 \<Rightarrow> nat list \<Rightarrow> unit dev" where
  "fill_pgt ad addr pg_size [] = dev_return ()"
| "fill_pgt ad addr pg_size (pgt_idx # idxs) =
     (let va = addr + ucast pg_size * of_nat pgt_idx
      in dev_bind (phys_addr ad va) (\<lambda>pa.
           if va AND (of_nat PAGE_SIZE - 1) \<noteq> 0 then dev_fail (AddressNotAlign ''va'' va)
           else if pa AND (of_nat PAGE_SIZE - 1) \<noteq> 0 then dev_fail (AddressNotAlign ''pa'' pa)
           else dev_bind (modify_pgt (\<lambda>t. t\<lparr> pgt_table := (pgt_table t)(of_nat pgt_idx := pa) \<rparr>)) (\<lambda>_.
             fill_pgt ad addr pg_size idxs)))"

definition pgt_alloc_dev :: "usize \<Rightarrow> usize dev" where
  "pgt_alloc_dev len d = (case pgt_alloc len (dv_mr_pgt d) of (r, t) \<Rightarrow> (Done r, d\<lparr> dv_mr_pgt := t \<rparr>))"

text \<open>
  A page size of zero panics in the division. When the card reports failure the entries are given
  back; the other errors keep them.
\<close>

definition register_page_table :: "adaptor \<Rightarrow> u64 \<Rightarrow> u32 \<Rightarrow> u32 \<Rightarrow> usize dev" where
  "register_page_table ad addr len pg_size =
     (if pg_size = 0 then dev_panic
      else
        let pgte_cnt = (ucast (div_ceil_u32 len pg_size) :: usize)
        in dev_bind (pgt_alloc_dev pgte_cnt) (\<lambda>pgt_offset.
           dev_bind (fill_pgt ad addr pg_size [0..<unat pgte_cnt]) (\<lambda>_.
           dev_bind get_ctrl_op_id (\<lambda>update_pgt_op_id.
           dev_bind (dev_get dv_pgt_addr) (\<lambda>table.
           dev_bind (phys_addr ad table) (\<lambda>start_addr.
           let desc = UpdatePageTable \<lparr> up_common = \<lparr> cc_op_id = update_pgt_op_id \<rparr>, up_start_addr = start_addr,
                 up_pgt_idx = ucast pgt_offset, up_pgte_cnt = ucast pgte_cnt \<rparr>
           in dev_bind (do_ctrl_op ad update_pgt_op_id desc) (\<lambda>ctx.
              dev_bind (wait_ctrl ad desc ctx) (\<lambda>res.
                if \<not> res then
                  dev_bind (modify_pgt (pgt_dealloc pgt_offset pgte_cnt)) (\<lambda>_. dev_fail (DeviceReturnFailed ''update page table''))
                else dev_return pgt_offset))))))))"

definition deregister_page_table :: "usize \<Rightarrow> u32 \<Rightarrow> unit dev" where
  "deregister_page_table pgt_offset len = modify_pgt (pgt_dealloc pgt_offset (ucast len))"

fun find_free :: "nat \<Rightarrow> MrCtx option list \<Rightarrow> nat option" where
  "find_free idx [] = None"
| "find_free idx (ctx # table) = (if ctx = None then Some idx else find_free (idx + 1) table)"

definition pd_update :: "Pd \<Rightarrow> (PdCtx \<Rightarrow> PdCtx) \<Rightarrow> unit dev" where
  "pd_update pd f = dev_modify (\<lambda>d. d\<lparr> dv_pd := (dv_pd d)(pd := map_option f (dv_pd d pd)) \<rparr>)"

definition mr_key_of :: "nat \<Rightarrow> u32 \<Rightarrow> Key" where
  "mr_key_of mr_idx rng =
     Key_new (push_bit (32 - MR_KEY_IDX_BIT_CNT) (of_nat mr_idx) OR drop_bit MR_KEY_IDX_BIT_CNT rng)"

definition mr_idx_of :: "Key \<Rightarrow> nat" where
  "mr_idx_of key = unat (drop_bit (32 - MR_KEY_IDX_BIT_CNT) (key_get key))"

definition reg_mr :: "adaptor \<Rightarrow> u32 \<Rightarrow> Pd \<Rightarrow> u64 \<Rightarrow> u32 \<Rightarrow> u32 \<Rightarrow> MemAccessTypeFlag \<Rightarrow> Mr dev" where
  "reg_mr ad rng pd addr len pg_size acc_flags =
     dev_bind (dev_get (\<lambda>d. find_free 0 (dv_mr_table d))) (\<lambda>free.
     dev_bind (dev_result (ok_or free (ResourceNoAvailable ''MR''))) (\<lambda>mr_idx.
     dev_bind (dev_get (\<lambda>d. dv_pd d pd)) (\<lambda>pd_ctx.
     dev_bind (dev_result (ok_or pd_ctx (Invalid ''PD''))) (\<lambda>pd_ctx.
     dev_bind (register_page_table ad addr len pg_size) (\<lambda>pgt_offset.
     let key = mr_key_of mr_idx rng;
         mr = \<lparr> mr_key = key \<rparr>;
         mr_ctx = \<lparr> mx_pd = pd, mx_len = len, mx_pgt_offset = pgt_offset, mx_pg_size = pg_size \<rparr>
     in dev_bind get_ctrl_op_id (\<lambda>update_mr_op_id.
        dev_bind (ctrl_op ad ''register mr table'' update_mr_op_id
          (UpdateMrTable \<lparr> um_common = \<lparr> cc_op_id = update_mr_op_id \<rparr>, um_addr = addr, um_len = len, um_key = key,
             um_pd_hdl = pd_handle pd, um_acc_flags = acc_flags, um_pgt_offset = ucast pgt_offset \<rparr>)) (\<lambda>_.
        dev_bind (dev_modify (\<lambda>d. d\<lparr> dv_mr_table := (dv_mr_table d)[mr_idx := Some mr_ctx] \<rparr>)) (\<lambda>_.
        dev_bind (pd_update pd (\<lambda>c. c\<lparr> px_mr := insert mr (px_mr c) \<rparr>)) (\<lambda>_.
          if mr \<in> px_mr pd_ctx then dev_fail (Invalid ''mr'') else dev_return mr)))))))))"

definition dereg_mr :: "adaptor \<Rightarrow> Mr \<Rightarrow> unit dev" where
  "dereg_mr ad mr =
     (let mr_idx = mr_idx_of (mr_key mr)
      in dev_bind (dev_get (\<lambda>d. if mr_idx < length (dv_mr_table d) then dv_mr_table d ! mr_idx else None)) (\<lambda>ctx.
         dev_bind (dev_result (ok_or ctx (Invalid ''MR''))) (\<lambda>mr_ctx.
         dev_bind (dev_get (\<lambda>d. dv_pd d (mx_pd mr_ctx))) (\<lambda>pd_ctx.
         dev_bind (dev_result (ok_or pd_ctx (Invalid ''PD''))) (\<lambda>pd_ctx.
         dev_bind get_ctrl_op_id (\<lambda>i.
         dev_bind (ctrl_op ad ''deregister mr table'' i
           (UpdateMrTable \<lparr> um_common = \<lparr> cc_op_id = i \<rparr>, um_addr = 0, um_len = 0, um_key = mr_key mr, um_pd_hdl = 0,
              um_acc_flags = IbvAccessNoFlags, um_pgt_offset = 0 \<rparr>)) (\<lambda>_.
         dev_bind (deregister_page_table (mx_pgt_offset mr_ctx) (div_ceil_u32 (mx_len mr_ctx) (mx_pg_size mr_ctx))) (\<lambda>_.
         dev_bind (pd_update (mx_pd mr_ctx) (\<lambda>c. c\<lparr> px_mr := px_mr c - {mr} \<rparr>)) (\<lambda>_.
           if mr \<notin> px_mr pd_ctx then dev_fail (Invalid ''MR'')
           else dev_modify (\<lambda>d. d\<lparr> dv_mr_table := (dv_mr_table d)[mr_idx := None] \<rparr>))))))))))"

text \<open>The buffer is given by its address; \<open>SLOT_SIZE\<close> is the const parameter of the packet buffer.\<close>

definition init_buf :: "adaptor \<Rightarrow> u32 \<Rightarrow> u32 \<Rightarrow> usize \<Rightarrow> usize \<Rightarrow> usize \<Rightarrow> PacketBuf dev" where
  "init_buf ad rng_pd rng_mr SLOT_SIZE buffer_addr buffer_size =
     dev_bind (alloc_pd rng_pd) (\<lambda>pd.
     dev_bind (reg_mr ad rng_mr pd buffer_addr (ucast buffer_size) (of_nat PAGE_SIZE)
       (IbvAccessLocalWrite OR IbvAccessRemoteRead OR IbvAccessRemoteWrite)) (\<lambda>mr.
       case PacketBuf_new SLOT_SIZE buffer_addr buffer_size (mr_key mr) of
         Inr buf \<Rightarrow> dev_return buf | Inl Panic \<Rightarrow> dev_panic))"

subsection \<open>Queue pairs\<close>

definition create_qp :: "adaptor \<Rightarrow> Qp \<Rightarrow> unit dev" where
  "create_qp ad qp =
     (let pd = qp_pd qp
      in dev_bind (dev_get (\<lambda>d. dv_pd d pd)) (\<lambda>pd_ctx.
         dev_bind (dev_result (ok_or pd_ctx (Invalid ''PD''))) (\<lambda>pd_ctx.
         dev_bind (dev_get dv_local_network) (\<lambda>net.
         let qpc = QpContext_new qp (np_ipaddr net) (np_macaddr net)
         in dev_bind get_ctrl_op_id (\<lambda>i.
            dev_bind (ctrl_op ad ''create qp'' i
              (QpManagement \<lparr> qm_common = \<lparr> cc_op_id = i \<rparr>, qm_is_valid = True, qm_qpn = qp_qpn qp, qm_pd_hdl = pd_handle pd,
                 qm_qp_type = qp_qp_type qp, qm_rq_acc_flags = qp_rq_acc_flags qp, qm_pmtu = qp_pmtu qp,
                 qm_peer_qpn = qp_peer_qpn qp \<rparr>)) (\<lambda>_.
            dev_bind (pd_update pd (\<lambda>c. c\<lparr> px_qp := insert (qp_qpn qp) (px_qp c) \<rparr>)) (\<lambda>_.
              if qp_qpn qp \<in> px_qp pd_ctx then dev_fail (Invalid ''qp'')
              else
                dev_bind (dev_get (\<lambda>d. dv_qp_table d (qp_qpn qp))) (\<lambda>qp_res.
                dev_bind (dev_modify (\<lambda>d. d\<lparr> dv_qp_table := (dv_qp_table d)(qp_qpn qp \<mapsto> qpc) \<rparr>)) (\<lambda>_.
                  if qp_res \<noteq> None then dev_fail (Invalid ''qp'') else dev_return ())))))))))"

definition destroy_qp :: "adaptor \<Rightarrow> Qpn \<Rightarrow> unit dev" where
  "destroy_qp ad qp =
     dev_bind get_ctrl_op_id (\<lambda>i.
     dev_bind (dev_get (\<lambda>d. dv_qp_table d qp)) (\<lambda>qp_ctx.
     dev_bind (dev_result (ok_or qp_ctx (Invalid ''Qpn''))) (\<lambda>qp_ctx.
     dev_bind (dev_get (\<lambda>d. dv_pd d (qc_pd qp_ctx))) (\<lambda>pd_ctx.
     dev_bind (dev_result (ok_or pd_ctx (Invalid ''PD''))) (\<lambda>pd_ctx.
     dev_bind (ctrl_op ad ''destroy qp'' i
       (QpManagement \<lparr> qm_common = \<lparr> cc_op_id = i \<rparr>, qm_is_valid = False, qm_qpn = qc_qpn qp_ctx, qm_pd_hdl = 0,
          qm_qp_type = qc_qp_type qp_ctx, qm_rq_acc_flags = IbvAccessNoFlags, qm_pmtu = qc_pmtu qp_ctx,
          qm_peer_qpn = qc_peer_qpn qp_ctx \<rparr>)) (\<lambda>_.
     dev_bind (pd_update (qc_pd qp_ctx) (\<lambda>c. c\<lparr> px_qp := px_qp c - {qp} \<rparr>)) (\<lambda>_.
       dev_modify (\<lambda>d. d\<lparr> dv_qp_table := (dv_qp_table d)(qp := None) \<rparr>))))))))"

subsection \<open>Work requests\<close>

definition dev_send_work_desc :: "adaptor \<Rightarrow> ToCardWorkRbDesc \<Rightarrow> unit dev" where
  "dev_send_work_desc ad desc =
     (if ad_work_push ad desc then dev_modify (\<lambda>d. d\<lparr> dv_work_rb := dv_work_rb d @ [desc] \<rparr>) else dev_fail DeviceBusy)"

text \<open>
  The first block of \<^verbatim>\<open>write_or_read\<close>: the message and packet sequence numbers are taken from the
  queue pair, which moves on.
\<close>

definition take_numbers ::
  "Qpn \<Rightarrow> u64 \<Rightarrow> Key \<Rightarrow> WorkReqSendFlag \<Rightarrow> Sge \<Rightarrow> bool \<Rightarrow> (ToCardWorkRbDescCommon \<times> op_key) dev" where
  "take_numbers dqpn raddr rkey flags sge0 for_read =
     dev_bind (dev_get (\<lambda>d. dv_qp_table d dqpn)) (\<lambda>qp.
     dev_bind (dev_result (ok_or qp (Invalid ''Qpn''))) (\<lambda>qp.
     let total_len = sge_len sge0;
         (msn, qp) = next_msn qp;
         packet_cnt = (if \<not> for_read then calculate_packet_cnt (qc_pmtu qp) raddr total_len else 1);
         first_pkt_psn = qc_sending_psn qp;
         qp = qp\<lparr> qc_sending_psn := wrapping_add first_pkt_psn packet_cnt \<rparr>;
         common = \<lparr> wc_total_len = total_len, wc_raddr = raddr, wc_rkey = rkey, wc_dqp_ip = qc_dqp_ip qp, wc_dqpn = qc_qpn qp,
                    wc_mac_addr = qc_dqp_mac_addr qp, wc_pmtu = qc_pmtu qp, wc_flags = flags, wc_qp_type = qc_qp_type qp,
                    wc_psn = first_pkt_psn, wc_msn = msn \<rparr>
     in dev_bind (dev_modify (\<lambda>d. d\<lparr> dv_qp_table := (dv_qp_table d)(dqpn \<mapsto> qp) \<rparr>)) (\<lambda>_.
          dev_return (common, (qc_qpn qp, msn)))))"

definition write_or_read ::
  "adaptor \<Rightarrow> u128 \<Rightarrow> Qpn \<Rightarrow> u64 \<Rightarrow> Key \<Rightarrow> WorkReqSendFlag \<Rightarrow> Sge \<Rightarrow> bool \<Rightarrow> op_key dev" where
  "write_or_read ad now dqpn raddr rkey flags sge0 for_read =
     dev_bind (take_numbers dqpn raddr rkey flags sge0 for_read) (\<lambda>(common, key).
     dev_bind (dev_result (build (with_sge sge0 (with_common common
       (Builder_new (if \<not> for_read then CoWrite else CoRead)))))) (\<lambda>desc.
     dev_bind (dev_send_work_desc ad desc) (\<lambda>_.
     dev_bind (dev_get (\<lambda>d. dv_user_op_ctx_map d key)) (\<lambda>old.
     dev_bind (dev_modify (\<lambda>d. d\<lparr> dv_user_op_ctx_map := (dv_user_op_ctx_map d)(key \<mapsto> new_running) \<rparr>)) (\<lambda>_.
       if old \<noteq> None then dev_fail CreateOpCtxFailed
       else dev_bind (dev_modify (\<lambda>d. d\<lparr> dv_retry_map := snd (retry_add now (dqpn, snd key) desc (\<not> for_read) (dv_retry_map d)) \<rparr>))
              (\<lambda>_. dev_return key))))))"

definition dev_write :: "adaptor \<Rightarrow> u128 \<Rightarrow> Qpn \<Rightarrow> u64 \<Rightarrow> Key \<Rightarrow> WorkReqSendFlag \<Rightarrow> Sge \<Rightarrow> op_key dev" where
  "dev_write ad now dqpn raddr rkey flags sge0 = write_or_read ad now dqpn raddr rkey flags sge0 False"

definition dev_read :: "adaptor \<Rightarrow> u128 \<Rightarrow> Qpn \<Rightarrow> u64 \<Rightarrow> Key \<Rightarrow> WorkReqSendFlag \<Rightarrow> Sge \<Rightarrow> op_key dev" where
  "dev_read ad now dqpn raddr rkey flags sge = write_or_read ad now dqpn raddr rkey flags sge True"

definition set_network :: "adaptor \<Rightarrow> RdmaDeviceNetworkParam \<Rightarrow> unit dev" where
  "set_network ad network =
     dev_bind get_ctrl_op_id (\<lambda>i.
     let desc = SetNetworkParam \<lparr> sn_common = \<lparr> cc_op_id = i \<rparr>, sn_gateway = np_gateway network, sn_netmask = np_netmask network,
           sn_ipaddr = np_ipaddr network, sn_macaddr = np_macaddr network \<rparr>
     in dev_bind (send_ctrl_desc ad desc) (\<lambda>ctx.
        dev_bind (wait_ctrl ad (set_id ctx desc) ctx) (\<lambda>is_success.
          if \<not> is_success then dev_fail (DeviceReturnFailed ''Network param'') else dev_return ())))"

definition prepare_nic_recv_buf :: "adaptor \<Rightarrow> u32 \<Rightarrow> u32 \<Rightarrow> usize \<Rightarrow> unit dev" where
  "prepare_nic_recv_buf ad rng_pd rng_mr buffer_addr =
     dev_bind get_ctrl_op_id (\<lambda>i.
     dev_bind (init_buf ad rng_pd rng_mr NIC_PACKET_BUFFER_SLOT_SIZE buffer_addr NIC_BUFFER_SIZE) (\<lambda>recv_buf.
     case get_register_params recv_buf of (start_va, lkey) \<Rightarrow>
       ctrl_op ad ''Network param'' i
         (SetRawPacketReceiveMeta \<lparr> rm_common = \<lparr> cc_op_id = i \<rparr>, rm_base_write_addr = start_va, rm_key = lkey \<rparr>)))"

text \<open>
  The state that the constructor builds, for each kind of adaptor alike: \<open>pgt_addr\<close> and \<open>table\<close> are the address and the
  contents of the buffer of the page table. Constructing it panics when the buffer is not aligned.
\<close>

definition Device_new :: "usize \<Rightarrow> (usize \<Rightarrow> u64) \<Rightarrow> RdmaDeviceNetworkParam \<Rightarrow> RetryConfig \<Rightarrow> (panic, DeviceInner) result" where
  "Device_new pgt_addr table network_config retry_config =
     result_bind (MrPgt_new pgt_addr (MR_PGT_LENGTH * MR_PGT_ENTRY_SIZE) table) (\<lambda>mr_pgt.
       Ok \<lparr> dv_pd = Map.empty, dv_mr_table = replicate MR_TABLE_SIZE None, dv_qp_table = Map.empty, dv_mr_pgt = mr_pgt,
            dv_pgt_addr = pgt_addr, dv_user_op_ctx_map = Map.empty, dv_ctrl_op_ctx_map = Map.empty, dv_next_ctrl_op_id = 0,
            dv_local_network = network_config,
            dv_retry_map = RetryMap_new (cfg_max_retry retry_config) (cfg_retry_timeout retry_config),
            dv_ctrl_rb = [], dv_work_rb = [] \<rparr>)"

text \<open>
  The initialisation, without the threads it starts: it makes the buffer of the packet checker and the
  send buffer of the network interface and sets the network of the card. The addresses of
  the two buffers are arguments, \<^const>\<open>None\<close> when there is no memory.
\<close>

definition device_init ::
  "adaptor \<Rightarrow> u32 \<times> u32 \<Rightarrow> u32 \<times> u32 \<Rightarrow> usize option \<Rightarrow> usize option \<Rightarrow> (PacketBuf \<times> PacketBuf) dev" where
  "device_init ad rng_ack rng_tx ack_addr tx_addr =
     dev_bind (dev_result (ok_or ack_addr (ResourceNoAvailable ''hugepage''))) (\<lambda>buf.
     dev_bind (init_buf ad (fst rng_ack) (snd rng_ack) RDMA_ACK_BUFFER_SLOT_SIZE buf ACKNOWLEDGE_BUFFER_SIZE) (\<lambda>ack_buf.
     dev_bind (dev_result (ok_or tx_addr (ResourceNoAvailable ''hugepage''))) (\<lambda>tx_slot_buf.
     dev_bind (init_buf ad (fst rng_tx) (snd rng_tx) NIC_PACKET_BUFFER_SLOT_SIZE tx_slot_buf NIC_BUFFER_SIZE) (\<lambda>tx_buf.
     dev_bind (dev_get dv_local_network) (\<lambda>network.
     dev_bind (set_network ad network) (\<lambda>_. dev_return (ack_buf, tx_buf)))))))"

text \<open>What \<^const>\<open>try_recover\<close> does with the device: it sends the descriptor and sets the handler of its context.\<close>

definition send_recover :: "adaptor \<Rightarrow> Qpn \<Rightarrow> Psn \<Rightarrow> u32 dev" where
  "send_recover ad qpn recover_psn =
     dev_bind (send_ctrl_desc ad (UpdateErrorPsnRecoverPoint
         \<lparr> ep_common = \<lparr> cc_op_id = 0 \<rparr>, ep_qpn = qpn, ep_recover_psn = recover_psn \<rparr>)) (\<lambda>i.
     dev_bind (dev_modify (\<lambda>d. d\<lparr> dv_ctrl_op_ctx_map :=
         (dv_ctrl_op_ctx_map d)(i := map_option (set_handler qpn) (dv_ctrl_op_ctx_map d i)) \<rparr>)) (\<lambda>_.
       dev_return i))"

subsection \<open>Protection domains are not left dangling\<close>

text \<open>Every queue pair and every memory region is listed in a protection domain that exists.\<close>

definition device_inv :: "DeviceInner \<Rightarrow> bool" where
  "device_inv d \<longleftrightarrow>
     (\<forall>q qp. dv_qp_table d q = Some qp \<longrightarrow> (\<exists>c. dv_pd d (qc_pd qp) = Some c \<and> q \<in> px_qp c)) \<and>
     length (dv_mr_table d) = MR_TABLE_SIZE \<and>
     (\<forall>i ctx. i < MR_TABLE_SIZE \<longrightarrow> dv_mr_table d ! i = Some ctx \<longrightarrow>
        (\<exists>c mr. dv_pd d (mx_pd ctx) = Some c \<and> mr \<in> px_mr c \<and> mr_idx_of (mr_key mr) = i))"

text \<open>Operations that leave the resources alone, up to the status and the counters of queue pairs.\<close>

definition res_same :: "DeviceInner \<Rightarrow> DeviceInner \<Rightarrow> bool" where
  "res_same d d' \<longleftrightarrow> dv_pd d' = dv_pd d \<and> dv_mr_table d' = dv_mr_table d \<and>
     (\<forall>q. map_option qc_pd (dv_qp_table d' q) = map_option qc_pd (dv_qp_table d q))"

definition frame :: "'a dev \<Rightarrow> bool" where
  "frame m \<longleftrightarrow> (\<forall>d. res_same d (snd (m d)))"

lemma res_same_refl [simp]: "res_same d d"
  by (simp add: res_same_def)

lemma res_same_trans: "res_same d e \<Longrightarrow> res_same e f \<Longrightarrow> res_same d f"
  by (simp add: res_same_def)

lemma device_inv_same:
  assumes "device_inv d" "res_same d d'"
  shows "device_inv d'"
proof -
  have "\<exists>qp'. dv_qp_table d q = Some qp' \<and> qc_pd qp' = qc_pd qp" if "dv_qp_table d' q = Some qp" for q qp
    using assms(2) that by (metis (no_types, lifting) map_option_eq_Some res_same_def)
  with assms show ?thesis
    unfolding device_inv_def res_same_def by metis
qed

lemma frame_bind_prop:
  assumes "res_same d e" "frame m" "\<And>e. res_same d e \<Longrightarrow> P e" "\<And>a e. res_same d e \<Longrightarrow> P (snd (f a e))"
  shows "P (snd (dev_bind m f e))"
proof -
  have "res_same d (snd (m e))"
    using assms(1,2) res_same_trans by (auto simp: frame_def)
  then show ?thesis
    using assms(3,4) by (auto simp: dev_bind_def split: prod.splits outcome.splits sum.splits)
qed

lemma frame_step:
  assumes "device_inv d" "res_same d e" "frame m" "\<And>a e. res_same d e \<Longrightarrow> device_inv (snd (f a e))"
  shows "device_inv (snd (dev_bind m f e))"
  by (rule frame_bind_prop[OF assms(2,3)]) (use assms device_inv_same in blast)+

lemma frame_bind:
  assumes "frame m" "\<And>a. frame (f a)"
  shows "frame (dev_bind m f)"
proof (unfold frame_def, rule allI)
  fix d
  have "res_same d (snd (m d))" "\<And>a. res_same (snd (m d)) (snd (f a (snd (m d))))"
    using assms by (simp_all add: frame_def)
  then show "res_same d (snd (dev_bind m f d))"
    by (auto simp: dev_bind_def intro: res_same_trans split: prod.splits outcome.splits sum.splits)
qed

lemma frame_simps [simp]:
  "frame (dev_return a)" "frame (dev_fail e)" "frame dev_panic" "frame (dev_get g)" "frame (dev_result r)"
  by (simp_all add: frame_def dev_return_def dev_fail_def dev_panic_def dev_get_def dev_result_def)

lemma frame_modify: "(\<And>d. res_same d (f d)) \<Longrightarrow> frame (dev_modify f)"
  by (simp add: frame_def dev_modify_def)

lemma res_same_poll: "res_same d (poll_ctrl_thread descs d)"
proof (induction descs arbitrary: d)
  case (Cons desc descs)
  have "res_same d (handle_ctrl_desc_resp desc d)"
    by (auto simp: handle_ctrl_desc_resp_def res_same_def recover_handler_def Let_def split: option.splits prod.splits)
  then show ?case
    using Cons.IH res_same_trans by auto
qed simp

lemma frame_ctrl [simp]:
  "frame get_ctrl_op_id" "frame (ctrl_push ad desc)" "frame (insert_ctrl_ctx i)"
  by (auto simp: get_ctrl_op_id_def ctrl_push_def insert_ctrl_ctx_def res_same_def intro!: frame_bind frame_modify)

lemma frame_send [simp]: "frame (do_ctrl_op ad i desc)" "frame (send_ctrl_desc ad desc)"
  by (auto simp: do_ctrl_op_def send_ctrl_desc_def intro!: frame_bind)

lemma frame_wait [simp]: "frame (wait_ctrl ad desc i)"
  unfolding wait_ctrl_def
proof (intro frame_bind frame_modify res_same_poll)
  show "frame (\<lambda>d. case dv_ctrl_op_ctx_map d i of None \<Rightarrow> (WaitsForever, d)
      | Some ctx \<Rightarrow> if oc_status ctx = Running then (WaitsForever, d)
          else dev_bind (dev_result (wait_result ctx)) (\<lambda>r. dev_result (ok_or r SetCtxResultFailed)) d)"
    by (auto simp: frame_def dev_bind_def dev_result_def split: option.split sum.split)
qed

lemma frame_ctrl_op [simp]: "frame (ctrl_op ad what i desc)"
  by (auto simp: ctrl_op_def intro!: frame_bind)

lemma frame_pgt [simp]: "frame (modify_pgt f)" "frame (pgt_alloc_dev len)" "frame (phys_addr ad va)"
  by (auto simp: modify_pgt_def pgt_alloc_dev_def phys_addr_def frame_def dev_modify_def dev_result_def res_same_def
      split: prod.split)

lemma frame_fill_pgt [simp]: "frame (fill_pgt ad addr pg_size idxs)"
  by (induction idxs) (auto simp: Let_def intro!: frame_bind)

lemma frame_register [simp]: "frame (register_page_table ad addr len pg_size)"
  by (auto simp: register_page_table_def Let_def intro!: frame_bind)

text \<open>The operations on the tables.\<close>

lemma device_inv_pd:
  assumes "device_inv d" "dv_qp_table d' = dv_qp_table d" "dv_mr_table d' = dv_mr_table d"
    and "\<And>p c. dv_pd d p = Some c \<Longrightarrow> px_mr c \<noteq> {} \<or> px_qp c \<noteq> {} \<Longrightarrow> dv_pd d' p = Some c"
  shows "device_inv d'"
  unfolding device_inv_def assms(2,3)
proof (intro conjI allI impI)
  fix q qp assume "dv_qp_table d q = Some qp"
  then show "\<exists>c. dv_pd d' (qc_pd qp) = Some c \<and> q \<in> px_qp c"
    using assms(1) assms(4)[of "qc_pd qp"] unfolding device_inv_def by blast
next
  fix i ctx assume "i < MR_TABLE_SIZE" "dv_mr_table d ! i = Some ctx"
  then show "\<exists>c mr. dv_pd d' (mx_pd ctx) = Some c \<and> mr \<in> px_mr c \<and> mr_idx_of (mr_key mr) = i"
    using assms(1) assms(4)[of "mx_pd ctx"] unfolding device_inv_def by blast
qed (use assms(1) in \<open>simp add: device_inv_def\<close>)

lemma alloc_pd_inv:
  assumes "device_inv d" "dv_pd d \<lparr> pd_handle = rng \<rparr> = None"
  shows "device_inv (snd (alloc_pd rng d))"
proof -
  have "snd (alloc_pd rng d) = d\<lparr> dv_pd := (dv_pd d)(\<lparr> pd_handle = rng \<rparr> \<mapsto> \<lparr> px_mr = {}, px_qp = {} \<rparr>) \<rparr>"
    using assms(2) by (simp add: alloc_pd_def Let_def dev_return_def)
  then show ?thesis
    using assms(2) by (auto intro!: device_inv_pd[OF assms(1)] split: if_splits)
qed

lemma dealloc_pd_cases:
  assumes "dealloc_pd pd d = (r, d')"
  shows "d' = d \<or> d' = d\<lparr> dv_pd := (dv_pd d)(pd := None) \<rparr> \<and> dv_pd d pd = Some \<lparr> px_mr = {}, px_qp = {} \<rparr>"
  using assms by (cases "dv_pd d pd") (auto simp: dealloc_pd_def dev_fail_def dev_modify_def split: if_splits)

lemma dealloc_pd_inv:
  assumes "device_inv d"
  shows "device_inv (snd (dealloc_pd pd d))"
  using dealloc_pd_cases[of pd d "fst (dealloc_pd pd d)" "snd (dealloc_pd pd d)"]
  by (auto simp: assms intro!: device_inv_pd[OF assms] split: if_splits)

lemma find_free_less: "find_free k table = Some i \<Longrightarrow> i < k + length table"
  by (induction k table rule: find_free.induct) (auto split: if_splits)

lemma mr_idx_of_key:
  assumes "i < MR_TABLE_SIZE"
  shows "mr_idx_of (mr_key_of i rng) = i"
proof -
  have i: "i < 64"
    using assms by (simp add: MR_TABLE_SIZE_def)
  have "drop_bit 24 (push_bit 24 (of_nat i) OR drop_bit 8 rng) = (of_nat i :: u32)"
  proof (rule bit_eqI)
    fix n
    have "\<not> bit (of_nat i :: u32) n" if "8 \<le> n"
    proof -
      have "i < 2 ^ n"
        using i that power_increasing[of 8 n "2 :: nat"] by simp
      then show ?thesis
        using bit_iff_odd[of i n] by (simp add: bit_of_nat_iff)
    qed
    then show "bit (drop_bit 24 (push_bit 24 (of_nat i) OR drop_bit 8 rng) :: u32) n \<longleftrightarrow> bit (of_nat i :: u32) n"
      using not_le by (auto simp: bit_simps dest: bit_imp_le_length)
  qed
  then show ?thesis
    using i by (simp add: mr_idx_of_def mr_key_of_def MR_KEY_IDX_BIT_CNT_def Key_new_def take_bit_nat_eq_self unsigned_of_nat
        del: drop_bit_or drop_bit_push_bit)
qed

lemma device_invD:
  assumes "device_inv d"
  shows "dv_qp_table d q = Some qp \<Longrightarrow> \<exists>c. dv_pd d (qc_pd qp) = Some c \<and> q \<in> px_qp c"
    and "length (dv_mr_table d) = MR_TABLE_SIZE"
    and "i < MR_TABLE_SIZE \<Longrightarrow> dv_mr_table d ! i = Some ctx \<Longrightarrow>
      \<exists>c mr. dv_pd d (mx_pd ctx) = Some c \<and> mr \<in> px_mr c \<and> mr_idx_of (mr_key mr) = i"
  using assms by (simp_all add: device_inv_def)

lemma device_invI:
  assumes "\<And>q qp. dv_qp_table d q = Some qp \<Longrightarrow> \<exists>c. dv_pd d (qc_pd qp) = Some c \<and> q \<in> px_qp c"
    and "length (dv_mr_table d) = MR_TABLE_SIZE"
    and "\<And>i ctx. i < MR_TABLE_SIZE \<Longrightarrow> dv_mr_table d ! i = Some ctx \<Longrightarrow>
      \<exists>c mr. dv_pd d (mx_pd ctx) = Some c \<and> mr \<in> px_mr c \<and> mr_idx_of (mr_key mr) = i"
  shows "device_inv d"
  using assms by (simp add: device_inv_def)

lemma enter_mr_inv:
  assumes "device_inv d" "dv_pd d (mx_pd ctx) = Some c" "mr_idx_of (mr_key mr) = i"
  shows "device_inv (d\<lparr> dv_mr_table := (dv_mr_table d)[i := Some ctx],
                        dv_pd := (dv_pd d)(mx_pd ctx \<mapsto> c\<lparr> px_mr := insert mr (px_mr c) \<rparr>) \<rparr>)" (is "device_inv ?d")
proof (rule device_invI)
  show "\<exists>c'. dv_pd ?d (qc_pd qp) = Some c' \<and> q \<in> px_qp c'" if "dv_qp_table ?d q = Some qp" for q qp
    using device_invD(1)[OF assms(1), of q qp] assms(2) that by auto
  show "\<exists>c' mr'. dv_pd ?d (mx_pd ctx') = Some c' \<and> mr' \<in> px_mr c' \<and> mr_idx_of (mr_key mr') = j"
    if "j < MR_TABLE_SIZE" "dv_mr_table ?d ! j = Some ctx'" for j ctx'
  proof (cases "j = i")
    case True
    then show ?thesis
      using device_invD(2)[OF assms(1)] assms(3) that by auto
  next
    case False
    then show ?thesis
      using device_invD(3)[OF assms(1), of j ctx'] assms(2) that by auto
  qed
qed (simp add: device_invD(2)[OF assms(1)])

lemma leave_mr_inv:
  assumes "device_inv d" "dv_pd d pd = Some c" "mr_idx_of (mr_key mr) = i"
  shows "device_inv (d\<lparr> dv_pd := (dv_pd d)(pd \<mapsto> c\<lparr> px_mr := px_mr c - {mr} \<rparr>),
                        dv_mr_table := (dv_mr_table d)[i := None] \<rparr>)" (is "device_inv ?d")
proof (rule device_invI)
  show "\<exists>c'. dv_pd ?d (qc_pd qp) = Some c' \<and> q \<in> px_qp c'" if "dv_qp_table ?d q = Some qp" for q qp
    using device_invD(1)[OF assms(1), of q qp] assms(2) that by auto
  show "\<exists>c' mr'. dv_pd ?d (mx_pd ctx') = Some c' \<and> mr' \<in> px_mr c' \<and> mr_idx_of (mr_key mr') = j"
    if "j < MR_TABLE_SIZE" "dv_mr_table ?d ! j = Some ctx'" for j ctx'
  proof -
    have "j \<noteq> i"
      using that device_invD(2)[OF assms(1)] by auto
    then show ?thesis
      using device_invD(3)[OF assms(1), of j ctx'] assms(2,3) that by auto
  qed
qed (simp add: device_invD(2)[OF assms(1)])

lemma enter_qp_inv:
  assumes "device_inv d" "dv_pd d pd = Some c"
  shows "device_inv (d\<lparr> dv_pd := (dv_pd d)(pd \<mapsto> c\<lparr> px_qp := insert q (px_qp c) \<rparr>) \<rparr>)" (is "device_inv ?d")
    and "qc_pd qp = pd \<Longrightarrow>
      device_inv (d\<lparr> dv_pd := (dv_pd d)(pd \<mapsto> c\<lparr> px_qp := insert q (px_qp c) \<rparr>),
                     dv_qp_table := (dv_qp_table d)(q \<mapsto> qp) \<rparr>)" (is "_ \<Longrightarrow> device_inv ?e")
proof -
  show inv: "device_inv ?d"
  proof (rule device_invI)
    show "\<exists>c'. dv_pd ?d (qc_pd qp) = Some c' \<and> q' \<in> px_qp c'" if "dv_qp_table ?d q' = Some qp" for q' qp
      using device_invD(1)[OF assms(1), of q' qp] assms(2) that by auto
    show "\<exists>c' mr'. dv_pd ?d (mx_pd ctx') = Some c' \<and> mr' \<in> px_mr c' \<and> mr_idx_of (mr_key mr') = j"
      if "j < MR_TABLE_SIZE" "dv_mr_table ?d ! j = Some ctx'" for j ctx'
      using device_invD(3)[OF assms(1), of j ctx'] assms(2) that by auto
  qed (simp add: device_invD(2)[OF assms(1)])
  show "device_inv ?e" if "qc_pd qp = pd"
  proof (rule device_invI)
    show "\<exists>c'. dv_pd ?e (qc_pd qp') = Some c' \<and> q' \<in> px_qp c'" if "dv_qp_table ?e q' = Some qp'" for q' qp'
      using device_invD(1)[OF inv, of q' qp'] \<open>qc_pd qp = pd\<close> that by (auto split: if_splits)
    show "\<exists>c' mr'. dv_pd ?e (mx_pd ctx') = Some c' \<and> mr' \<in> px_mr c' \<and> mr_idx_of (mr_key mr') = j"
      if "j < MR_TABLE_SIZE" "dv_mr_table ?e ! j = Some ctx'" for j ctx'
      using device_invD(3)[OF inv, of j ctx'] that by simp
  qed (simp add: device_invD(2)[OF assms(1)])
qed

lemma leave_qp_inv:
  assumes "device_inv d" "dv_pd d pd = Some c"
  shows "device_inv (d\<lparr> dv_pd := (dv_pd d)(pd \<mapsto> c\<lparr> px_qp := px_qp c - {q} \<rparr>),
                        dv_qp_table := (dv_qp_table d)(q := None) \<rparr>)" (is "device_inv ?d")
proof (rule device_invI)
  show "\<exists>c'. dv_pd ?d (qc_pd qp) = Some c' \<and> q' \<in> px_qp c'" if "dv_qp_table ?d q' = Some qp" for q' qp
    using device_invD(1)[OF assms(1), of q' qp] assms(2) that by (auto split: if_splits)
  show "\<exists>c' mr'. dv_pd ?d (mx_pd ctx') = Some c' \<and> mr' \<in> px_mr c' \<and> mr_idx_of (mr_key mr') = j"
    if "j < MR_TABLE_SIZE" "dv_mr_table ?d ! j = Some ctx'" for j ctx'
    using device_invD(3)[OF assms(1), of j ctx'] assms(2) that by auto
qed (simp add: device_invD(2)[OF assms(1)])

lemma reg_mr_inv:
  assumes "device_inv d"
  shows "device_inv (snd (reg_mr ad rng pd addr len pg_size acc_flags d))"
proof (cases "find_free 0 (dv_mr_table d)")
  case (Some i)
  then have i: "mr_idx_of (mr_key_of i rng) = i"
    using find_free_less[OF Some] device_invD(2)[OF assms] mr_idx_of_key by simp
  show ?thesis
  proof (cases "dv_pd d pd")
    case (Some c)
    have "device_inv (e\<lparr> dv_mr_table := (dv_mr_table e)[i := Some ctx],
        dv_pd := (dv_pd e)(pd \<mapsto> c\<lparr> px_mr := insert \<lparr> mr_key = mr_key_of i rng \<rparr> (px_mr c) \<rparr>) \<rparr>)"
      if "res_same d e" "mx_pd ctx = pd" for e ctx
      using enter_mr_inv[OF device_inv_same[OF assms that(1)], of ctx c "\<lparr> mr_key = mr_key_of i rng \<rparr>" i] that Some i
      by (simp add: res_same_def)
    then show ?thesis
      using Some \<open>find_free 0 (dv_mr_table d) = Some i\<close>
      by (auto simp: reg_mr_def Let_def pd_update_def dev_fail_def dev_return_def res_same_def[of d]
          intro!: frame_step[OF assms _ frame_register] frame_step[OF assms _ frame_ctrl(1)] frame_step[OF assms _ frame_ctrl_op])
  qed (use assms Some in \<open>simp add: reg_mr_def dev_fail_def\<close>)
qed (use assms in \<open>simp add: reg_mr_def dev_fail_def\<close>)

lemma dereg_mr_inv:
  assumes "device_inv d"
  shows "device_inv (snd (dereg_mr ad mr d))"
proof -
  let ?i = "mr_idx_of (mr_key mr)"
  have out: "device_inv (e\<lparr> dv_pd := (dv_pd e)(pd \<mapsto> c\<lparr> px_mr := px_mr c - {mr} \<rparr>), dv_mr_table := (dv_mr_table e)[?i := None] \<rparr>)"
    if "res_same d e" "dv_pd d pd = Some c" for e pd c
    using leave_mr_inv[OF device_inv_same[OF assms that(1)], of pd c mr ?i] that by (simp add: res_same_def)
  have same: "device_inv (e\<lparr> dv_pd := (dv_pd e)(pd \<mapsto> c\<lparr> px_mr := px_mr c - {mr} \<rparr>) \<rparr>)"
    if "res_same d e" "dv_pd d pd = Some c" "mr \<notin> px_mr c" for e pd c
    by (rule device_inv_pd[OF device_inv_same[OF assms that(1)]]) (use that in \<open>auto simp: res_same_def\<close>)
  show ?thesis
  proof (cases "if ?i < length (dv_mr_table d) then dv_mr_table d ! ?i else None")
    case mx: (Some ctx)
    show ?thesis
    proof (cases "dv_pd d (mx_pd ctx)")
      case (Some c)
      then show ?thesis
        using mx out[OF _ Some] same[OF _ Some]
        by (simp, auto simp: dereg_mr_def Let_def pd_update_def deregister_page_table_def dev_fail_def dev_modify_def res_same_def[of d]
            intro!: frame_step[OF assms _ frame_ctrl(1)] frame_step[OF assms _ frame_ctrl_op] frame_step[OF assms _ frame_pgt(1)])
    qed (use assms mx in \<open>simp add: dereg_mr_def Let_def dev_fail_def\<close>)
  qed (use assms in \<open>simp add: dereg_mr_def Let_def dev_fail_def\<close>)
qed

lemma create_qp_inv:
  assumes "device_inv d"
  shows "device_inv (snd (create_qp ad qp d))"
proof (cases "dv_pd d (qp_pd qp)")
  case (Some c)
  have "device_inv (e\<lparr> dv_pd := (dv_pd e)(qp_pd qp \<mapsto> c\<lparr> px_qp := insert q (px_qp c) \<rparr>) \<rparr>)"
    "qc_pd x = qp_pd qp \<Longrightarrow> device_inv (e\<lparr> dv_pd := (dv_pd e)(qp_pd qp \<mapsto> c\<lparr> px_qp := insert q (px_qp c) \<rparr>),
                     dv_qp_table := (dv_qp_table e)(q \<mapsto> x) \<rparr>)" if "res_same d e" for e q x
    using enter_qp_inv[OF device_inv_same[OF assms that], of "qp_pd qp" c] that Some by (simp_all add: res_same_def)
  then show ?thesis
    using Some
    by (auto simp: create_qp_def Let_def pd_update_def dev_fail_def dev_return_def QpContext_new_def res_same_def[of d]
        intro!: frame_step[OF assms _ frame_ctrl(1)] frame_step[OF assms _ frame_ctrl_op])
qed (use assms in \<open>simp add: create_qp_def Let_def dev_fail_def\<close>)

lemma destroy_qp_inv:
  assumes "device_inv d"
  shows "device_inv (snd (destroy_qp ad q d))"
  unfolding destroy_qp_def
proof (rule frame_step[OF assms res_same_refl frame_ctrl(1)], goal_cases)
  case (1 i e)
  then have inv: "device_inv e"
    by (rule device_inv_same[OF assms])
  show ?case
  proof (cases "dv_qp_table e q")
    case qp: (Some qp)
    then obtain c where c: "dv_pd e (qc_pd qp) = Some c"
      using device_invD(1)[OF inv qp] by blast
    have "device_inv (e'\<lparr> dv_pd := (dv_pd e')(qc_pd qp \<mapsto> c\<lparr> px_qp := px_qp c - {q} \<rparr>), dv_qp_table := (dv_qp_table e')(q := None) \<rparr>)"
      if "res_same e e'" for e'
      using leave_qp_inv[OF device_inv_same[OF inv that]] that c by (simp add: res_same_def)
    then show ?thesis
      using qp c by (auto simp: pd_update_def dev_modify_def res_same_def[of e] intro!: frame_step[OF inv _ frame_ctrl_op])
  qed (use inv in \<open>simp add: dev_fail_def\<close>)
qed

lemma frame_take_numbers [simp]: "frame (take_numbers dqpn raddr rkey flags sge0 for_read)"
proof -
  have "res_same d (snd (take_numbers dqpn raddr rkey flags sge0 for_read d))" for d
    by (cases "dv_qp_table d dqpn")
      (auto simp: take_numbers_def res_same_def dev_fail_def dev_return_def next_msn_def Let_def)
  then show ?thesis
    by (simp add: frame_def)
qed

lemma frame_work [simp]: "frame (write_or_read ad now dqpn raddr rkey flags sge0 for_read)"
  by (auto simp: write_or_read_def dev_send_work_desc_def res_same_def intro!: frame_bind frame_modify split: prod.split)

lemma frame_set_network [simp]: "frame (set_network ad network)"
  by (auto simp: set_network_def Let_def intro!: frame_bind)

lemma frame_send_recover [simp]: "frame (send_recover ad qpn psn)"
  by (auto simp: send_recover_def res_same_def intro!: frame_bind frame_modify)

lemma frame_inv: "frame m \<Longrightarrow> device_inv d \<Longrightarrow> device_inv (snd (m d))"
  by (simp add: frame_def device_inv_same)

text \<open>
  The operations of the device in any order, the handles that \<^const>\<open>alloc_pd\<close> draws being fresh, and the
  control poller at any time.
\<close>

inductive device_step :: "adaptor \<Rightarrow> DeviceInner \<Rightarrow> DeviceInner \<Rightarrow> bool" for ad where
  step_alloc_pd: "dv_pd d \<lparr> pd_handle = rng \<rparr> = None \<Longrightarrow> device_step ad d (snd (alloc_pd rng d))"
| step_dealloc_pd: "device_step ad d (snd (dealloc_pd pd d))"
| step_reg_mr: "device_step ad d (snd (reg_mr ad rng pd addr len pg_size acc_flags d))"
| step_dereg_mr: "device_step ad d (snd (dereg_mr ad mr d))"
| step_create_qp: "device_step ad d (snd (create_qp ad qp d))"
| step_destroy_qp: "device_step ad d (snd (destroy_qp ad q d))"
| step_write: "device_step ad d (snd (dev_write ad now dqpn raddr rkey flags sge0 d))"
| step_read: "device_step ad d (snd (dev_read ad now dqpn raddr rkey flags sge0 d))"
| step_set_network: "device_step ad d (snd (set_network ad network d))"
| step_recover: "device_step ad d (snd (send_recover ad q psn d))"
| step_poll: "device_step ad d (poll_ctrl_thread descs d)"

lemma device_step_inv: "device_step ad d d' \<Longrightarrow> device_inv d \<Longrightarrow> device_inv d'"
  by (induction rule: device_step.induct)
    (auto simp: dev_write_def dev_read_def intro: alloc_pd_inv dealloc_pd_inv reg_mr_inv dereg_mr_inv create_qp_inv
      destroy_qp_inv frame_inv device_inv_same[OF _ res_same_poll])

lemma Device_new_inv: "Device_new pgt_addr table network config = Ok d \<Longrightarrow> device_inv d"
  by (auto simp: Device_new_def result_bind_Inr_iff device_inv_def)

lemma device_reachable_inv:
  assumes "(device_step ad)\<^sup>*\<^sup>* d d'" "device_inv d"
  shows "device_inv d'"
  using assms by (induction rule: rtranclp_induct) (auto intro: device_step_inv)

text \<open>The initialisation is made of these steps when the two handles it draws differ.\<close>

lemma dev_bind_steps:
  assumes "(device_step ad)\<^sup>*\<^sup>* d (snd (m d))" "\<And>a. fst (m d) = Done (Ok a) \<Longrightarrow> (device_step ad)\<^sup>*\<^sup>* (snd (m d)) (snd (f a (snd (m d))))"
  shows "(device_step ad)\<^sup>*\<^sup>* d (snd (dev_bind m f d))"
proof (cases "fst (m d)")
  case (Done r)
  show ?thesis
  proof (cases r)
    case (Inr a)
    then have "dev_bind m f d = f a (snd (m d))"
      using Done by (simp add: dev_bind_def prod.case_eq_if)
    then show ?thesis
      using assms(1) assms(2)[of a] Done Inr by (auto intro: rtranclp_trans)
  qed (use assms(1) Done in \<open>simp add: dev_bind_def prod.case_eq_if\<close>)
qed (use assms(1) in \<open>simp_all add: dev_bind_def prod.case_eq_if\<close>)

lemma init_buf_steps:
  assumes "dv_pd d \<lparr> pd_handle = rng_pd \<rparr> = None"
  shows "(device_step ad)\<^sup>*\<^sup>* d (snd (init_buf ad rng_pd rng_mr S addr n d))"
  unfolding init_buf_def
  by (auto intro!: dev_bind_steps intro: device_step.intros assms r_into_rtranclp
      simp: dev_return_def dev_panic_def split: sum.split panic.split)

lemma dev_bind_pd:
  assumes "dv_pd (snd (m d)) p = dv_pd d p" "\<And>a e. dv_pd e p = dv_pd d p \<Longrightarrow> dv_pd (snd (f a e)) p = dv_pd d p"
  shows "dv_pd (snd (dev_bind m f d)) p = dv_pd d p"
  using assms by (auto simp: dev_bind_def split: prod.splits outcome.splits sum.splits)

lemma reg_mr_pd:
  assumes "p \<noteq> pd"
  shows "dv_pd (snd (reg_mr ad rng pd addr len pg_size acc_flags d)) p = dv_pd d p"
proof -
  have same: "dv_pd e p = dv_pd d p" if "res_same d e" for e
    using that by (simp add: res_same_def)
  note step = frame_bind_prop[where P = "\<lambda>e. dv_pd e p = dv_pd d p", OF _ _ same]
  show ?thesis
    using assms
    by (cases "find_free 0 (dv_mr_table d)"; cases "dv_pd d pd")
      (auto simp: reg_mr_def Let_def pd_update_def dev_fail_def dev_return_def res_same_def[of d]
        intro!: step[OF _ frame_register] step[OF _ frame_ctrl(1)] step[OF _ frame_ctrl_op])
qed

lemma init_buf_pd:
  assumes "p \<noteq> \<lparr> pd_handle = rng_pd \<rparr>"
  shows "dv_pd (snd (init_buf ad rng_pd rng_mr S addr n d)) p = dv_pd d p"
proof -
  have "dv_pd (snd (alloc_pd rng_pd d)) p = dv_pd d p" "fst (alloc_pd rng_pd d) = Done (Ok pd) \<Longrightarrow> pd = \<lparr> pd_handle = rng_pd \<rparr>" for pd
    using assms by (auto simp: alloc_pd_def Let_def dev_return_def dev_fail_def split: if_splits)
  then show ?thesis
    using reg_mr_pd[OF assms]
    by (auto simp: init_buf_def dev_bind_def dev_return_def dev_panic_def split: prod.splits outcome.splits sum.splits panic.splits)
      (metis fst_conv snd_conv)+
qed

text \<open>
  The initialisation is made of these steps when it draws two different handles.
\<close>

lemma device_init_steps:
  assumes "dv_pd d = Map.empty" "fst rng_ack \<noteq> fst rng_tx"
  shows "(device_step ad)\<^sup>*\<^sup>* d (snd (device_init ad rng_ack rng_tx ack_addr tx_addr d))"
proof -
  let ?buf = "\<lambda>buf. init_buf ad (fst rng_ack) (snd rng_ack) RDMA_ACK_BUFFER_SLOT_SIZE buf ACKNOWLEDGE_BUFFER_SIZE"
  have "dv_pd (snd (?buf buf d)) \<lparr> pd_handle = fst rng_tx \<rparr> = None" for buf
    using init_buf_pd[of "\<lparr> pd_handle = fst rng_tx \<rparr>" "fst rng_ack"] assms by simp
  then show ?thesis
    using assms(1) unfolding device_init_def
    by (cases ack_addr; cases tx_addr)
      (auto intro!: dev_bind_steps init_buf_steps intro: step_set_network simp: dev_fail_def dev_return_def dev_get_def)
qed


definition sample_adaptor :: adaptor where
  "sample_adaptor = \<lparr> ad_ctrl_push = (\<lambda>_. True), ad_work_push = (\<lambda>_. True), ad_get_phys_addr = Ok,
     ad_responses = (\<lambda>desc. [\<lparr> hd_common = \<lparr> hc_op_id = 0, hc_opcode = OpQpManagement, hc_is_success = True \<rparr> \<rparr>]) \<rparr>"

definition sample_network :: RdmaDeviceNetworkParam where
  "sample_network = \<lparr> np_gateway = 1, np_netmask = 2, np_ipaddr = 3, np_macaddr = [0, 0, 0, 0, 0, 1] \<rparr>"

definition sample_new_qp :: Qp where
  "sample_new_qp = \<lparr> qp_pd = \<lparr> pd_handle = 7 \<rparr>, qp_qpn = psn_new 3, qp_peer_qpn = psn_new 4, qp_qp_type = Rc,
     qp_rq_acc_flags = 0, qp_pmtu = Mtu1024, qp_dqp_ip = 5, qp_dqp_mac = [0, 0, 0, 0, 0, 2] \<rparr>"

definition sample_device :: DeviceInner where
  "sample_device = \<lparr> dv_pd = Map.empty, dv_mr_table = replicate MR_TABLE_SIZE None, dv_qp_table = Map.empty,
     dv_mr_pgt = sample_pgt [(0, 1024)], dv_pgt_addr = 0, dv_user_op_ctx_map = Map.empty, dv_ctrl_op_ctx_map = Map.empty,
     dv_next_ctrl_op_id = 0, dv_local_network = sample_network, dv_retry_map = RetryMap_new 3 100, dv_ctrl_rb = [], dv_work_rb = [] \<rparr>"

lemma sample_device_new: "Device_new 0 (\<lambda>_. 0) sample_network (RetryConfig_new True 3 100 10) = Ok sample_device"
  by (simp add: Device_new_def sample_pgt_new sample_device_def RetryConfig_new_def)


text \<open>
  The answer to a recovery request: no other operation has a handler, and the card answers
  a request with the opcode of the request.
\<close>

lemma poll_no_recovery:
  assumes "\<And>j ctx. dv_ctrl_op_ctx_map d j = Some ctx \<Longrightarrow> j \<noteq> i \<Longrightarrow> oc_handler ctx = None"
    and "\<And>desc. desc \<in> set descs \<Longrightarrow> hc_op_id (hd_common desc) = i \<Longrightarrow> hc_opcode (hd_common desc) = OpUpdateErrorPsnRecoverPoint"
  shows "dv_qp_table (poll_ctrl_thread descs d) = dv_qp_table d \<and>
    dv_ctrl_op_ctx_map (poll_ctrl_thread descs d) i = dv_ctrl_op_ctx_map d i"
  using assms
proof (induction descs arbitrary: d)
  case (Cons desc descs)
  let ?j = "hc_op_id (hd_common desc)"
  let ?d = "if hc_opcode (hd_common desc) = OpUpdateErrorPsnRecoverPoint then d else handle_ctrl_desc_resp desc d"
  have "dv_qp_table ?d = dv_qp_table d \<and> dv_ctrl_op_ctx_map ?d i = dv_ctrl_op_ctx_map d i \<and>
    (\<forall>j ctx. dv_ctrl_op_ctx_map ?d j = Some ctx \<longrightarrow> j \<noteq> i \<longrightarrow> oc_handler ctx = None)"
  proof (cases "hc_opcode (hd_common desc) = OpUpdateErrorPsnRecoverPoint")
    case False
    then have "?j \<noteq> i"
      using Cons.prems(2)[of desc] by auto
    then show ?thesis
      using False Cons.prems(1)
      by (auto simp: handle_ctrl_desc_resp_def take_handler_def set_result_def set_payload_def finish_def Let_def
          split: option.split sum.split)
  qed (use Cons.prems(1) in simp)
  then show ?case
    using Cons.IH[of ?d] Cons.prems(2) by simp
qed simp

text \<open>
  A queue pair that went out of order is never brought back by the answer of the card to its
  recovery request: when the card answers a request with the opcode of the request, the control poller drops
  the answer, so the status of no queue pair changes and the operation of the request keeps its handler and stays
  running, whatever the card reports.
\<close>

lemma recovery_answer_dropped:
  assumes "send_recover ad qpn psn d = (Done (Ok i), d')"
    and "\<forall>j ctx. dv_ctrl_op_ctx_map d j = Some ctx \<longrightarrow> oc_handler ctx = None"
    and "\<forall>desc \<in> set descs. hc_op_id (hd_common desc) = i \<longrightarrow> hc_opcode (hd_common desc) = OpUpdateErrorPsnRecoverPoint"
  shows "dv_qp_table (poll_ctrl_thread descs d') = dv_qp_table d \<and>
    dv_ctrl_op_ctx_map (poll_ctrl_thread descs d') i = Some (set_handler qpn new_running) \<and>
    UpdateErrorPsnRecoverPoint \<lparr> ep_common = \<lparr> cc_op_id = i \<rparr>, ep_qpn = qpn, ep_recover_psn = psn \<rparr> \<in> set (dv_ctrl_rb d')"
proof -
  have d': "dv_qp_table d' = dv_qp_table d \<and> dv_ctrl_op_ctx_map d' = (dv_ctrl_op_ctx_map d)(i \<mapsto> set_handler qpn new_running) \<and>
    UpdateErrorPsnRecoverPoint \<lparr> ep_common = \<lparr> cc_op_id = i \<rparr>, ep_qpn = qpn, ep_recover_psn = psn \<rparr> \<in> set (dv_ctrl_rb d')"
    using assms(1)
    by (auto simp: send_recover_def send_ctrl_desc_def get_ctrl_op_id_def ctrl_push_def insert_ctrl_ctx_def dev_defs
        split: if_splits)
  then show ?thesis
    using poll_no_recovery[of d' i descs] assms(2,3) by simp
qed

subsection \<open>Sequence numbers stay in range\<close>

text \<open>What each part of an operation keeps, whatever it returns, the operation keeps.\<close>

definition keeps :: "(DeviceInner \<Rightarrow> bool) \<Rightarrow> 'a dev \<Rightarrow> bool" where
  "keeps P m \<longleftrightarrow> (\<forall>d. P d \<longrightarrow> P (snd (m d)))"

lemma keeps_bind: "keeps P m \<Longrightarrow> (\<And>a. keeps P (f a)) \<Longrightarrow> keeps P (dev_bind m f)"
  unfolding keeps_def
  by (auto simp: dev_bind_def split: prod.splits outcome.splits sum.splits)

lemma keeps_modify: "(\<And>d. P d \<Longrightarrow> P (f d)) \<Longrightarrow> keeps P (dev_modify f)"
  by (simp add: keeps_def dev_modify_def)

lemma keeps_simps [simp]:
  "keeps P (dev_return a)" "keeps P (dev_fail e)" "keeps P dev_panic" "keeps P (dev_get g)" "keeps P (dev_result r)"
  by (simp_all add: keeps_def dev_defs)

definition device_typed :: "DeviceInner \<Rightarrow> bool" where
  "device_typed d \<longleftrightarrow>
     (\<forall>q qp. dv_qp_table d q = Some qp \<longrightarrow> psn_ok (qc_sending_psn qp)) \<and>
     list_all (\<lambda>desc. psn_ok (wc_psn (work_common desc))) (dv_work_rb d)"

lemma device_typed_same:
  "device_typed d \<Longrightarrow> dv_qp_table d' = dv_qp_table d \<Longrightarrow> dv_work_rb d' = dv_work_rb d \<Longrightarrow> device_typed d'"
  by (simp add: device_typed_def)

lemma typed_poll: "device_typed d \<Longrightarrow> device_typed (poll_ctrl_thread descs d)"
proof (induction descs arbitrary: d)
  case (Cons desc descs)
  have "device_typed (handle_ctrl_desc_resp desc d)"
    using Cons.prems
    by (auto simp: handle_ctrl_desc_resp_def device_typed_def recover_handler_def Let_def split: option.splits prod.splits)
  then show ?case
    using Cons.IH Cons.prems by simp
qed simp

lemma typed_wait: "keeps device_typed (wait_ctrl ad desc i)"
  unfolding wait_ctrl_def
proof (intro keeps_bind keeps_modify typed_poll)
  show "keeps device_typed (\<lambda>d. case dv_ctrl_op_ctx_map d i of None \<Rightarrow> (WaitsForever, d)
      | Some ctx \<Rightarrow> if oc_status ctx = Running then (WaitsForever, d)
          else dev_bind (dev_result (wait_result ctx)) (\<lambda>r. dev_result (ok_or r SetCtxResultFailed)) d)"
    by (auto simp: keeps_def dev_bind_def dev_result_def split: option.split sum.split)
qed

lemma typed_ctrl [simp]:
  "keeps device_typed get_ctrl_op_id" "keeps device_typed (ctrl_push ad desc)" "keeps device_typed (insert_ctrl_ctx i)"
  "keeps device_typed (do_ctrl_op ad i desc)" "keeps device_typed (send_ctrl_desc ad desc)" "keeps device_typed (wait_ctrl ad desc i)"
  "keeps device_typed (ctrl_op ad what i desc)" "keeps device_typed (modify_pgt g)" "keeps device_typed (phys_addr ad va)"
  "keeps device_typed (pd_update pd f)" "keeps device_typed (pgt_alloc_dev n)"
  by (auto simp: get_ctrl_op_id_def ctrl_push_def insert_ctrl_ctx_def do_ctrl_op_def send_ctrl_desc_def typed_wait ctrl_op_def
      modify_pgt_def phys_addr_def pd_update_def intro!: keeps_bind keeps_modify elim!: device_typed_same)
    (auto simp: keeps_def pgt_alloc_dev_def device_typed_def split: prod.split)

lemma typed_fill_pgt [simp]: "keeps device_typed (fill_pgt ad addr pg_size idxs)"
  by (induction idxs) (auto simp: Let_def intro!: keeps_bind)

lemma typed_qp: "keeps device_typed (create_qp ad qp)" "keeps device_typed (destroy_qp ad q)"
  by (auto simp: create_qp_def destroy_qp_def QpContext_new_def Let_def device_typed_def[of "_\<lparr> dv_qp_table := _ \<rparr>"]
      intro!: keeps_bind keeps_modify) (auto simp: device_typed_def)

lemma typed_resources:
  "keeps device_typed (alloc_pd rng)" "keeps device_typed (dealloc_pd pd)"
  "keeps device_typed (reg_mr ad rng pd addr len pg_size acc_flags)" "keeps device_typed (dereg_mr ad mr)"
  "keeps device_typed (set_network ad network)" "keeps device_typed (send_recover ad q psn)"
  by (auto simp: alloc_pd_def dealloc_pd_def reg_mr_def register_page_table_def dereg_mr_def deregister_page_table_def
      set_network_def send_recover_def Let_def intro!: keeps_bind keeps_modify elim!: device_typed_same)

lemma work_common_build:
  assumes "build b = Ok desc" "bu_common b = Some common"
  shows "work_common desc = common"
  using assms
  by (cases "bu_type b"; cases "bu_seg_list b = []"; cases "bu_imm b")
    (auto simp: build_def build_write_def pop_def Let_def ToCardWorkRbDescWrite.defs ToCardWorkRbDescWriteWithImm.defs
      split: prod.splits)

lemma take_numbers_cases:
  obtains (bad) e where "take_numbers dqpn raddr rkey flags sge0 for_read d = (Done (Err e), d)"
  | (good) common key qp qp' where "take_numbers dqpn raddr rkey flags sge0 for_read d =
        (Done (Ok (common, key)), d\<lparr> dv_qp_table := (dv_qp_table d)(dqpn \<mapsto> qp') \<rparr>)"
      "dv_qp_table d dqpn = Some qp" "wc_psn common = qc_sending_psn qp" "psn_ok (qc_sending_psn qp')"
  by (cases "dv_qp_table d dqpn") (auto simp: take_numbers_def next_msn_def dev_fail_def dev_return_def Let_def)

lemma typed_write_or_read: "keeps device_typed (write_or_read ad now dqpn raddr rkey flags sge0 for_read)"
proof -
  have push: "device_typed (snd (dev_bind (dev_send_work_desc ad desc) f d))"
    if "device_typed d" "psn_ok (wc_psn (work_common desc))" "\<And>a. keeps device_typed (f a)" for desc d and f :: "unit \<Rightarrow> op_key dev"
  proof -
    have "device_typed (d\<lparr> dv_work_rb := dv_work_rb d @ [desc] \<rparr>)"
      using that(1,2) by (simp add: device_typed_def)
    then show ?thesis
      using that by (auto simp: dev_send_work_desc_def dev_fail_def keeps_def)
  qed
  have rest: "keeps device_typed (dev_bind (dev_get g) (\<lambda>old. dev_bind (dev_modify (\<lambda>d. d\<lparr> dv_user_op_ctx_map := m d \<rparr>)) (\<lambda>_.
      if c old then dev_fail e else dev_bind (dev_modify (\<lambda>d. d\<lparr> dv_retry_map := r d \<rparr>)) (\<lambda>_. dev_return k))))"
    for g m c e r and k :: op_key
    by (auto intro!: keeps_bind keeps_modify elim!: device_typed_same)
  have "device_typed (snd (write_or_read ad now dqpn raddr rkey flags sge0 for_read d))" if typed: "device_typed d" for d
  proof (cases rule: take_numbers_cases[of dqpn raddr rkey flags sge0 for_read d])
    case (good common key qp qp')
    let ?d = "d\<lparr> dv_qp_table := (dv_qp_table d)(dqpn \<mapsto> qp') \<rparr>"
    let ?b = "build (with_sge sge0 (with_common common (Builder_new (if \<not> for_read then CoWrite else CoRead))))"
    have d: "device_typed ?d" and psn: "psn_ok (wc_psn common)"
      using typed good by (auto simp: device_typed_def)
    show ?thesis
    proof (cases ?b)
      case (Inr desc)
      then have "work_common desc = common"
        by (rule work_common_build) (simp add: with_sge_def with_common_def Builder_new_def)
      then show ?thesis
        using psn Inr unfolding write_or_read_def dev_bind_def[of "take_numbers _ _ _ _ _ _"] good(1)
        by (auto intro!: push[OF d] rest)
    qed (use d in \<open>simp add: write_or_read_def dev_bind_def[of "take_numbers _ _ _ _ _ _"] good(1) dev_fail_def\<close>)
  qed (use typed in \<open>simp add: write_or_read_def dev_bind_def\<close>)
  then show ?thesis
    by (simp add: keeps_def)
qed

lemma device_step_typed: "device_step ad d d' \<Longrightarrow> device_typed d \<Longrightarrow> device_typed d'"
  by (induction rule: device_step.induct)
    (auto simp: dev_write_def dev_read_def typed_poll intro: typed_resources[unfolded keeps_def, rule_format]
      typed_qp[unfolded keeps_def, rule_format] typed_write_or_read[unfolded keeps_def, rule_format])

text \<open>
  In every state that operations of the device reach from a new one, the number of the next packet of each queue
  pair, and the packet number in each work descriptor handed to the card, is a number of
  24 bits, as the fields of the card require.
\<close>

lemma device_psn_typed:
  assumes "Device_new pgt_addr table network config = Ok d" "(device_step ad)\<^sup>*\<^sup>* d d'"
  shows "device_typed d'"
proof -
  have "device_typed d"
    using assms(1) by (auto simp: Device_new_def result_bind_Inr_iff device_typed_def)
  with assms(2) show ?thesis
    by (induction rule: rtranclp_induct) (auto intro: device_step_typed)
qed

end
