(* ===== verification/Work_Poller.thy ===== *)
theory Work_Poller
  imports Checker
begin

text \<open>
  The thread of \<^verbatim>\<open>src/work_poller.rs\<close>: it takes descriptors from the ring to the host and passes
  them to the packet checker or to the network interface. What the ring returns, and
  whether the receivers of the two channels are still there, are inputs; the channels are the lists of what
  was sent.
\<close>

subsection \<open>Taking a descriptor from the ring\<close>

text \<open>
  \<^verbatim>\<open>pop\<close> of the ring to the host over the slots that \<^verbatim>\<open>next\<close> of the reader returns: the bytes of a slot,
  and what further reads of it see while \<^const>\<open>work_read\<close> waits for the status. The second
  component of the result is what was not read. \<^const>\<open>None\<close> means that the input ends
  before \<^verbatim>\<open>pop\<close> returns.
\<close>

type_synonym slot_read = "(DeviceError, u8 list \<times> (u8 list \<times> nat) list) result"

fun pop_loop ::
  "(ToHostWorkRbDescError, ToHostWorkRbDesc) result \<Rightarrow> slot_read list \<Rightarrow>
   (panic, (DeviceError, ToHostWorkRbDesc) result \<times> slot_read list) result option" where
  "pop_loop (Inr desc) slots = Some (Ok (Ok desc, slots))"
| "pop_loop (Inl (DescDeviceError e)) slots = Some (Ok (Err e, slots))"
| "pop_loop (Inl (Incomplete incomplete_desc)) [] = None"
| "pop_loop (Inl (Incomplete incomplete_desc)) (Inl e # slots) = Some (Ok (Err e, slots))"
| "pop_loop (Inl (Incomplete incomplete_desc)) (Inr (next_mem, later) # slots) =
     (case incomplete_read incomplete_desc next_mem of
        Inl p \<Rightarrow> Some (Err p)
      | Inr read_res \<Rightarrow> pop_loop read_res slots)"

fun work_pop :: "slot_read list \<Rightarrow> (panic, (DeviceError, ToHostWorkRbDesc) result \<times> slot_read list) result option" where
  "work_pop [] = None"
| "work_pop (Inl e # slots) = Some (Ok (Err e, slots))"
| "work_pop (Inr (mem, later) # slots) =
     (case work_read mem later of
        None \<Rightarrow> None
      | Some (Inl p) \<Rightarrow> Some (Err p)
      | Some (Inr (read_res, _)) \<Rightarrow> pop_loop read_res slots)"

subsection \<open>The thread\<close>

record NicRecvNotification =
  nn_buf :: Slot
  nn_len :: u32

record WorkDescPollerContext =
  wp_checker_channel :: "PacketCheckEvent list"
  wp_nic_channel :: "NicRecvNotification list"
  wp_checker_open :: bool
  wp_nic_open :: bool

definition handle_work_desc_to_checker ::
  "PacketCheckEvent \<Rightarrow> WorkDescPollerContext \<Rightarrow> (Error, unit) result \<times> WorkDescPollerContext" where
  "handle_work_desc_to_checker msg self =
     (if wp_checker_open self then (Ok (), self\<lparr> wp_checker_channel := wp_checker_channel self @ [msg] \<rparr>)
      else (Err (PipeBroken ''work polling thread to checker''), self))"

text \<open>\<^verbatim>\<open>todo!()\<close>\<close>

definition handle_work_desc_write_with_imm ::
  "ToHostWorkRbDescWriteWithImm \<Rightarrow> WorkDescPollerContext \<Rightarrow> (panic, (Error, unit) result \<times> WorkDescPollerContext) result" where
  "handle_work_desc_write_with_imm desc self = Err Panic"

definition handle_work_desc_raw ::
  "ToHostWorkRbDescRaw \<Rightarrow> WorkDescPollerContext \<Rightarrow> (Error, unit) result \<times> WorkDescPollerContext" where
  "handle_work_desc_raw desc self =
     (let slot = \<lparr> slot_ptr = hx_addr desc, slot_key = hx_key desc \<rparr>
      in if wp_nic_open self then
           (Ok (), self\<lparr> wp_nic_channel := wp_nic_channel self @ [\<lparr> nn_buf = slot, nn_len = hx_len desc \<rparr>] \<rparr>)
         else (Err (PipeBroken ''work polling thread to nic thread''), self))"

definition handle_work_desc ::
  "ToHostWorkRbDesc \<Rightarrow> WorkDescPollerContext \<Rightarrow> (panic, (Error, unit) result \<times> WorkDescPollerContext) result" where
  "handle_work_desc desc ctx =
     (case desc of
        HRead desc \<Rightarrow> Ok (handle_work_desc_to_checker (EvReadReq desc) ctx)
      | HWriteOrReadResp desc \<Rightarrow> Ok (handle_work_desc_to_checker (EvWrite desc) ctx)
      | HWriteWithImm desc \<Rightarrow> handle_work_desc_write_with_imm desc ctx
      | HAck desc \<Rightarrow> Ok (handle_work_desc_to_checker (EvAck desc) ctx)
      | HRaw desc \<Rightarrow> Ok (handle_work_desc_raw desc ctx))"

text \<open>The loop over what the ring returns; the flag tells whether the thread still runs at the end.\<close>

fun poll_working_thread ::
  "(DeviceError, ToHostWorkRbDesc) result list \<Rightarrow> WorkDescPollerContext \<Rightarrow> (panic, bool \<times> WorkDescPollerContext) result" where
  "poll_working_thread [] ctx = Ok (True, ctx)"
| "poll_working_thread (Inl (ParseDesc e) # pops) ctx = poll_working_thread pops ctx"
| "poll_working_thread (Inl e # pops) ctx = Ok (False, ctx)"
| "poll_working_thread (Inr desc # pops) ctx =
     (if work_status desc \<noteq> StNormal then poll_working_thread pops ctx
      else result_bind (handle_work_desc desc ctx) (\<lambda>(res, ctx).
        case res of Inl reason \<Rightarrow> Ok (False, ctx) | Inr _ \<Rightarrow> poll_working_thread pops ctx))"

subsection \<open>What is delivered\<close>

text \<open>The descriptors that pass the status check, up to the first error of the ring.\<close>

fun good_descs :: "(DeviceError, ToHostWorkRbDesc) result list \<Rightarrow> ToHostWorkRbDesc list" where
  "good_descs [] = []"
| "good_descs (Inl (ParseDesc e) # pops) = good_descs pops"
| "good_descs (Inl e # pops) = []"
| "good_descs (Inr desc # pops) = (if work_status desc \<noteq> StNormal then good_descs pops else desc # good_descs pops)"

fun event_of :: "ToHostWorkRbDesc \<Rightarrow> PacketCheckEvent option" where
  "event_of (HRead d) = Some (EvReadReq d)"
| "event_of (HWriteOrReadResp d) = Some (EvWrite d)"
| "event_of (HAck d) = Some (EvAck d)"
| "event_of _ = None"

fun notification_of :: "ToHostWorkRbDesc \<Rightarrow> NicRecvNotification option" where
  "notification_of (HRaw d) = Some \<lparr> nn_buf = \<lparr> slot_ptr = hx_addr d, slot_key = hx_key d \<rparr>, nn_len = hx_len d \<rparr>"
| "notification_of _ = None"

fun is_imm :: "ToHostWorkRbDesc \<Rightarrow> bool" where
  "is_imm (HWriteWithImm d) = True"
| "is_imm _ = False"

definition deliver :: "ToHostWorkRbDesc list \<Rightarrow> WorkDescPollerContext \<Rightarrow> WorkDescPollerContext" where
  "deliver descs ctx =
     ctx\<lparr> wp_checker_channel := wp_checker_channel ctx @ List.map_filter event_of descs,
          wp_nic_channel := wp_nic_channel ctx @ List.map_filter notification_of descs \<rparr>"

lemma deliver_simps [simp]:
  "deliver [] ctx = ctx" "deliver descs (deliver [desc] ctx) = deliver (desc # descs) ctx"
  "wp_checker_open (deliver descs ctx) = wp_checker_open ctx" "wp_nic_open (deliver descs ctx) = wp_nic_open ctx"
  by (auto simp: deliver_def map_filter_simps split: option.split)

lemma handle_work_desc_Ok:
  assumes "wp_checker_open ctx" "wp_nic_open ctx"
  shows "handle_work_desc desc ctx = (if is_imm desc then Err Panic else Ok (Ok (), deliver [desc] ctx))"
  using assms
  by (cases desc) (simp_all add: handle_work_desc_def handle_work_desc_to_checker_def handle_work_desc_raw_def
      handle_work_desc_write_with_imm_def deliver_def map_filter_simps Let_def)

lemma poll_delivers:
  assumes "wp_checker_open ctx" "wp_nic_open ctx"
  shows "if list_ex is_imm (good_descs pops) then poll_working_thread pops ctx = Err Panic
    else \<exists>running. poll_working_thread pops ctx = Ok (running, deliver (good_descs pops) ctx)"
  using assms
proof (induction pops ctx rule: poll_working_thread.induct)
  case (4 desc pops ctx)
  show ?case
    using 4(1) 4(2)[of "Ok ()" "()" "deliver [desc] ctx"] 4(3,4) by (auto simp: handle_work_desc_Ok split: if_splits)
qed auto

subsection \<open>A pop reads at most two slots\<close>

text \<open>The slot shows a status, at once or before the wait gives up.\<close>

definition slot_ready :: "u8 list \<Rightarrow> (u8 list \<times> nat) list \<Rightarrow> bool" where
  "slot_ready mem later \<longleftrightarrow>
     length mem = 32 \<and> list_all (\<lambda>(src, _). length src = 32) later \<and>
     (req_status mem \<noteq> 0 \<or> list_ex (\<lambda>(src, elapsed). 1000 < elapsed \<or> req_status src \<noteq> 0) later)"

lemma status_loop_ends:
  assumes "raw \<noteq> 0 \<or> list_ex (\<lambda>(src, elapsed). 1000 < elapsed \<or> req_status src \<noteq> 0) later"
    and "length src = 32" "list_all (\<lambda>(src, _). length src = 32) later"
  shows "\<exists>raw' src'. status_loop raw src later = Some (raw', src') \<and> length src' = 32"
  using assms
  by (induction raw src later rule: status_loop.induct) (auto simp: Let_def)

lemma incomplete_read_Ok:
  assumes "length mem = 32" "in_parsed inc = HRead r \<or> in_parsed inc = HRaw w"
  shows "\<exists>desc. incomplete_read inc mem = Ok (Ok desc)"
  using assms by (auto simp: incomplete_read_def read_second_reth_def fld_def bit_range_def)

lemma work_decode_incomplete:
  assumes "work_decode expected_psn raw src = Ok (Err (Incomplete inc))"
  shows "\<exists>r w. in_parsed inc = HRead r \<or> in_parsed inc = HRaw w"
  using assms
  by (auto simp: work_decode_def Let_def result_bind_Inr_iff split: option.splits if_splits prod.splits sum.splits)

lemma work_read_ends:
  assumes "slot_ready mem later"
  shows "\<exists>r. work_read mem later = Some r \<and>
    (\<forall>inc mem'. r = Ok (Err (Incomplete inc), mem') \<longrightarrow> (\<exists>d w. in_parsed inc = HRead d \<or> in_parsed inc = HRaw w))"
proof -
  obtain raw src where loop: "status_loop (req_status mem) mem later = Some (raw, src)" "length src = 32"
    using status_loop_ends[of "req_status mem" later mem] assms by (auto simp: slot_ready_def)
  then show ?thesis
    using assms work_decode_incomplete by (fastforce simp: work_read_def slot_ready_def Let_def result_bind_Inr_iff)
qed

text \<open>
  C34. Taking a work descriptor from the ring ends: once the first slot shows a status, or the wait for it has timed
  out, and a second slot is there, \<^verbatim>\<open>pop\<close> returns, although its loop has no bound of its own: it takes one slot, or
  two when the descriptor has a second part, and gives a descriptor or an error; only the
  decoder of a first slot can panic.
\<close>

theorem work_pop_ends:
  assumes "slot_ready mem later" "length mem' = 32"
  shows "\<exists>r. work_pop (Ok (mem, later) # Ok (mem', later') # slots) = Some r \<and>
    (r = Err Panic \<and> work_read mem later = Some (Err Panic) \<or>
     (\<exists>res n. n \<in> {1, 2} \<and> r = Ok (res, drop n (Ok (mem, later) # Ok (mem', later') # slots))))"
proof -
  obtain r where r: "work_read mem later = Some r"
    "\<And>inc m. r = Ok (Err (Incomplete inc), m) \<Longrightarrow> \<exists>d w. in_parsed inc = HRead d \<or> in_parsed inc = HRaw w"
    using work_read_ends[OF assms(1)] by blast
  show ?thesis
  proof (cases r)
    case (Inl p)
    then show ?thesis
      using r(1) by (cases p) simp
  next
    case (Inr x)
    obtain res m where x: "x = (res, m)"
      by (cases x)
    show ?thesis
    proof (cases res)
      case (Inl e)
      then show ?thesis
        using r incomplete_read_Ok[OF assms(2)] Inr x by (cases e) fastforce+
    qed (use r(1) Inr x in auto)
  qed
qed

theorem work_pop_ends_witness:
  "\<exists>r. work_pop [Ok (replicate 32 0, [(replicate 32 0, 7), (replicate 32 0, 1001)]), Ok (replicate 32 0, [])] = Some r"
proof -
  have "slot_ready (replicate 32 0) [(replicate 32 0, 7), (replicate 32 0, 1001)]"
    by (simp add: slot_ready_def)
  from work_pop_ends[OF this, of "replicate 32 0" "[]" "[]"] show ?thesis
    by auto
qed

subsection \<open>From the report of the card to the packet checker\<close>

text \<open>The loop of the thread, \<open>n\<close> times, with the descriptors taken from the ring.\<close>

fun pop_many ::
  "nat \<Rightarrow> slot_read list \<Rightarrow> (panic, (DeviceError, ToHostWorkRbDesc) result list \<times> slot_read list) result option" where
  "pop_many 0 slots = Some (Ok ([], slots))"
| "pop_many (Suc n) slots =
     (case work_pop slots of
        None \<Rightarrow> None
      | Some (Inl p) \<Rightarrow> Some (Err p)
      | Some (Inr (r, slots)) \<Rightarrow>
          (case pop_many n slots of
             None \<Rightarrow> None
           | Some (Inl p) \<Rightarrow> Some (Err p)
           | Some (Inr (rs, slots)) \<Rightarrow> Some (Ok (r # rs, slots))))"

text \<open>A slot in which the card reports the packet \<open>d\<close>.\<close>

definition reports :: "slot_read \<Rightarrow> ToHostWorkRbDescWriteOrReadResp \<Rightarrow> bool" where
  "reports slot d \<longleftrightarrow>
     (\<exists>src later opcode. slot = Ok (src, later) \<and> length src = 32 \<and> report_wf opcode d \<and>
        list_all (\<lambda>(f, v). field_holds src f v) (report_fields opcode d))"

lemma work_pop_report:
  assumes "reports slot d"
  shows "work_pop (slot # slots) = Some (Ok (Ok (HWriteOrReadResp d), slots))"
proof -
  obtain src later opcode where s: "slot = Ok (src, later)" "length src = 32" "report_wf opcode d"
    "list_all (\<lambda>(f, v). field_holds src f v) (report_fields opcode d)"
    using assms by (auto simp: reports_def)
  from work_read_of_report[OF s(2-4), of later] show ?thesis
    by (auto simp: s(1))
qed

lemma pop_many_reports:
  assumes "list_all2 reports slots ds"
  shows "pop_many (length ds) (slots @ rest) = Some (Ok (map (\<lambda>d. Ok (HWriteOrReadResp d)) ds, rest))"
  using assms by (induction rule: list_all2_induct) (simp_all add: work_pop_report)

lemma report_exists:
  assumes "report_wf opcode d"
  shows "\<exists>slot. reports slot d"
proof -
  have "layout_ok (length (replicate 32 (0 :: u8))) (map fst (report_fields opcode d))"
    by (simp add: report_fields_def at_byte_def disjoint_def)
  from set_fields_spec[OF this] obtain src where "length src = 32" "list_all (\<lambda>(f, v). field_holds src f v) (report_fields opcode d)"
    by auto
  with assms have "reports (Ok (src, [])) d"
    by (auto simp: reports_def)
  then show ?thesis ..
qed

end
