(* ===== verification/Soft_Packet.thy ===== *)
theory Soft_Packet
  imports Host_Descriptors
begin

unbundle bit_operations_syntax

text \<open>
  The packets of the software card: the headers of \<^verbatim>\<open>src/device/software/packet.rs\<close>, the messages and
  payloads of \<^verbatim>\<open>src/device/software/types.rs\<close>, and the packet processor of
  \<^verbatim>\<open>src/device/software/packet_processor.rs\<close> with the code of \<^verbatim>\<open>net_agent/udp_agent.rs\<close> around the sockets.

  A header that the code lays over a buffer by \<^verbatim>\<open>transmute\<close> is a record of its bytes with conversions from and
  to bytes. A payload is a list of addresses and lengths in the memory of the process. \<^const>\<open>None\<close> stands for
  a read or write through a raw pointer that leaves its buffer.
\<close>

subsection \<open>Memory and byte order\<close>

type_synonym memory = "usize \<Rightarrow> u8"

definition read_mem :: "memory \<Rightarrow> usize \<Rightarrow> nat \<Rightarrow> u8 list" where
  "read_mem mem a n = map (\<lambda>i. mem (a + of_nat i)) [0..<n]"

lemma length_read_mem [simp]: "length (read_mem mem a n) = n"
  by (simp add: read_mem_def)

definition write_mem :: "usize \<Rightarrow> u8 list \<Rightarrow> memory \<Rightarrow> memory" where
  "write_mem a bs mem = (\<lambda>x. if unat (x - a) < length bs then bs ! unat (x - a) else mem x)"

text \<open>\<^verbatim>\<open>to_be_bytes\<close> and \<^verbatim>\<open>from_be_bytes\<close> of the integer types, \<open>n\<close> the number of bytes.\<close>

fun le_word :: "u8 list \<Rightarrow> 'a::len word" where
  "le_word [] = 0"
| "le_word (b # bs) = ucast b OR push_bit 8 (le_word bs)"

definition from_be_bytes :: "u8 list \<Rightarrow> 'a::len word" where
  "from_be_bytes bs = le_word (rev bs)"

definition to_be_bytes :: "nat \<Rightarrow> 'a::len word \<Rightarrow> u8 list" where
  "to_be_bytes n w = rev (map (\<lambda>i. ucast (drop_bit (8 * i) w)) [0..<n])"

subsection \<open>Constants\<close>

definition ICRC_SIZE_soft :: nat where "ICRC_SIZE_soft = 4"
definition IPV4_DEFAULT_VERSION_AND_HEADER_LENGTH :: u8 where "IPV4_DEFAULT_VERSION_AND_HEADER_LENGTH = 0x45"
definition IPV4_DEFAULT_DSCP_AND_ECN :: u8 where "IPV4_DEFAULT_DSCP_AND_ECN = 0"
definition IPV4_PROTOCOL_UDP :: u8 where "IPV4_PROTOCOL_UDP = 0x11"
definition IPV4_DEFAULT_TTL :: u8 where "IPV4_DEFAULT_TTL = 64"
definition RDMA_PAYLOAD_ALIGNMENT :: usize where "RDMA_PAYLOAD_ALIGNMENT = 4"
definition BTH_OPCODE_MASK :: u8 where "BTH_OPCODE_MASK = 0x1F"
definition BTH_TRANSACTION_TYPE_MASK :: u8 where "BTH_TRANSACTION_TYPE_MASK = 0xE0"
definition BTH_TRANSACTION_TYPE_SHIFT :: nat where "BTH_TRANSACTION_TYPE_SHIFT = 5"
definition BTH_DESTINATION_QPN_MASK :: u32 where "BTH_DESTINATION_QPN_MASK = 0x00FFFFFF"
definition BTH_FLAGS_SOLICITED_MASK :: u8 where "BTH_FLAGS_SOLICITED_MASK = 0x80"
definition BTH_FLAGS_PAD_CNT_MASK :: u8 where "BTH_FLAGS_PAD_CNT_MASK = 0x60"
definition BTH_FLAGS_PAD_CNT_SHIFT :: nat where "BTH_FLAGS_PAD_CNT_SHIFT = 5"
definition BTH_ACK_REQ_MASK :: u8 where "BTH_ACK_REQ_MASK = 0x80"
definition BTH_PSN_MASK :: u32 where "BTH_PSN_MASK = 0x00FFFFFF"
definition MAX_AETH_CODE :: u8 where "MAX_AETH_CODE = 4"
definition AETH_CODE_MASK :: u8 where "AETH_CODE_MASK = 0x60"
definition AETH_CODE_SHIFT :: nat where "AETH_CODE_SHIFT = 5"
definition AETH_VALUE_MASK :: u8 where "AETH_VALUE_MASK = 0x1F"
definition AETH_MSN_MASK :: u32 where "AETH_MSN_MASK = 0x00FFFFFF"

lemmas mask_defs = BTH_OPCODE_MASK_def BTH_TRANSACTION_TYPE_MASK_def BTH_TRANSACTION_TYPE_SHIFT_def
  BTH_DESTINATION_QPN_MASK_def BTH_FLAGS_SOLICITED_MASK_def BTH_FLAGS_PAD_CNT_MASK_def BTH_FLAGS_PAD_CNT_SHIFT_def
  BTH_ACK_REQ_MASK_def BTH_PSN_MASK_def MAX_AETH_CODE_def AETH_CODE_MASK_def AETH_CODE_SHIFT_def AETH_VALUE_MASK_def AETH_MSN_MASK_def

subsection \<open>Messages\<close>

datatype soft_Qpn = SQpn (sqpn_get: u32)
datatype soft_Key = SKey (skey_get: u32)
datatype PKey = PKey (pkey_get: u16)

record SGListElement =
  el_data :: usize
  el_len :: usize

record PayloadInfo =
  py_sg_list :: "SGListElement list"
  py_total_len :: usize

definition PayloadInfo_new :: PayloadInfo where
  "PayloadInfo_new = \<lparr> py_sg_list = [], py_total_len = 0 \<rparr>"

definition new_with_data :: "usize \<Rightarrow> usize \<Rightarrow> PayloadInfo" where
  "new_with_data data len = \<lparr> py_sg_list = [\<lparr> el_data = data, el_len = len \<rparr>], py_total_len = len \<rparr>"

definition get_pad_cnt :: "PayloadInfo \<Rightarrow> usize" where
  "get_pad_cnt self =
     (let pad_cnt = RDMA_PAYLOAD_ALIGNMENT - py_total_len self mod RDMA_PAYLOAD_ALIGNMENT
      in if pad_cnt = RDMA_PAYLOAD_ALIGNMENT then 0 else pad_cnt)"

definition with_pad_length :: "PayloadInfo \<Rightarrow> usize" where
  "with_pad_length self = py_total_len self + get_pad_cnt self"

definition payload_add :: "usize \<Rightarrow> usize \<Rightarrow> PayloadInfo \<Rightarrow> PayloadInfo" where
  "payload_add data len self =
     self\<lparr> py_sg_list := py_sg_list self @ [\<lparr> el_data = data, el_len = len \<rparr>], py_total_len := py_total_len self + len \<rparr>"

text \<open>\<^verbatim>\<open>copy_to\<close> into memory, element by element.\<close>

fun copy_elems :: "SGListElement list \<Rightarrow> usize \<Rightarrow> memory \<Rightarrow> memory" where
  "copy_elems [] dst mem = mem"
| "copy_elems (element # sg_list) dst mem =
     copy_elems sg_list (dst + el_len element)
       (write_mem dst (read_mem mem (el_data element) (unat (el_len element))) mem)"

definition copy_to :: "PayloadInfo \<Rightarrow> usize \<Rightarrow> memory \<Rightarrow> memory" where
  "copy_to self dst mem = copy_elems (py_sg_list self) dst mem"

text \<open>What \<^verbatim>\<open>copy_to\<close> writes when the target is another buffer.\<close>

definition payload_bytes :: "memory \<Rightarrow> PayloadInfo \<Rightarrow> u8 list" where
  "payload_bytes mem self = concat (map (\<lambda>e. read_mem mem (el_data e) (unat (el_len e))) (py_sg_list self))"

definition direct_data_ptr :: "memory \<Rightarrow> bool \<Rightarrow> PayloadInfo \<Rightarrow> (panic, u8 list) result option" where
  "direct_data_ptr mem skip_eth self =
     (case py_sg_list self of
        [] \<Rightarrow> None
      | first # _ \<Rightarrow>
          (let data = read_mem mem (el_data first) (unat (el_len first))
           in Some (if skip_eth then (if length data < 14 then Err Panic else Ok (drop 14 data)) else Ok data)))"

record RethHeader =
  rh_va :: u64
  rh_rkey :: soft_Key
  rh_len :: u32

record RdmaMessageMetaCommon =
  mc_tran_type :: ToHostWorkRbDescTransType
  mc_opcode :: ToHostWorkRbDescOpcode
  mc_solicited :: bool
  mc_pkey :: PKey
  mc_dqpn :: soft_Qpn
  mc_ack_req :: bool
  mc_psn :: Psn

record RdmaGeneralMeta =
  gm_common_meta :: RdmaMessageMetaCommon
  gm_reth :: RethHeader
  gm_imm :: "u32 option"
  gm_secondary_reth :: "RethHeader option"

record AethHeader =
  ah_common_meta :: RdmaMessageMetaCommon
  ah_aeth_code :: ToHostWorkRbDescAethCode
  ah_aeth_value :: u8
  ah_msn :: u32

datatype Metadata = General RdmaGeneralMeta | AcknowledgeMeta AethHeader

fun meta_common :: "Metadata \<Rightarrow> RdmaMessageMetaCommon" where
  "meta_common (General header) = gm_common_meta header"
| "meta_common (AcknowledgeMeta header) = ah_common_meta header"

definition meta_get_opcode :: "Metadata \<Rightarrow> ToHostWorkRbDescOpcode" where
  "meta_get_opcode self = (case self of General header \<Rightarrow> mc_opcode (gm_common_meta header)
     | AcknowledgeMeta header \<Rightarrow> mc_opcode (ah_common_meta header))"

record RdmaMessage =
  ms_meta_data :: Metadata
  ms_payload :: PayloadInfo

definition is_read_request :: "RdmaGeneralMeta \<Rightarrow> bool" where
  "is_read_request self \<longleftrightarrow> mc_opcode (gm_common_meta self) = RdmaReadRequest"

definition has_payload :: "RdmaGeneralMeta \<Rightarrow> bool" where
  "has_payload self \<longleftrightarrow> mc_opcode (gm_common_meta self) \<in>
     {RdmaWriteFirst, RdmaWriteMiddle, RdmaWriteLast, RdmaWriteLastWithImmediate, RdmaWriteOnly, RdmaWriteOnlyWithImmediate,
      RdmaReadResponseFirst, RdmaReadResponseMiddle, RdmaReadResponseLast, RdmaReadResponseOnly}"

definition needed_permissions :: "RdmaGeneralMeta \<Rightarrow> MemAccessTypeFlag" where
  "needed_permissions self =
     (if has_payload self then IbvAccessRemoteWrite
      else if is_read_request self then IbvAccessRemoteRead else IbvAccessNoFlags)"

datatype PacketError =
    InvalidOpcode
  | FailedToConvertTransType
  | FailedToConvertRdmaOpcode
  | FailedToConvertAethCode
  | InvalidMetadataType

subsection \<open>Base transport header\<close>

record BTH =
  bth_tran_type_and_opcode :: u8
  bth_flags :: u8
  bth_pkey :: "u8 list"
  bth_destination_qpn :: "u8 list"
  bth_psn :: "u8 list"

definition BTH_from_bytes :: "u8 list \<Rightarrow> BTH" where
  "BTH_from_bytes bytes =
     \<lparr> bth_tran_type_and_opcode = bytes ! 0, bth_flags = bytes ! 1, bth_pkey = take 2 (drop 2 bytes),
       bth_destination_qpn = take 4 (drop 4 bytes), bth_psn = take 4 (drop 8 bytes) \<rparr>"

definition BTH_bytes :: "BTH \<Rightarrow> u8 list" where
  "BTH_bytes self = [bth_tran_type_and_opcode self, bth_flags self] @ bth_pkey self @ bth_destination_qpn self @ bth_psn self"

definition get_transaction_type :: "BTH \<Rightarrow> u8" where
  "get_transaction_type self =
     drop_bit BTH_TRANSACTION_TYPE_SHIFT (bth_tran_type_and_opcode self AND BTH_TRANSACTION_TYPE_MASK)"

definition bth_get_opcode :: "BTH \<Rightarrow> u8" where
  "bth_get_opcode self = bth_tran_type_and_opcode self AND BTH_OPCODE_MASK"

definition get_solicited :: "BTH \<Rightarrow> bool" where
  "get_solicited self \<longleftrightarrow> bth_flags self AND BTH_FLAGS_SOLICITED_MASK \<noteq> 0"

definition bth_get_pad_cnt :: "BTH \<Rightarrow> u8" where
  "bth_get_pad_cnt self = drop_bit BTH_FLAGS_PAD_CNT_SHIFT (bth_flags self AND BTH_FLAGS_PAD_CNT_MASK)"

definition get_packet_real_length :: "usize \<Rightarrow> BTH \<Rightarrow> usize" where
  "get_packet_real_length payload_length self = payload_length - ucast (bth_get_pad_cnt self)"

definition get_pkey :: "BTH \<Rightarrow> u16" where
  "get_pkey self = from_be_bytes (bth_pkey self)"

definition get_destination_qpn :: "BTH \<Rightarrow> u32" where
  "get_destination_qpn self =
     from_be_bytes [0, bth_destination_qpn self ! 1, bth_destination_qpn self ! 2, bth_destination_qpn self ! 3]"

definition get_ack_req :: "BTH \<Rightarrow> bool" where
  "get_ack_req self \<longleftrightarrow> bth_psn self ! 0 AND BTH_ACK_REQ_MASK \<noteq> 0"

definition bth_get_psn :: "BTH \<Rightarrow> u32" where
  "bth_get_psn self = from_be_bytes [0, bth_psn self ! 1, bth_psn self ! 2, bth_psn self ! 3]"

definition set_opcode_and_type :: "ToHostWorkRbDescOpcode \<Rightarrow> ToHostWorkRbDescTransType \<Rightarrow> BTH \<Rightarrow> BTH" where
  "set_opcode_and_type opcode tran_type self =
     self\<lparr> bth_tran_type_and_opcode :=
       push_bit BTH_TRANSACTION_TYPE_SHIFT (ToHostWorkRbDescTransType_discr tran_type) OR ToHostWorkRbDescOpcode_discr opcode \<rparr>"

definition set_flags_solicited :: "bool \<Rightarrow> BTH \<Rightarrow> BTH" where
  "set_flags_solicited is_solicited self =
     (if is_solicited then self\<lparr> bth_flags := bth_flags self OR BTH_FLAGS_SOLICITED_MASK \<rparr>
      else self\<lparr> bth_flags := bth_flags self AND NOT BTH_FLAGS_SOLICITED_MASK \<rparr>)"

definition set_pad_cnt :: "usize \<Rightarrow> BTH \<Rightarrow> BTH" where
  "set_pad_cnt pad_cnt self =
     self\<lparr> bth_flags := (bth_flags self AND NOT BTH_FLAGS_PAD_CNT_MASK) OR push_bit BTH_FLAGS_PAD_CNT_SHIFT (ucast pad_cnt) \<rparr>"

definition set_pkey :: "u16 \<Rightarrow> BTH \<Rightarrow> BTH" where
  "set_pkey pkey self = self\<lparr> bth_pkey := to_be_bytes 2 pkey \<rparr>"

definition set_destination_qpn :: "u32 \<Rightarrow> BTH \<Rightarrow> BTH" where
  "set_destination_qpn qpn self = self\<lparr> bth_destination_qpn := to_be_bytes 4 (qpn AND BTH_DESTINATION_QPN_MASK) \<rparr>"

definition set_ack_req :: "bool \<Rightarrow> BTH \<Rightarrow> BTH" where
  "set_ack_req ack_req self =
     (if ack_req then self\<lparr> bth_psn := (bth_psn self)[0 := bth_psn self ! 0 OR BTH_ACK_REQ_MASK] \<rparr>
      else self\<lparr> bth_psn := (bth_psn self)[0 := bth_psn self ! 0 AND NOT BTH_ACK_REQ_MASK] \<rparr>)"

definition bth_set_psn :: "u32 \<Rightarrow> BTH \<Rightarrow> BTH" where
  "bth_set_psn psn self =
     (let ack_req = bth_psn self ! 0
      in self\<lparr> bth_psn := (to_be_bytes 4 (psn AND BTH_PSN_MASK))[0 := ack_req] \<rparr>)"

definition fill_ecn_and_resv6 :: "BTH \<Rightarrow> BTH" where
  "fill_ecn_and_resv6 self = self\<lparr> bth_destination_qpn := (bth_destination_qpn self)[0 := 0xff] \<rparr>"

definition set_from_common_meta :: "RdmaMessageMetaCommon \<Rightarrow> usize \<Rightarrow> BTH \<Rightarrow> BTH" where
  "set_from_common_meta common_meta pad_cnt self =
     (let self = set_opcode_and_type (mc_opcode common_meta) (mc_tran_type common_meta) self;
          self = set_flags_solicited (mc_solicited common_meta) self;
          self = set_pad_cnt pad_cnt self;
          self = set_destination_qpn (sqpn_get (mc_dqpn common_meta)) self;
          self = set_ack_req (mc_ack_req common_meta) self;
          self = bth_set_psn (psn_get (mc_psn common_meta)) self
      in set_pkey (pkey_get (mc_pkey common_meta)) self)"

text \<open>\<^verbatim>\<open>TryFrom<&BTH>\<close>\<close>

definition common_try_from :: "BTH \<Rightarrow> (PacketError, RdmaMessageMetaCommon) result" where
  "common_try_from bth =
     result_bind (ok_or (ToHostWorkRbDescTransType_try_from (get_transaction_type bth)) FailedToConvertTransType) (\<lambda>tran_type.
     result_bind (ok_or (ToHostWorkRbDescOpcode_try_from (bth_get_opcode bth)) FailedToConvertRdmaOpcode) (\<lambda>opcode.
       Ok \<lparr> mc_tran_type = tran_type, mc_opcode = opcode, mc_solicited = get_solicited bth, mc_pkey = PKey (get_pkey bth),
            mc_dqpn = SQpn (get_destination_qpn bth), mc_ack_req = get_ack_req bth, mc_psn = psn_new (bth_get_psn bth) \<rparr>))"

subsection \<open>Extended headers\<close>

record RETH =
  reth_va :: "u8 list"
  reth_rkey :: "u8 list"
  reth_dlen :: "u8 list"

definition RETH_from_bytes :: "u8 list \<Rightarrow> RETH" where
  "RETH_from_bytes bytes = \<lparr> reth_va = take 8 bytes, reth_rkey = take 4 (drop 8 bytes), reth_dlen = take 4 (drop 12 bytes) \<rparr>"

definition RETH_bytes :: "RETH \<Rightarrow> u8 list" where
  "RETH_bytes self = reth_va self @ reth_rkey self @ reth_dlen self"

definition get_va :: "RETH \<Rightarrow> u64" where "get_va self = from_be_bytes (reth_va self)"
definition get_rkey :: "RETH \<Rightarrow> u32" where "get_rkey self = from_be_bytes (reth_rkey self)"
definition get_dlen :: "RETH \<Rightarrow> u32" where "get_dlen self = from_be_bytes (reth_dlen self)"
definition set_va :: "u64 \<Rightarrow> RETH \<Rightarrow> RETH" where "set_va va self = self\<lparr> reth_va := to_be_bytes 8 va \<rparr>"
definition set_rkey :: "u32 \<Rightarrow> RETH \<Rightarrow> RETH" where "set_rkey rkey self = self\<lparr> reth_rkey := to_be_bytes 4 rkey \<rparr>"
definition set_dlen :: "u32 \<Rightarrow> RETH \<Rightarrow> RETH" where "set_dlen dlen self = self\<lparr> reth_dlen := to_be_bytes 4 dlen \<rparr>"

definition set_from_reth_header :: "RethHeader \<Rightarrow> RETH \<Rightarrow> RETH" where
  "set_from_reth_header reth self = set_dlen (rh_len reth) (set_rkey (skey_get (rh_rkey reth)) (set_va (rh_va reth) self))"

definition RethHeader_from :: "RETH \<Rightarrow> RethHeader" where
  "RethHeader_from reth = \<lparr> rh_va = get_va reth, rh_rkey = SKey (get_rkey reth), rh_len = get_dlen reth \<rparr>"

record AETH =
  aeth_bytes :: "u8 list"

definition AETH_from_bytes :: "u8 list \<Rightarrow> AETH" where
  "AETH_from_bytes bytes = \<lparr> aeth_bytes = take 4 bytes \<rparr>"

definition get_aeth_code :: "AETH \<Rightarrow> u8" where
  "get_aeth_code self = drop_bit AETH_CODE_SHIFT (aeth_bytes self ! 0 AND AETH_CODE_MASK)"

definition get_aeth_value :: "AETH \<Rightarrow> u8" where
  "get_aeth_value self = aeth_bytes self ! 0 AND AETH_VALUE_MASK"

definition aeth_get_msn :: "AETH \<Rightarrow> u32" where
  "aeth_get_msn self = from_be_bytes [0, aeth_bytes self ! 1, aeth_bytes self ! 2, aeth_bytes self ! 3]"

definition set_aeth_code_and_value :: "u8 \<Rightarrow> u8 \<Rightarrow> AETH \<Rightarrow> AETH" where
  "set_aeth_code_and_value code v self =
     self\<lparr> aeth_bytes := (aeth_bytes self)[0 := push_bit AETH_CODE_SHIFT (code mod MAX_AETH_CODE) OR v] \<rparr>"

definition aeth_set_msn :: "u32 \<Rightarrow> AETH \<Rightarrow> AETH" where
  "aeth_set_msn msn self = self\<lparr> aeth_bytes := (to_be_bytes 4 (msn AND AETH_MSN_MASK))[0 := aeth_bytes self ! 0] \<rparr>"

datatype Immediate = Immediate (imm_bytes: "u8 list")

definition Immediate_get :: "Immediate \<Rightarrow> u32" where
  "Immediate_get self = from_be_bytes (imm_bytes self)"

definition Immediate_set :: "u32 \<Rightarrow> Immediate \<Rightarrow> Immediate" where
  "Immediate_set imm self = Immediate (to_be_bytes 4 imm)"

definition GeneralMeta_new_from_packet ::
  "BTH \<Rightarrow> RETH \<Rightarrow> Immediate option \<Rightarrow> RETH option \<Rightarrow> (PacketError, RdmaGeneralMeta) result" where
  "GeneralMeta_new_from_packet bth reth imm secondary_reth =
     result_bind (common_try_from bth) (\<lambda>common_meta.
       Ok \<lparr> gm_common_meta = common_meta, gm_reth = RethHeader_from reth, gm_imm = map_option Immediate_get imm,
            gm_secondary_reth = map_option RethHeader_from secondary_reth \<rparr>)"

definition AethHeader_new_from_packet :: "BTH \<Rightarrow> AETH \<Rightarrow> (PacketError, AethHeader) result" where
  "AethHeader_new_from_packet bth aeth =
     result_bind (ok_or (ToHostWorkRbDescAethCode_try_from (get_aeth_code aeth)) FailedToConvertAethCode) (\<lambda>aeth_code.
     result_bind (common_try_from bth) (\<lambda>common_meta.
       Ok \<lparr> ah_common_meta = common_meta, ah_aeth_code = aeth_code, ah_aeth_value = get_aeth_value aeth,
            ah_msn = aeth_get_msn aeth \<rparr>))"

subsection \<open>Composite headers\<close>

text \<open>
  A buffer is given with its address, from which the pointer to the payload is made. The structs are packed, so
  their sizes are the sums of the sizes of their parts.
\<close>

definition size_BTH :: nat where "size_BTH = 12"
definition size_RETH :: nat where "size_RETH = 16"
definition size_AETH :: nat where "size_AETH = 4"
definition size_Immediate :: nat where "size_Immediate = 4"

lemmas header_sizes = size_BTH_def size_RETH_def size_AETH_def size_Immediate_def

definition general_message :: "usize \<Rightarrow> nat \<Rightarrow> nat \<Rightarrow> BTH \<Rightarrow> RETH \<Rightarrow> Immediate option \<Rightarrow> RETH option \<Rightarrow> (PacketError, RdmaMessage) result" where
  "general_message ptr buf_size size_hdr bth reth imm secondary_reth =
     (let payload_length = get_packet_real_length (of_nat buf_size - of_nat size_hdr) bth
      in result_bind (GeneralMeta_new_from_packet bth reth imm secondary_reth) (\<lambda>meta.
           Ok \<lparr> ms_meta_data = General meta, ms_payload = new_with_data (ptr + of_nat size_hdr) payload_length \<rparr>))"

definition ReqBthReth_to_rdma_message :: "usize \<Rightarrow> u8 list \<Rightarrow> (PacketError, RdmaMessage) result option" where
  "ReqBthReth_to_rdma_message ptr buf =
     (let size_hdr = size_BTH + size_RETH
      in if length buf < size_hdr then None
         else Some (general_message ptr (length buf) size_hdr (BTH_from_bytes buf) (RETH_from_bytes (drop size_BTH buf)) None None))"

definition ReqBthDoubleReth_to_rdma_message :: "usize \<Rightarrow> u8 list \<Rightarrow> (PacketError, RdmaMessage) result option" where
  "ReqBthDoubleReth_to_rdma_message ptr buf =
     (let size_hdr = size_BTH + size_RETH + size_RETH
      in if length buf < size_hdr then None
         else Some (general_message ptr (length buf) size_hdr (BTH_from_bytes buf) (RETH_from_bytes (drop size_BTH buf)) None
           (Some (RETH_from_bytes (drop (size_BTH + size_RETH) buf)))))"

definition ReqBthRethImm_to_rdma_message :: "usize \<Rightarrow> u8 list \<Rightarrow> (PacketError, RdmaMessage) result option" where
  "ReqBthRethImm_to_rdma_message ptr buf =
     (let size_hdr = size_BTH + size_RETH + size_Immediate
      in if length buf < size_hdr then None
         else Some (general_message ptr (length buf) size_hdr (BTH_from_bytes buf) (RETH_from_bytes (drop size_BTH buf))
           (Some (Immediate (take 4 (drop (size_BTH + size_RETH) buf)))) None))"

definition RespBthAeth_to_rdma_message :: "usize \<Rightarrow> u8 list \<Rightarrow> (PacketError, RdmaMessage) result option" where
  "RespBthAeth_to_rdma_message ptr buf =
     (let size_hdr = size_BTH + size_AETH
      in if length buf < size_hdr then None
         else Some
           (let bth = BTH_from_bytes buf;
                payload_length = get_packet_real_length (of_nat (length buf) - of_nat size_hdr) bth
            in result_bind (AethHeader_new_from_packet bth (AETH_from_bytes (drop size_BTH buf))) (\<lambda>meta.
                 Ok \<lparr> ms_meta_data = AcknowledgeMeta meta, ms_payload = new_with_data (ptr + of_nat size_hdr) payload_length \<rparr>)))"

text \<open>The setters return the size of the header, and the buffer with what was written before an error.\<close>

definition ReqBthReth_set_from :: "RdmaMessage \<Rightarrow> u8 list \<Rightarrow> ((PacketError, nat) result \<times> u8 list) option" where
  "ReqBthReth_set_from message buf =
     (let size_hdr = size_BTH + size_RETH
      in if length buf < size_hdr then None
         else Some
           (case ms_meta_data message of
              General header \<Rightarrow>
                (let bth = set_from_common_meta (gm_common_meta header) (get_pad_cnt (ms_payload message)) (BTH_from_bytes buf);
                     reth = set_from_reth_header (gm_reth header) (RETH_from_bytes (drop size_BTH buf))
                 in (Ok size_hdr, BTH_bytes bth @ RETH_bytes reth @ drop size_hdr buf))
            | AcknowledgeMeta _ \<Rightarrow> (Err InvalidMetadataType, buf)))"

definition ReqBthDoubleReth_set_from :: "RdmaMessage \<Rightarrow> u8 list \<Rightarrow> ((PacketError, nat) result \<times> u8 list) option" where
  "ReqBthDoubleReth_set_from message buf =
     (let size_hdr = size_BTH + size_RETH + size_RETH
      in if length buf < size_hdr then None
         else Some
           (case ms_meta_data message of
              General header \<Rightarrow>
                (let bth = set_from_common_meta (gm_common_meta header) (get_pad_cnt (ms_payload message)) (BTH_from_bytes buf);
                     reth = set_from_reth_header (gm_reth header) (RETH_from_bytes (drop size_BTH buf))
                 in case gm_secondary_reth header of
                      None \<Rightarrow> (Err InvalidMetadataType, BTH_bytes bth @ RETH_bytes reth @ drop (size_BTH + size_RETH) buf)
                    | Some sec_reth \<Rightarrow>
                        (Ok size_hdr, BTH_bytes bth @ RETH_bytes reth @
                           RETH_bytes (set_from_reth_header sec_reth (RETH_from_bytes (drop (size_BTH + size_RETH) buf))) @ drop size_hdr buf))
            | AcknowledgeMeta _ \<Rightarrow> (Err InvalidMetadataType, buf)))"

definition ReqBthRethImm_set_from :: "RdmaMessage \<Rightarrow> u8 list \<Rightarrow> ((PacketError, nat) result \<times> u8 list) option" where
  "ReqBthRethImm_set_from message buf =
     (let size_hdr = size_BTH + size_RETH + size_Immediate
      in if length buf < size_hdr then None
         else Some
           (case ms_meta_data message of
              General header \<Rightarrow>
                (let bth = set_from_common_meta (gm_common_meta header) (get_pad_cnt (ms_payload message)) (BTH_from_bytes buf);
                     reth = set_from_reth_header (gm_reth header) (RETH_from_bytes (drop size_BTH buf))
                 in case gm_imm header of
                      None \<Rightarrow> (Err InvalidMetadataType, BTH_bytes bth @ RETH_bytes reth @ drop (size_BTH + size_RETH) buf)
                    | Some imm \<Rightarrow>
                        (Ok size_hdr, BTH_bytes bth @ RETH_bytes reth @
                           imm_bytes (Immediate_set imm (Immediate (take 4 (drop (size_BTH + size_RETH) buf)))) @ drop size_hdr buf))
            | AcknowledgeMeta _ \<Rightarrow> (Err InvalidMetadataType, buf)))"

definition RespBthAeth_set_from :: "RdmaMessage \<Rightarrow> u8 list \<Rightarrow> ((PacketError, nat) result \<times> u8 list) option" where
  "RespBthAeth_set_from message buf =
     (let size_hdr = size_BTH + size_AETH
      in if length buf < size_hdr then None
         else Some
           (case ms_meta_data message of
              AcknowledgeMeta header \<Rightarrow>
                (let bth = set_from_common_meta (ah_common_meta header) (get_pad_cnt (ms_payload message)) (BTH_from_bytes buf);
                     aeth = set_aeth_code_and_value (ToHostWorkRbDescAethCode_discr (ah_aeth_code header)) (ah_aeth_value header)
                       (AETH_from_bytes (drop size_BTH buf));
                     aeth = aeth_set_msn (ah_msn header) aeth
                 in (Ok size_hdr, BTH_bytes bth @ aeth_bytes aeth @ drop size_hdr buf))
            | General _ \<Rightarrow> (Err InvalidMetadataType, buf)))"

subsection \<open>Packet processor\<close>

definition to_rdma_message :: "usize \<Rightarrow> u8 list \<Rightarrow> (PacketError, RdmaMessage) result option" where
  "to_rdma_message ptr buf =
     (if length buf < size_BTH then None
      else case ToHostWorkRbDescOpcode_try_from (bth_get_opcode (BTH_from_bytes buf)) of
             None \<Rightarrow> Some (Err InvalidOpcode)
           | Some opcode \<Rightarrow>
               (case opcode of
                  RdmaWriteFirst \<Rightarrow> ReqBthReth_to_rdma_message ptr buf
                | RdmaWriteMiddle \<Rightarrow> ReqBthReth_to_rdma_message ptr buf
                | RdmaWriteLast \<Rightarrow> ReqBthReth_to_rdma_message ptr buf
                | RdmaWriteLastWithImmediate \<Rightarrow> ReqBthRethImm_to_rdma_message ptr buf
                | RdmaWriteOnly \<Rightarrow> ReqBthReth_to_rdma_message ptr buf
                | RdmaWriteOnlyWithImmediate \<Rightarrow> ReqBthRethImm_to_rdma_message ptr buf
                | RdmaReadRequest \<Rightarrow> ReqBthDoubleReth_to_rdma_message ptr buf
                | RdmaReadResponseFirst \<Rightarrow> ReqBthReth_to_rdma_message ptr buf
                | RdmaReadResponseMiddle \<Rightarrow> ReqBthReth_to_rdma_message ptr buf
                | RdmaReadResponseLast \<Rightarrow> ReqBthReth_to_rdma_message ptr buf
                | RdmaReadResponseOnly \<Rightarrow> ReqBthReth_to_rdma_message ptr buf
                | Acknowledge \<Rightarrow> RespBthAeth_to_rdma_message ptr buf))"

definition set_from_rdma_message :: "RdmaMessage \<Rightarrow> u8 list \<Rightarrow> ((PacketError, nat) result \<times> u8 list) option" where
  "set_from_rdma_message message buf =
     (case meta_get_opcode (ms_meta_data message) of
        RdmaWriteFirst \<Rightarrow> ReqBthReth_set_from message buf
      | RdmaWriteMiddle \<Rightarrow> ReqBthReth_set_from message buf
      | RdmaWriteLast \<Rightarrow> ReqBthReth_set_from message buf
      | RdmaWriteLastWithImmediate \<Rightarrow> ReqBthRethImm_set_from message buf
      | RdmaWriteOnly \<Rightarrow> ReqBthReth_set_from message buf
      | RdmaWriteOnlyWithImmediate \<Rightarrow> ReqBthRethImm_set_from message buf
      | RdmaReadRequest \<Rightarrow> ReqBthDoubleReth_set_from message buf
      | RdmaReadResponseFirst \<Rightarrow> ReqBthReth_set_from message buf
      | RdmaReadResponseMiddle \<Rightarrow> ReqBthReth_set_from message buf
      | RdmaReadResponseLast \<Rightarrow> ReqBthReth_set_from message buf
      | RdmaReadResponseOnly \<Rightarrow> ReqBthReth_set_from message buf
      | Acknowledge \<Rightarrow> RespBthAeth_set_from message buf)"

subsection \<open>Network headers\<close>

record Ipv4Header =
  ip_version_header_len :: u8
  ip_dscp_ecn :: u8
  ip_total_length :: "u8 list"
  ip_identification :: "u8 list"
  ip_flags_fragment_offset :: "u8 list"
  ip_ttl :: u8
  ip_protocol :: u8
  ip_checksum :: "u8 list"
  ip_source :: "u8 list"
  ip_destination :: "u8 list"

definition size_Ipv4Header :: nat where "size_Ipv4Header = 20"

definition Ipv4Header_from_bytes :: "u8 list \<Rightarrow> Ipv4Header" where
  "Ipv4Header_from_bytes bytes =
     \<lparr> ip_version_header_len = bytes ! 0, ip_dscp_ecn = bytes ! 1, ip_total_length = take 2 (drop 2 bytes),
       ip_identification = take 2 (drop 4 bytes), ip_flags_fragment_offset = take 2 (drop 6 bytes), ip_ttl = bytes ! 8,
       ip_protocol = bytes ! 9, ip_checksum = take 2 (drop 10 bytes), ip_source = take 4 (drop 12 bytes),
       ip_destination = take 4 (drop 16 bytes) \<rparr>"

definition Ipv4Header_bytes :: "Ipv4Header \<Rightarrow> u8 list" where
  "Ipv4Header_bytes self =
     [ip_version_header_len self, ip_dscp_ecn self] @ ip_total_length self @ ip_identification self @
     ip_flags_fragment_offset self @ [ip_ttl self, ip_protocol self] @ ip_checksum self @ ip_source self @ ip_destination self"

definition set_default_header :: "Ipv4Header \<Rightarrow> Ipv4Header" where
  "set_default_header self =
     self\<lparr> ip_version_header_len := IPV4_DEFAULT_VERSION_AND_HEADER_LENGTH, ip_dscp_ecn := IPV4_DEFAULT_DSCP_AND_ECN,
           ip_ttl := IPV4_DEFAULT_TTL, ip_protocol := IPV4_PROTOCOL_UDP \<rparr>"

definition set_total_length :: "u16 \<Rightarrow> Ipv4Header \<Rightarrow> Ipv4Header" where
  "set_total_length len self = self\<lparr> ip_total_length := to_be_bytes 2 len \<rparr>"

definition set_identification :: "u16 \<Rightarrow> Ipv4Header \<Rightarrow> Ipv4Header" where
  "set_identification i self = self\<lparr> ip_identification := to_be_bytes 2 i \<rparr>"

definition set_flags_fragment_offset :: "u16 \<Rightarrow> Ipv4Header \<Rightarrow> Ipv4Header" where
  "set_flags_fragment_offset flags self = self\<lparr> ip_flags_fragment_offset := to_be_bytes 2 flags \<rparr>"

definition ip_set_checksum :: "u16 \<Rightarrow> Ipv4Header \<Rightarrow> Ipv4Header" where
  "ip_set_checksum checksum self = self\<lparr> ip_checksum := to_be_bytes 2 checksum \<rparr>"

definition set_source :: "Ipv4Addr \<Rightarrow> Ipv4Header \<Rightarrow> Ipv4Header" where
  "set_source source self = self\<lparr> ip_source := octets source \<rparr>"

definition set_destination :: "Ipv4Addr \<Rightarrow> Ipv4Header \<Rightarrow> Ipv4Header" where
  "set_destination destination self = self\<lparr> ip_destination := octets destination \<rparr>"

record UdpHeader =
  udp_source_port :: "u8 list"
  udp_dest_port :: "u8 list"
  udp_length :: "u8 list"
  udp_checksum :: "u8 list"

definition size_UdpHeader :: nat where "size_UdpHeader = 8"

definition UdpHeader_from_bytes :: "u8 list \<Rightarrow> UdpHeader" where
  "UdpHeader_from_bytes bytes =
     \<lparr> udp_source_port = take 2 bytes, udp_dest_port = take 2 (drop 2 bytes), udp_length = take 2 (drop 4 bytes),
       udp_checksum = take 2 (drop 6 bytes) \<rparr>"

definition UdpHeader_bytes :: "UdpHeader \<Rightarrow> u8 list" where
  "UdpHeader_bytes self = udp_source_port self @ udp_dest_port self @ udp_length self @ udp_checksum self"

definition set_source_port :: "u16 \<Rightarrow> UdpHeader \<Rightarrow> UdpHeader" where
  "set_source_port port self = self\<lparr> udp_source_port := to_be_bytes 2 port \<rparr>"

definition set_dest_port :: "u16 \<Rightarrow> UdpHeader \<Rightarrow> UdpHeader" where
  "set_dest_port port self = self\<lparr> udp_dest_port := to_be_bytes 2 port \<rparr>"

definition udp_set_length :: "u16 \<Rightarrow> UdpHeader \<Rightarrow> UdpHeader" where
  "udp_set_length len self = self\<lparr> udp_length := to_be_bytes 2 len \<rparr>"

definition udp_set_checksum :: "u16 \<Rightarrow> UdpHeader \<Rightarrow> UdpHeader" where
  "udp_set_checksum checksum self = self\<lparr> udp_checksum := to_be_bytes 2 checksum \<rparr>"

definition size_IpUdpHeaders :: nat where "size_IpUdpHeaders = size_Ipv4Header + size_UdpHeader"
definition size_CommonPacketHeader :: nat where "size_CommonPacketHeader = size_IpUdpHeaders + size_BTH"

lemmas net_sizes = size_Ipv4Header_def size_UdpHeader_def size_IpUdpHeaders_def size_CommonPacketHeader_def ICRC_SIZE_soft_def

definition write_ip_udp_header ::
  "u8 list \<Rightarrow> Ipv4Addr \<Rightarrow> u16 \<Rightarrow> Ipv4Addr \<Rightarrow> u16 \<Rightarrow> u16 \<Rightarrow> u16 \<Rightarrow> u8 list" where
  "write_ip_udp_header buf src_addr src_port dest_addr dest_port total_length ip_id =
     (let ip_header = Ipv4Header_from_bytes buf;
          ip_header = set_default_header ip_header;
          ip_header = set_source src_addr ip_header;
          ip_header = set_destination dest_addr ip_header;
          ip_header = set_total_length total_length ip_header;
          ip_header = set_flags_fragment_offset 0 ip_header;
          ip_header = set_identification ip_id ip_header;
          ip_header = ip_set_checksum 0 ip_header;
          udp_header = UdpHeader_from_bytes (drop size_Ipv4Header buf);
          udp_header = set_source_port src_port udp_header;
          udp_header = set_dest_port dest_port udp_header;
          udp_header = udp_set_length (total_length - of_nat size_Ipv4Header) udp_header;
          udp_header = udp_set_checksum 0 udp_header
      in Ipv4Header_bytes ip_header @ UdpHeader_bytes udp_header @ drop size_IpUdpHeaders buf)"

subsection \<open>Invariant CRC\<close>

datatype packet_fault = OutOfBuffer | Panicked

text \<open>The CRC-32 of \<^verbatim>\<open>crc32fast\<close> is a parameter; the slice panics when the data is shorter than the headers.\<close>

definition compute_icrc :: "(u8 list \<Rightarrow> u32) \<Rightarrow> u8 list \<Rightarrow> (packet_fault, u32) result" where
  "compute_icrc crc32 data =
     (if length data < size_CommonPacketHeader then Err OutOfBuffer
      else
        let prefix = replicate 8 0xff;
            ip_header = Ipv4Header_from_bytes data;
            udp_header = UdpHeader_from_bytes (drop size_Ipv4Header data);
            bth_header = BTH_from_bytes (drop size_IpUdpHeaders data);
            ip_header = ip_header\<lparr> ip_dscp_ecn := 0xff \<rparr>;
            ip_header = ip_header\<lparr> ip_ttl := 0xff \<rparr>;
            ip_header = ip_set_checksum 0xffff ip_header;
            udp_header = udp_set_checksum 0xffff udp_header;
            bth_header = fill_ecn_and_resv6 bth_header;
            common_hdr_bytes = Ipv4Header_bytes ip_header @ UdpHeader_bytes udp_header @ BTH_bytes bth_header
        in if length data < size_CommonPacketHeader + ICRC_SIZE_soft then Err Panicked
           else Ok (crc32 (prefix @ common_hdr_bytes @ drop size_CommonPacketHeader (take (length data - ICRC_SIZE_soft) data))))"

definition is_icrc_valid :: "(u8 list \<Rightarrow> u32) \<Rightarrow> u8 list \<Rightarrow> (packet_fault, bool \<times> u8 list) result" where
  "is_icrc_valid crc32 received_data =
     (let n = length received_data
      in if n < ICRC_SIZE_soft then Err Panicked
         else
           let icrc_array = drop (n - ICRC_SIZE_soft) received_data;
               origin_icrc = le_word icrc_array;
               received_data = take (n - ICRC_SIZE_soft) received_data @ replicate ICRC_SIZE_soft 0
           in result_bind (compute_icrc crc32 received_data) (\<lambda>our_icrc. Ok (our_icrc = origin_icrc, received_data)))"

subsection \<open>Writing and receiving a packet\<close>

datatype PacketProcessorError =
    MissingSrcAddr
  | MissingSrcPort
  | MissingDestAddr
  | MissingDestPort
  | MissingMessage
  | MissingIpId
  | BufferNotLargeEnough nat
  | PacketErr PacketError
  | LengthTooLong nat

record PacketWriter =
  pw_buf :: "u8 list"
  pw_src_addr :: "Ipv4Addr option"
  pw_src_port :: "u16 option"
  pw_dest_addr :: "Ipv4Addr option"
  pw_dest_port :: "u16 option"
  pw_message :: "RdmaMessage option"
  pw_ip_id :: "u16 option"

definition PacketWriter_new :: "u8 list \<Rightarrow> PacketWriter" where
  "PacketWriter_new buf =
     \<lparr> pw_buf = buf, pw_src_addr = None, pw_src_port = None, pw_dest_addr = None, pw_dest_port = None, pw_message = None,
       pw_ip_id = None \<rparr>"

definition writer_src_addr :: "Ipv4Addr \<Rightarrow> PacketWriter \<Rightarrow> PacketWriter" where
  "writer_src_addr addr self = self\<lparr> pw_src_addr := Some addr \<rparr>"

definition writer_src_port :: "u16 \<Rightarrow> PacketWriter \<Rightarrow> PacketWriter" where
  "writer_src_port port self = self\<lparr> pw_src_port := Some port \<rparr>"

definition writer_dest_addr :: "Ipv4Addr \<Rightarrow> PacketWriter \<Rightarrow> PacketWriter" where
  "writer_dest_addr addr self = self\<lparr> pw_dest_addr := Some addr \<rparr>"

definition writer_dest_port :: "u16 \<Rightarrow> PacketWriter \<Rightarrow> PacketWriter" where
  "writer_dest_port port self = self\<lparr> pw_dest_port := Some port \<rparr>"

definition writer_ip_id :: "u16 \<Rightarrow> PacketWriter \<Rightarrow> PacketWriter" where
  "writer_ip_id i self = self\<lparr> pw_ip_id := Some i \<rparr>"

definition writer_message :: "RdmaMessage \<Rightarrow> PacketWriter \<Rightarrow> PacketWriter" where
  "writer_message message self = self\<lparr> pw_message := Some message \<rparr>"

lemmas writer_setters = writer_src_addr_def writer_src_port_def writer_dest_addr_def writer_dest_port_def writer_ip_id_def
  writer_message_def

text \<open>The parameters of the network headers, in the order in which \<^verbatim>\<open>write\<close> takes them.\<close>

definition net_params :: "PacketWriter \<Rightarrow> (PacketProcessorError, u16 \<times> Ipv4Addr \<times> u16 \<times> Ipv4Addr \<times> u16) result" where
  "net_params self =
     result_bind (ok_or (pw_ip_id self) MissingIpId) (\<lambda>ip_id.
     result_bind (ok_or (pw_src_addr self) MissingSrcAddr) (\<lambda>src_addr.
     result_bind (ok_or (pw_src_port self) MissingSrcPort) (\<lambda>src_port.
     result_bind (ok_or (pw_dest_addr self) MissingDestAddr) (\<lambda>dest_addr.
     result_bind (ok_or (pw_dest_port self) MissingDestPort) (\<lambda>dest_port.
       Ok (ip_id, src_addr, src_port, dest_addr, dest_port))))))"

definition write_payload ::
  "memory \<Rightarrow> PayloadInfo \<Rightarrow> nat \<Rightarrow> u8 list \<Rightarrow> (packet_fault, u8 list) result" where
  "write_payload mem payload header_offset buf =
     (let bytes = payload_bytes mem payload
      in if length buf < header_offset + length bytes then Err OutOfBuffer
         else Ok (take header_offset buf @ bytes @ drop (header_offset + length bytes) buf))"

definition packet_write ::
  "(u8 list \<Rightarrow> u32) \<Rightarrow> memory \<Rightarrow> PacketWriter \<Rightarrow> (packet_fault, (PacketProcessorError, nat) result \<times> u8 list) result" where
  "packet_write crc32 mem self =
     (let net_packet_offset = size_IpUdpHeaders; buf = pw_buf self
      in case pw_message self of
           None \<Rightarrow> Ok (Err MissingMessage, buf)
         | Some message \<Rightarrow>
             if length buf < net_packet_offset then Ok (Err (BufferNotLargeEnough net_packet_offset), buf)
             else
               result_bind (ok_or (set_from_rdma_message message (drop net_packet_offset buf)) OutOfBuffer) (\<lambda>(r, rdma_header_buf).
                 let buf = take net_packet_offset buf @ rdma_header_buf
                 in case r of
                      Inl e \<Rightarrow> Ok (Err (PacketErr e), buf)
                    | Inr rdma_header_length \<Rightarrow>
                        (let total_length = of_nat size_IpUdpHeaders + of_nat rdma_header_length +
                               with_pad_length (ms_payload message) + of_nat ICRC_SIZE_soft;
                             header_offset = size_IpUdpHeaders + rdma_header_length
                         in if total_length > 0xffff then Ok (Err (LengthTooLong (unat total_length)), buf)
                            else if length buf < header_offset then Ok (Err (BufferNotLargeEnough net_packet_offset), buf)
                            else
                              result_bind (write_payload mem (ms_payload message) header_offset buf) (\<lambda>buf.
                                case net_params self of
                                  Inl e \<Rightarrow> Ok (Err e, buf)
                                | Inr (ip_id, src_addr, src_port, dest_addr, dest_port) \<Rightarrow>
                                    (let buf = write_ip_udp_header buf src_addr src_port dest_addr dest_port (ucast total_length) ip_id;
                                         n = unat total_length
                                     in if length buf < n then Ok (Err (BufferNotLargeEnough n), buf)
                                        else if n < ICRC_SIZE_soft then Ok (Err (BufferNotLargeEnough ICRC_SIZE_soft), buf)
                                        else
                                          result_bind (compute_icrc crc32 (take n buf)) (\<lambda>icrc.
                                            Ok (Ok n, take (n - ICRC_SIZE_soft) buf @ u32_to_le_bytes icrc @ drop n buf)))))))"

definition NET_SERVER_BUF_SIZE :: nat where "NET_SERVER_BUF_SIZE = 8192"

text \<open>What \<^verbatim>\<open>send\<close> of the UDP agent hands to the socket.\<close>

definition udp_send ::
  "(u8 list \<Rightarrow> u32) \<Rightarrow> memory \<Rightarrow> Ipv4Addr \<Rightarrow> u16 \<Rightarrow> u16 \<Rightarrow> Ipv4Addr \<Rightarrow> u16 \<Rightarrow> RdmaMessage \<Rightarrow>
   (packet_fault, (PacketProcessorError, u8 list) result) result" where
  "udp_send crc32 mem src_addr src_port ip_id dest_addr dest_port message =
     (let writer = writer_message message (writer_ip_id ip_id (writer_dest_port dest_port (writer_dest_addr dest_addr
            (writer_src_port src_port (writer_src_addr src_addr (PacketWriter_new (replicate NET_SERVER_BUF_SIZE 0)))))))
      in result_bind (packet_write crc32 mem writer) (\<lambda>(r, buf).
           Ok (result_bind r (\<lambda>total_length. Ok (take total_length buf)))))"

text \<open>
  The body of the receive loop, for a datagram that the socket put at the address \<open>ptr\<close>; the message
  that is handed on, if any.
\<close>

definition udp_receive :: "(u8 list \<Rightarrow> u32) \<Rightarrow> usize \<Rightarrow> u8 list \<Rightarrow> (packet_fault, RdmaMessage option) result" where
  "udp_receive crc32 ptr received_data =
     (if length received_data < size_CommonPacketHeader + 4 then Ok None
      else
        result_bind (is_icrc_valid crc32 received_data) (\<lambda>(is_valid, received_data).
          if \<not> is_valid then Ok None
          else
            let offset = size_IpUdpHeaders
            in result_bind
                 (ok_or (to_rdma_message (ptr + of_nat offset) (drop offset (take (length received_data - ICRC_SIZE_soft) received_data)))
                    OutOfBuffer)
                 (\<lambda>r. Ok (case r of Inr message \<Rightarrow> Some message | Inl _ \<Rightarrow> None))))"

end
