(* ===== verification/Soft_Codec.thy ===== *)
theory Soft_Codec
  imports Soft_Packet
begin

unbundle bit_operations_syntax

text \<open>
  Packets of the software card survive the wire: a message that the UDP agent writes into a packet is the
  message that the receiving agent reads from it.
\<close>

subsection \<open>Byte order\<close>

lemma bit_le_word:
  "bit (le_word bs :: 'a::len word) n \<longleftrightarrow> n < LENGTH('a) \<and> n div 8 < length bs \<and> bit (bs ! (n div 8)) (n mod 8)"
proof (induction bs arbitrary: n)
  case (Cons b bs)
  show ?case
  proof (cases "n < 8")
    case True
    then show ?thesis
      by (auto simp: bit_simps)
  next
    case False
    then have "n div 8 = Suc ((n - 8) div 8)" "n mod 8 = (n - 8) mod 8"
      by (simp_all add: le_div_geq le_mod_geq)
    then show ?thesis
      using False Cons[of "n - 8"] bit_imp_le_length[of b n] by (auto simp: bit_simps)
  qed
qed simp

lemma length_to_be_bytes [simp]: "length (to_be_bytes n w) = n"
  by (simp add: to_be_bytes_def)

lemma bit_from_to_be:
  "bit (from_be_bytes (to_be_bytes n (w :: 'a::len word)) :: 'a word) k \<longleftrightarrow> k < 8 * n \<and> bit w k"
proof -
  have "k div 8 < n \<longleftrightarrow> k < 8 * n"
    by (simp add: div_less_iff_less_mult mult.commute)
  then show ?thesis
    using bit_imp_le_length[of w k] by (auto simp: from_be_bytes_def to_be_bytes_def bit_le_word bit_simps)
qed

lemma from_to_be [simp]: "LENGTH('a) \<le> 8 * n \<Longrightarrow> from_be_bytes (to_be_bytes n (w :: 'a::len word)) = w"
  by (rule bit_word_eqI) (simp add: bit_from_to_be)

lemma to_be_bytes_4: "to_be_bytes 4 w = [ucast (drop_bit 24 w), ucast (drop_bit 16 w), ucast (drop_bit 8 w), ucast w]"
  by (simp add: to_be_bytes_def eval_nat_numeral)

text \<open>The three byte fields: the first byte of the masked number is zero.\<close>

lemma from_be_three:
  assumes "unat (w :: u32) < 2 ^ 24"
  shows "from_be_bytes [0, to_be_bytes 4 (w AND 0xFFFFFF) ! Suc 0, to_be_bytes 4 (w AND 0xFFFFFF) ! 2, to_be_bytes 4 (w AND 0xFFFFFF) ! 3] = w"
proof -
  have "w AND mask 24 = w"
    using assms unat_and_mask[of w 24] by (simp add: word_unat_eq_iff)
  then have m: "w AND 0xFFFFFF = w"
    by (simp add: mask_eq_exp_minus_1)
  have "drop_bit 24 w = 0"
    using assms by (simp add: drop_bit_eq_div word_unat_eq_iff unat_div_word)
  then have "to_be_bytes 4 w = [0, to_be_bytes 4 w ! Suc 0, to_be_bytes 4 w ! 2, to_be_bytes 4 w ! 3]"
    by (simp add: to_be_bytes_4)
  then show ?thesis
    using from_to_be[of 4 w] m by simp
qed

subsection \<open>Headers\<close>

definition bth_wf :: "BTH \<Rightarrow> bool" where
  "bth_wf b \<longleftrightarrow> length (bth_pkey b) = 2 \<and> length (bth_destination_qpn b) = 4 \<and> length (bth_psn b) = 4"

definition reth_wf :: "RETH \<Rightarrow> bool" where
  "reth_wf r \<longleftrightarrow> length (reth_va r) = 8 \<and> length (reth_rkey r) = 4 \<and> length (reth_dlen r) = 4"

lemma BTH_roundtrip:
  assumes "bth_wf b"
  shows "BTH_from_bytes (BTH_bytes b @ rest) = b" "length (BTH_bytes b) = size_BTH"
  using assms by (simp_all add: bth_wf_def BTH_from_bytes_def BTH_bytes_def size_BTH_def)

lemma RETH_roundtrip:
  assumes "reth_wf r"
  shows "RETH_from_bytes (RETH_bytes r @ rest) = r" "length (RETH_bytes r) = size_RETH"
  using assms by (simp_all add: reth_wf_def RETH_from_bytes_def RETH_bytes_def size_RETH_def)

lemma from_bytes_wf: "size_BTH \<le> length buf \<Longrightarrow> bth_wf (BTH_from_bytes buf)"
  by (simp add: bth_wf_def BTH_from_bytes_def size_BTH_def)

lemma set_from_common_meta_wf: "bth_wf b \<Longrightarrow> bth_wf (set_from_common_meta c pad b)"
  by (simp add: bth_wf_def set_from_common_meta_def set_opcode_and_type_def set_flags_solicited_def set_pad_cnt_def
      set_destination_qpn_def set_ack_req_def bth_set_psn_def set_pkey_def Let_def)

lemma set_from_reth_header_wf: "reth_wf (set_from_reth_header h r)"
  by (simp add: reth_wf_def set_from_reth_header_def set_va_def set_rkey_def set_dlen_def)

lemma RethHeader_roundtrip: "RethHeader_from (set_from_reth_header h r) = h"
  by (cases "rh_rkey h") (simp add: RethHeader_from_def set_from_reth_header_def set_va_def set_rkey_def set_dlen_def get_va_def
      get_rkey_def get_dlen_def)

lemma opcode_and_type:
  "ToHostWorkRbDescTransType_try_from
     (drop_bit 5 ((push_bit 5 (ToHostWorkRbDescTransType_discr t) OR ToHostWorkRbDescOpcode_discr c) AND 0xE0)) = Some t"
  "ToHostWorkRbDescOpcode_try_from ((push_bit 5 (ToHostWorkRbDescTransType_discr t) OR ToHostWorkRbDescOpcode_discr c) AND 0x1F) = Some c"
  by (cases t; cases c; simp add: ToHostWorkRbDescTransType_try_from_def ToHostWorkRbDescOpcode_try_from_def)+

text \<open>The flag in the highest bit of a byte.\<close>

lemma high_bit: "(x AND 0x80 \<noteq> 0) = bit (x :: u8) 7"
proof -
  have "(0x80 :: u8) = push_bit 7 1"
    by simp
  then show ?thesis
    by (simp only: and_exp_eq_0_iff_not_bit push_bit_of_1) simp
qed

lemma and_or_mask: "((f AND NOT m) OR k) AND m = (k AND m :: 'a::len word)"
  by (rule bit_word_eqI) (auto simp: bit_simps)

lemma below_four: "(pad :: usize) < 4 \<Longrightarrow> pad = 0 \<or> pad = 1 \<or> pad = 2 \<or> pad = 3"
proof -
  assume "pad < 4"
  then have "unat pad = 0 \<or> unat pad = 1 \<or> unat pad = 2 \<or> unat pad = 3"
    by (auto simp: word_less_nat_alt)
  then show ?thesis
    by (auto simp: word_unat_eq_iff)
qed

lemma pad_flags:
  fixes f :: u8
  assumes "pad < 4"
  shows "drop_bit 5 (((f AND NOT 0x60) OR push_bit 5 (ucast (pad :: usize))) AND 0x60) = (ucast pad :: u8)"
    and "bit ((f AND NOT 0x60) OR push_bit 5 (ucast pad)) 7 = bit f 7"
proof -
  note pad = below_four[OF assms]
  show "drop_bit 5 (((f AND NOT 0x60) OR push_bit 5 (ucast (pad :: usize))) AND 0x60) = (ucast pad :: u8)"
    unfolding and_or_mask using pad by auto
  have "\<not> bit (push_bit 5 (ucast pad) :: u8) 7" "\<not> bit (0x60 :: u8) 7"
    using pad by auto
  then show "bit ((f AND NOT 0x60) OR push_bit 5 (ucast pad)) 7 = bit f 7"
    by (simp add: bit_or_iff bit_and_iff bit_not_iff)
qed

lemma solicited_flags: "bit (if sol then f OR 0x80 else f AND NOT 0x80 :: u8) 7 = sol"
proof -
  have "bit (0x80 :: u8) 7"
    by simp
  then show ?thesis
    by (simp add: bit_or_iff bit_and_iff bit_not_iff)
qed

lemma common_roundtrip:
  assumes "bth_wf b" "pad < 4" "psn_ok (mc_psn c)" "unat (sqpn_get (mc_dqpn c)) < 2 ^ 24"
  shows "common_try_from (set_from_common_meta c pad b) = Ok c"
    and "bth_get_pad_cnt (set_from_common_meta c pad b) = ucast pad"
proof -
  let ?b = "set_from_common_meta c pad b"
  let ?f = "if mc_solicited c then bth_flags b OR 0x80 else bth_flags b AND NOT 0x80"
  have parts: "bth_tran_type_and_opcode ?b =
      push_bit 5 (ToHostWorkRbDescTransType_discr (mc_tran_type c)) OR ToHostWorkRbDescOpcode_discr (mc_opcode c)"
    "bth_flags ?b = (?f AND NOT 0x60) OR push_bit 5 (ucast pad)"
    "bth_pkey ?b = to_be_bytes 2 (pkey_get (mc_pkey c))"
    "bth_destination_qpn ?b = to_be_bytes 4 (sqpn_get (mc_dqpn c) AND 0xFFFFFF)"
    "bth_psn ?b = (to_be_bytes 4 (psn_get (mc_psn c) AND 0xFFFFFF))[0 :=
       if mc_ack_req c then bth_psn b ! 0 OR 0x80 else bth_psn b ! 0 AND NOT 0x80]"
    using assms(1)
    by (simp_all add: bth_wf_def set_from_common_meta_def set_opcode_and_type_def set_flags_solicited_def set_pad_cnt_def
        set_destination_qpn_def set_ack_req_def bth_set_psn_def set_pkey_def Let_def mask_defs)
  show "bth_get_pad_cnt ?b = ucast pad"
    using pad_flags(1)[OF assms(2)] by (simp only: bth_get_pad_cnt_def parts mask_defs)
  have "get_solicited ?b = mc_solicited c"
    unfolding get_solicited_def mask_defs high_bit parts pad_flags(2)[OF assms(2)] by (rule solicited_flags)
  moreover have "get_ack_req ?b = mc_ack_req c"
    using solicited_flags[of "mc_ack_req c" "bth_psn b ! 0"] unfolding get_ack_req_def mask_defs high_bit parts by simp
  moreover have "get_destination_qpn ?b = sqpn_get (mc_dqpn c)"
    using from_be_three[OF assms(4)] by (simp add: get_destination_qpn_def parts)
  moreover have "bth_get_psn ?b = psn_get (mc_psn c)"
    using from_be_three[of "psn_get (mc_psn c)"] assms(3) by (simp add: bth_get_psn_def parts psn_ok_iff)
  moreover have "get_pkey ?b = pkey_get (mc_pkey c)"
    by (simp add: get_pkey_def parts)
  ultimately show "common_try_from ?b = Ok c"
    using opcode_and_type[of "mc_tran_type c" "mc_opcode c"] psn_new_get[OF assms(3)]
    by (simp add: common_try_from_def get_transaction_type_def bth_get_opcode_def mask_defs parts)
qed

lemma get_pad_cnt_less: "get_pad_cnt p < 4"
proof -
  have "py_total_len p mod 4 < 4"
    by (simp add: word_less_nat_alt unat_mod)
  then show ?thesis
    using below_four[of "py_total_len p mod 4"] by (auto simp: get_pad_cnt_def RDMA_PAYLOAD_ALIGNMENT_def)
qed

text \<open>Messages whose fields fit their places on the wire, and whose optional headers are those of the opcode.\<close>

definition common_wf :: "RdmaMessageMetaCommon \<Rightarrow> bool" where
  "common_wf c \<longleftrightarrow> psn_ok (mc_psn c) \<and> unat (sqpn_get (mc_dqpn c)) < 2 ^ 24"

definition meta_wf :: "Metadata \<Rightarrow> bool" where
  "meta_wf m =
     (case m of
        General g \<Rightarrow>
          common_wf (gm_common_meta g) \<and> mc_opcode (gm_common_meta g) \<noteq> Acknowledge \<and>
          (gm_imm g \<noteq> None) = (mc_opcode (gm_common_meta g) \<in> {RdmaWriteLastWithImmediate, RdmaWriteOnlyWithImmediate}) \<and>
          (gm_secondary_reth g \<noteq> None) = is_read_request g
      | AcknowledgeMeta h \<Rightarrow>
          common_wf (ah_common_meta h) \<and> mc_opcode (ah_common_meta h) = Acknowledge \<and> ah_aeth_value h < 32 \<and>
          unat (ah_msn h) < 2 ^ 24)"

lemma opcode_roundtrip:
  assumes "bth_wf b" "common_wf c"
  shows "ToHostWorkRbDescOpcode_try_from (bth_get_opcode (set_from_common_meta c (get_pad_cnt p) b)) = Some (mc_opcode c)"
  using common_roundtrip(1)[OF assms(1) get_pad_cnt_less, of c p] assms(2)
  by (auto simp: common_wf_def common_try_from_def ok_or_def result_bind_Inr_iff split: option.splits
      dest: arg_cong[where f = mc_opcode])

lemma real_length:
  assumes "bth_wf b" "common_wf c"
  shows "get_packet_real_length n (set_from_common_meta c (get_pad_cnt p) b) = n - get_pad_cnt p"
proof -
  have "ucast (ucast (get_pad_cnt p) :: u8) = get_pad_cnt p"
    using below_four[OF get_pad_cnt_less[of p]] by auto
  then show ?thesis
    using common_roundtrip(2)[OF assms(1) get_pad_cnt_less, of c p] assms(2)
    by (simp add: get_packet_real_length_def common_wf_def)
qed

lemma general_roundtrip:
  assumes "bth_wf b" "common_wf c"
  shows "general_message ptr n h (set_from_common_meta c (get_pad_cnt p) b) (set_from_reth_header rh r) imm sec =
    Ok \<lparr> ms_meta_data = General \<lparr> gm_common_meta = c, gm_reth = rh, gm_imm = map_option Immediate_get imm,
                                  gm_secondary_reth = map_option RethHeader_from sec \<rparr>,
         ms_payload = new_with_data (ptr + of_nat h) (of_nat n - of_nat h - get_pad_cnt p) \<rparr>"
  using common_roundtrip(1)[OF assms(1) get_pad_cnt_less, of c p] assms real_length[OF assms]
  by (simp add: general_message_def GeneralMeta_new_from_packet_def common_wf_def RethHeader_roundtrip)

lemma aeth_byte:
  assumes "v < 32"
  shows "ToHostWorkRbDescAethCode_try_from
      (drop_bit 5 ((push_bit 5 (ToHostWorkRbDescAethCode_discr code mod 4) OR v) AND 0x60)) = Some code"
    and "(push_bit 5 (ToHostWorkRbDescAethCode_discr code mod 4) OR v) AND 0x1F = v"
proof -
  have "v AND mask 5 = v"
    using assms unat_and_mask[of v 5] by (simp add: word_unat_eq_iff word_less_nat_alt)
  then have v: "v AND 0x1F = v"
    by (simp add: mask_eq_exp_minus_1)
  have "v AND 0x60 = v AND (0x1F AND 0x60)"
    by (simp only: and.assoc[symmetric] v)
  then have "v AND 0x60 = 0"
    by simp
  with v show "ToHostWorkRbDescAethCode_try_from
      (drop_bit 5 ((push_bit 5 (ToHostWorkRbDescAethCode_discr code mod 4) OR v) AND 0x60)) = Some code"
    and "(push_bit 5 (ToHostWorkRbDescAethCode_discr code mod 4) OR v) AND 0x1F = v"
    by (cases code; simp add: bit.conj_disj_distrib2 ToHostWorkRbDescAethCode_try_from_def)+
qed

subsection \<open>Whole headers\<close>

text \<open>What a writer of headers and the reader of the same opcode agree on.\<close>

definition header_ok :: "RdmaMessage \<Rightarrow> u8 list \<Rightarrow> u8 list \<Rightarrow> bool" where
  "header_ok message buf hdr \<longleftrightarrow>
     set_from_rdma_message message buf = Some (Ok (length hdr), hdr @ drop (length hdr) buf) \<and>
     length hdr \<in> {16, 28, 32, 44} \<and>
     (\<forall>ptr rest. to_rdma_message ptr (hdr @ rest) =
        Some (Ok \<lparr> ms_meta_data = ms_meta_data message,
                   ms_payload = new_with_data (ptr + of_nat (length hdr)) (of_nat (length rest) - get_pad_cnt (ms_payload message)) \<rparr>))"

lemma BTH_RETH_read:
  assumes "bth_wf b" "reth_wf r" "hdr = BTH_bytes b @ RETH_bytes r @ ext"
  shows "BTH_from_bytes (hdr @ rest) = b" "RETH_from_bytes (drop 12 (hdr @ rest)) = r" "drop 28 (hdr @ rest) = ext @ rest"
    and "length hdr = 28 + length ext"
  using BTH_roundtrip[OF assms(1)] RETH_roundtrip[OF assms(2)] by (simp_all add: assms(3) header_sizes)

text \<open>The first two headers that are written into a buffer for a general message, with their extension.\<close>

definition general_hdr :: "RdmaGeneralMeta \<Rightarrow> PayloadInfo \<Rightarrow> u8 list \<Rightarrow> u8 list \<Rightarrow> u8 list" where
  "general_hdr g p buf ext =
     BTH_bytes (set_from_common_meta (gm_common_meta g) (get_pad_cnt p) (BTH_from_bytes buf)) @
     RETH_bytes (set_from_reth_header (gm_reth g) (RETH_from_bytes (drop size_BTH buf))) @ ext"

lemma general_hdr_read:
  assumes "44 \<le> length buf" "common_wf (gm_common_meta g)" "hdr = general_hdr g p buf ext"
  shows "length hdr = 28 + length ext"
    and "ToHostWorkRbDescOpcode_try_from (bth_get_opcode (BTH_from_bytes (hdr @ rest))) = Some (mc_opcode (gm_common_meta g))"
    and "drop 28 (hdr @ rest) = ext @ rest"
    and "general_message ptr (length hdr + length rest) (length hdr) (BTH_from_bytes (hdr @ rest)) (RETH_from_bytes (drop 12 (hdr @ rest))) imm sec =
      Ok \<lparr> ms_meta_data = General \<lparr> gm_common_meta = gm_common_meta g, gm_reth = gm_reth g, gm_imm = map_option Immediate_get imm,
                                    gm_secondary_reth = map_option RethHeader_from sec \<rparr>,
           ms_payload = new_with_data (ptr + of_nat (length hdr)) (of_nat (length rest) - get_pad_cnt p) \<rparr>"
proof -
  have b0: "bth_wf (BTH_from_bytes buf)"
    using assms(1) by (simp add: from_bytes_wf size_BTH_def)
  note rd = BTH_RETH_read[OF set_from_common_meta_wf[OF b0] set_from_reth_header_wf assms(3)[unfolded general_hdr_def]]
  show "length hdr = 28 + length ext" "drop 28 (hdr @ rest) = ext @ rest"
    by (rule rd(4), rule rd(3))
  show "ToHostWorkRbDescOpcode_try_from (bth_get_opcode (BTH_from_bytes (hdr @ rest))) = Some (mc_opcode (gm_common_meta g))"
    unfolding rd(1) by (rule opcode_roundtrip[OF b0 assms(2)])
  show "general_message ptr (length hdr + length rest) (length hdr) (BTH_from_bytes (hdr @ rest)) (RETH_from_bytes (drop 12 (hdr @ rest))) imm sec =
      Ok \<lparr> ms_meta_data = General \<lparr> gm_common_meta = gm_common_meta g, gm_reth = gm_reth g, gm_imm = map_option Immediate_get imm,
                                    gm_secondary_reth = map_option RethHeader_from sec \<rparr>,
           ms_payload = new_with_data (ptr + of_nat (length hdr)) (of_nat (length rest) - get_pad_cnt p) \<rparr>"
    unfolding rd(1,2) general_roundtrip[OF b0 assms(2)] by simp
qed

lemma reth_header_ok:
  assumes "ms_meta_data message = General g" "meta_wf (General g)" "44 \<le> length buf"
    and "mc_opcode (gm_common_meta g) \<notin> {RdmaWriteLastWithImmediate, RdmaWriteOnlyWithImmediate, RdmaReadRequest}"
  shows "\<exists>hdr. header_ok message buf hdr"
proof -
  have c: "common_wf (gm_common_meta g)" "gm_imm g = None" "gm_secondary_reth g = None" "mc_opcode (gm_common_meta g) \<noteq> Acknowledge"
    using assms(2,4) by (auto simp: meta_wf_def is_read_request_def)
  define hdr where "hdr = general_hdr g (ms_payload message) buf []"
  note rd = general_hdr_read[OF assms(3) c(1) hdr_def]
  have "set_from_rdma_message message buf = Some (Ok (length hdr), hdr @ drop (length hdr) buf)"
    using assms(1,3,4) c rd(1) unfolding hdr_def
    by (cases "mc_opcode (gm_common_meta g)")
      (simp_all add: set_from_rdma_message_def meta_get_opcode_def ReqBthReth_set_from_def Let_def header_sizes general_hdr_def)
  moreover have "to_rdma_message ptr (hdr @ rest) = Some (Ok \<lparr> ms_meta_data = ms_meta_data message,
      ms_payload = new_with_data (ptr + of_nat (length hdr)) (of_nat (length rest) - get_pad_cnt (ms_payload message)) \<rparr>)" for ptr rest
    using rd(2)[of rest] rd(4)[of ptr rest None None] assms(1,4) c rd(1)
    by (cases "mc_opcode (gm_common_meta g)")
      (simp_all add: to_rdma_message_def ReqBthReth_to_rdma_message_def Let_def header_sizes del: drop_append)
  ultimately show ?thesis
    using rd(1) by (auto simp: header_ok_def)
qed

lemma imm_header_ok:
  assumes "ms_meta_data message = General g" "meta_wf (General g)" "44 \<le> length buf"
    and "mc_opcode (gm_common_meta g) \<in> {RdmaWriteLastWithImmediate, RdmaWriteOnlyWithImmediate}"
  shows "\<exists>hdr. header_ok message buf hdr"
proof -
  have c: "common_wf (gm_common_meta g)" "gm_secondary_reth g = None"
    using assms(2,4) by (auto simp: meta_wf_def is_read_request_def)
  obtain imm where imm: "gm_imm g = Some imm"
    using assms(2,4) by (auto simp: meta_wf_def)
  define hdr where "hdr = general_hdr g (ms_payload message) buf (to_be_bytes 4 imm)"
  note rd = general_hdr_read[OF assms(3) c(1) hdr_def]
  have len: "length hdr = 32"
    using rd(1) by simp
  have "set_from_rdma_message message buf = Some (Ok (length hdr), hdr @ drop (length hdr) buf)"
    using assms(1,3,4) c imm unfolding len
    by (auto simp: set_from_rdma_message_def meta_get_opcode_def ReqBthRethImm_set_from_def Let_def header_sizes hdr_def general_hdr_def Immediate_set_def)
  moreover have "to_rdma_message ptr (hdr @ rest) = Some (Ok \<lparr> ms_meta_data = ms_meta_data message,
      ms_payload = new_with_data (ptr + of_nat (length hdr)) (of_nat (length rest) - get_pad_cnt (ms_payload message)) \<rparr>)" for ptr rest
    using rd(2)[of rest] rd(4)[of ptr rest "Some (Immediate (to_be_bytes 4 imm))" None] rd(3)[of rest] assms(1,4) c rd(1) imm
    by (auto simp: to_rdma_message_def ReqBthRethImm_to_rdma_message_def Let_def header_sizes Immediate_get_def simp del: drop_append)
  ultimately show ?thesis
    using rd(1) by (auto simp: header_ok_def)
qed

lemma read_header_ok:
  assumes "ms_meta_data message = General g" "meta_wf (General g)" "44 \<le> length buf"
    and "mc_opcode (gm_common_meta g) = RdmaReadRequest"
  shows "\<exists>hdr. header_ok message buf hdr"
proof -
  have c: "common_wf (gm_common_meta g)" "gm_imm g = None"
    using assms(2,4) by (auto simp: meta_wf_def)
  obtain sec where sec: "gm_secondary_reth g = Some sec"
    using assms(2,4) by (auto simp: meta_wf_def is_read_request_def)
  define r where "r = set_from_reth_header sec (RETH_from_bytes (drop (size_BTH + size_RETH) buf))"
  have r: "reth_wf r" "RethHeader_from r = sec"
    by (simp_all add: r_def set_from_reth_header_wf RethHeader_roundtrip)
  define hdr where "hdr = general_hdr g (ms_payload message) buf (RETH_bytes r)"
  note rd = general_hdr_read[OF assms(3) c(1) hdr_def]
  have len: "length hdr = 44"
    using rd(1) RETH_roundtrip(2)[OF r(1)] by (simp add: header_sizes)
  have "set_from_rdma_message message buf = Some (Ok (length hdr), hdr @ drop (length hdr) buf)"
    using assms(1,3,4) c sec unfolding len
    by (simp add: set_from_rdma_message_def meta_get_opcode_def ReqBthDoubleReth_set_from_def Let_def header_sizes hdr_def r_def general_hdr_def)
  moreover have "to_rdma_message ptr (hdr @ rest) = Some (Ok \<lparr> ms_meta_data = ms_meta_data message,
      ms_payload = new_with_data (ptr + of_nat (length hdr)) (of_nat (length rest) - get_pad_cnt (ms_payload message)) \<rparr>)" for ptr rest
    using rd(2)[of rest] rd(4)[of ptr rest None "Some r"] rd(3)[of rest] assms(1,4) c len sec r(2)
    by (simp add: to_rdma_message_def ReqBthDoubleReth_to_rdma_message_def Let_def header_sizes RETH_roundtrip(1)[OF r(1)] del: drop_append)
  ultimately show ?thesis
    using len by (auto simp: header_ok_def)
qed

lemma aeth_roundtrip:
  fixes code v msn aeth
  defines "a \<equiv> aeth_set_msn msn (set_aeth_code_and_value (ToHostWorkRbDescAethCode_discr code) v aeth)"
  assumes "length (aeth_bytes aeth) = 4" "v < 32" "unat msn < 2 ^ 24"
  shows "length (aeth_bytes a) = 4" "ToHostWorkRbDescAethCode_try_from (get_aeth_code a) = Some code" "get_aeth_value a = v"
    "aeth_get_msn a = msn"
  using assms(2) aeth_byte[OF assms(3), of code] from_be_three[OF assms(4)]
  by (simp_all add: a_def aeth_set_msn_def set_aeth_code_and_value_def get_aeth_code_def get_aeth_value_def aeth_get_msn_def mask_defs)

lemma ack_header_ok:
  assumes "ms_meta_data message = AcknowledgeMeta h" "meta_wf (AcknowledgeMeta h)" "44 \<le> length buf"
  shows "\<exists>hdr. header_ok message buf hdr"
proof -
  let ?p = "get_pad_cnt (ms_payload message)" and ?c = "ah_common_meta h"
  have c: "common_wf ?c" "mc_opcode ?c = Acknowledge" and v: "ah_aeth_value h < 32" "unat (ah_msn h) < 2 ^ 24"
    using assms(2) by (auto simp: meta_wf_def)
  have b0: "bth_wf (BTH_from_bytes buf)"
    using assms(3) by (simp add: from_bytes_wf size_BTH_def)
  define b where "b = set_from_common_meta ?c ?p (BTH_from_bytes buf)"
  define a where "a = aeth_set_msn (ah_msn h) (set_aeth_code_and_value (ToHostWorkRbDescAethCode_discr (ah_aeth_code h))
    (ah_aeth_value h) (AETH_from_bytes (drop size_BTH buf)))"
  have b: "bth_wf b" "common_try_from b = Ok ?c" "ToHostWorkRbDescOpcode_try_from (bth_get_opcode b) = Some Acknowledge"
    "get_packet_real_length n b = n - ?p" for n
    using set_from_common_meta_wf[OF b0] common_roundtrip(1)[OF b0 get_pad_cnt_less] opcode_roundtrip[OF b0 c(1)]
      real_length[OF b0 c(1)] c by (simp_all add: b_def common_wf_def)
  have "length (aeth_bytes (AETH_from_bytes (drop size_BTH buf))) = 4"
    using assms(3) by (simp add: AETH_from_bytes_def header_sizes)
  note a = aeth_roundtrip[OF this v, of "ah_aeth_code h", folded a_def]
  define hdr where "hdr = BTH_bytes b @ aeth_bytes a"
  have rd: "length hdr = 16" "BTH_from_bytes (hdr @ rest) = b" "AETH_from_bytes (drop 12 (hdr @ rest)) = a" for rest
    using BTH_roundtrip[OF b(1)] a(1) by (simp_all add: hdr_def header_sizes AETH_from_bytes_def)
  have "set_from_rdma_message message buf = Some (Ok (length hdr), hdr @ drop (length hdr) buf)"
    using assms(1,3) c unfolding rd(1)
    by (simp add: set_from_rdma_message_def meta_get_opcode_def RespBthAeth_set_from_def Let_def header_sizes hdr_def b_def a_def)
  moreover have "to_rdma_message ptr (hdr @ rest) = Some (Ok \<lparr> ms_meta_data = ms_meta_data message,
      ms_payload = new_with_data (ptr + of_nat (length hdr)) (of_nat (length rest) - ?p) \<rparr>)" for ptr rest
    using a(2-4) b(2-4) assms(1) rd
    by (simp add: to_rdma_message_def RespBthAeth_to_rdma_message_def AethHeader_new_from_packet_def Let_def header_sizes del: drop_append)
  ultimately show ?thesis
    using rd(1) by (auto simp: header_ok_def)
qed

lemma header_roundtrip:
  assumes "meta_wf (ms_meta_data message)" "44 \<le> length buf"
  shows "\<exists>hdr. header_ok message buf hdr"
proof (cases "ms_meta_data message")
  case (General g)
  then show ?thesis
    using assms reth_header_ok[OF General] imm_header_ok[OF General] read_header_ok[OF General] by auto
next
  case (AcknowledgeMeta h)
  then show ?thesis
    using assms ack_header_ok by simp
qed

subsection \<open>Memory and payloads\<close>

lemma read_mem_sub: "h + n \<le> m \<Longrightarrow> read_mem mem (a + of_nat h) n = take n (drop h (read_mem mem a m))"
  by (rule nth_equalityI) (auto simp: read_mem_def add.assoc)

lemma le_word_le_bytes: "le_word (u32_to_le_bytes w) = w"
proof -
  have "u32_to_le_bytes w = rev (to_be_bytes 4 w)"
    by (simp add: u32_to_le_bytes_def to_be_bytes_4)
  then show ?thesis
    using from_to_be[of 4 w] by (simp add: from_be_bytes_def)
qed

subsection \<open>Invariant CRC\<close>

text \<open>The bytes of a packet that the network may change: DSCP and ECN, TTL and the two checksums.\<close>

definition mutable_bytes :: "nat set" where
  "mutable_bytes = {1, 8, 10, 11, 26, 27}"

definition same_invariant :: "u8 list \<Rightarrow> u8 list \<Rightarrow> bool" where
  "same_invariant sent received \<longleftrightarrow>
     length received = length sent \<and> (\<forall>i < length sent. i \<in> mutable_bytes \<or> received ! i = sent ! i)"

lemma same_invariantD:
  assumes "same_invariant sent received"
  shows "length received = length sent" "i < length sent \<Longrightarrow> i \<notin> mutable_bytes \<Longrightarrow> received ! i = sent ! i"
  using assms by (auto simp: same_invariant_def)

lemma same_field:
  assumes "same_invariant net net'" "k + n \<le> length net" "\<And>i. k \<le> i \<Longrightarrow> i < k + n \<Longrightarrow> i \<notin> mutable_bytes"
  shows "take n (drop k (net' @ d)) = take n (drop k (net @ d))"
proof (rule nth_equalityI)
  fix i
  assume "i < length (take n (drop k (net' @ d)))"
  moreover from this have "k + i \<notin> mutable_bytes"
    using assms(3)[of "k + i"] by simp
  ultimately show "take n (drop k (net' @ d)) ! i = take n (drop k (net @ d)) ! i"
    using assms(2) same_invariantD[OF assms(1)] by (auto simp: nth_append)
qed (use assms(1) in \<open>simp add: same_invariant_def\<close>)

lemma same_byte:
  assumes "same_invariant net net'" "i < length net" "i \<notin> mutable_bytes"
  shows "(net' @ d) ! i = (net @ d) ! i"
  using assms by (auto simp: same_invariant_def nth_append)

lemma compute_icrc_cong:
  assumes "same_invariant net net'" "length net = 28"
  shows "compute_icrc crc32 (net' @ d) = compute_icrc crc32 (net @ d)"
proof -
  have len: "length net' = 28"
    using assms by (simp add: same_invariant_def)
  note field = same_field[OF assms(1), of _ _ d, unfolded mutable_bytes_def assms(2)]
  have ip: "ip_set_checksum 0xffff (Ipv4Header_from_bytes (net' @ d)\<lparr> ip_dscp_ecn := 0xff, ip_ttl := 0xff \<rparr>) =
      ip_set_checksum 0xffff (Ipv4Header_from_bytes (net @ d)\<lparr> ip_dscp_ecn := 0xff, ip_ttl := 0xff \<rparr>)"
    using same_byte[OF assms(1), of 0 d] same_byte[OF assms(1), of 9 d] field[of 2 2] field[of 4 2] field[of 6 2] field[of 12 4] field[of 16 4]
    by (simp add: Ipv4Header_from_bytes_def ip_set_checksum_def mutable_bytes_def assms(2) del: drop_append take_append)
  have udp: "udp_set_checksum 0xffff (UdpHeader_from_bytes (drop 20 (net' @ d))) = udp_set_checksum 0xffff (UdpHeader_from_bytes (drop 20 (net @ d)))"
    using field[of 20 2] field[of 22 2] field[of 24 2]
    by (simp add: UdpHeader_from_bytes_def udp_set_checksum_def del: drop_append take_append)
  show ?thesis
    using ip udp by (simp add: compute_icrc_def Let_def net_sizes size_BTH_def assms(2) len)
qed

lemma compute_icrc_Ok:
  assumes "40 \<le> length d" "length t = 4" "length t' = 4"
  shows "compute_icrc crc32 (d @ t) = compute_icrc crc32 (d @ t')" "\<exists>icrc. compute_icrc crc32 (d @ t) = Ok icrc"
proof -
  have "Ipv4Header_from_bytes (d @ u) = Ipv4Header_from_bytes d" "UdpHeader_from_bytes (drop 20 (d @ u)) = UdpHeader_from_bytes (drop 20 d)"
    "BTH_from_bytes (drop 28 (d @ u)) = BTH_from_bytes (drop 28 d)" for u
    using assms(1) by (auto simp: Ipv4Header_from_bytes_def UdpHeader_from_bytes_def BTH_from_bytes_def nth_append)
  then show "compute_icrc crc32 (d @ t) = compute_icrc crc32 (d @ t')" "\<exists>icrc. compute_icrc crc32 (d @ t) = Ok icrc"
    using assms by (simp_all add: compute_icrc_def Let_def net_sizes size_BTH_def del: drop_append)
qed

lemma same_tail:
  assumes "same_invariant (net @ t) received" "length net = 28"
  shows "drop 28 received = t"
proof (rule nth_equalityI)
  fix i
  assume "i < length (drop 28 received)"
  then show "drop 28 received ! i = t ! i"
    using same_invariantD[OF assms(1)] assms(2) by (auto simp: mutable_bytes_def nth_append)
qed (use same_invariantD(1)[OF assms(1)] assms(2) in simp)

text \<open>A packet that ends in its invariant CRC is handed to the header reader, whatever the network changed in it.\<close>

lemma receive_valid:
  assumes "length net = 28" "12 \<le> length d" "compute_icrc crc32 (net @ d @ replicate 4 0) = Ok icrc"
    and "same_invariant (net @ d @ u32_to_le_bytes icrc) received"
    and "to_rdma_message (ptr + 28) d = Some (Ok message)"
  shows "udp_receive crc32 ptr received = Ok (Some message)"
proof -
  define net' where "net' = take 28 received"
  have "length received = 28 + length d + 4"
    using same_invariantD(1)[OF assms(4)] assms(1) by (simp add: u32_to_le_bytes_def)
  then have rx: "received = net' @ d @ u32_to_le_bytes icrc" and net': "length net' = 28"
    using append_take_drop_id[of 28 received] same_tail[OF assms(4,1)] by (simp_all add: net'_def)
  have "same_invariant net net'"
    unfolding same_invariant_def
  proof (intro conjI allI impI)
    fix i
    assume "i < length net"
    then show "i \<in> mutable_bytes \<or> net' ! i = net ! i"
      using same_invariantD(2)[OF assms(4), of i] assms(1) net' by (auto simp: rx nth_append)
  qed (use assms(1) net' in simp)
  then have "compute_icrc crc32 (net' @ d @ replicate 4 0) = Ok icrc"
    using compute_icrc_cong[OF _ assms(1), of net' crc32 "d @ replicate 4 0"] assms(3) by simp
  then show ?thesis
    using assms(2,5) net' le_word_le_bytes[of icrc]
    by (simp add: rx udp_receive_def is_icrc_valid_def Let_def net_sizes size_BTH_def u32_to_le_bytes_def)
qed

text \<open>What is sent: the network headers, the headers of the message, its payload, the padding and the invariant CRC.\<close>

lemma write_ip_udp_header_keeps:
  "28 \<le> length buf \<Longrightarrow>
   \<exists>net. length net = 28 \<and> write_ip_udp_header buf src_addr src_port dest_addr dest_port total_length ip_id = net @ drop 28 buf"
  by (rule exI[of _ "take 28 (write_ip_udp_header buf src_addr src_port dest_addr dest_port total_length ip_id)"])
    (simp add: write_ip_udp_header_def Let_def set_default_header_def set_source_def set_destination_def set_total_length_def
      set_flags_fragment_offset_def set_identification_def ip_set_checksum_def set_source_port_def set_dest_port_def udp_set_length_def
      udp_set_checksum_def Ipv4Header_bytes_def UdpHeader_bytes_def net_sizes octets_def)

lemma send_packet:
  fixes message
  defines "p \<equiv> ms_payload message"
  assumes "header_ok message (replicate 8164 0) hdr"
    and "length (payload_bytes mem p) = unat (py_total_len p)" "length (payload_bytes mem p) \<le> 8113"
  obtains net icrc where "length net = 28"
    and "compute_icrc crc32 (net @ (hdr @ payload_bytes mem p @ replicate (unat (get_pad_cnt p)) 0) @ replicate 4 0) = Ok icrc"
    and "udp_send crc32 mem src_addr src_port ip_id dest_addr dest_port message =
      Ok (Ok (net @ (hdr @ payload_bytes mem p @ replicate (unat (get_pad_cnt p)) 0) @ u32_to_le_bytes icrc))"
proof -
  define bytes where "bytes = payload_bytes mem p"
  define pad where "pad = unat (get_pad_cnt p)"
  define n where "n = 28 + length hdr + length bytes + pad + 4"
  define total where "total = of_nat size_IpUdpHeaders + of_nat (length hdr) + with_pad_length p + of_nat ICRC_SIZE_soft"
  have h: "set_from_rdma_message message (replicate 8164 0) = Some (Ok (length hdr), hdr @ replicate (8164 - length hdr) 0)"
    "length hdr \<le> 44"
    using assms(2) by (auto simp: header_ok_def)
  have pad: "pad < 4"
    using get_pad_cnt_less[of p] by (simp add: pad_def word_less_nat_alt)
  have bytes: "length bytes = unat (py_total_len p)" "length bytes \<le> 8113"
    using assms(3,4) by (simp_all add: bytes_def)
  have n: "n \<le> 8192" "4 \<le> n"
    using pad bytes h(2) by (simp_all add: n_def)
  have "total = of_nat n"
    using bytes(1) by (simp add: total_def n_def with_pad_length_def pad_def net_sizes)
  then have total: "unat total = n"
    using n by (simp add: unat_of_nat)
  let ?zeros = "replicate (8164 - length hdr - length bytes) 0 :: u8 list"
  obtain net where net: "length net = 28"
    "write_ip_udp_header (replicate 28 0 @ hdr @ bytes @ ?zeros) src_addr src_port dest_addr dest_port (ucast total) ip_id =
      net @ hdr @ bytes @ ?zeros"
    using write_ip_udp_header_keeps[of "replicate 28 0 @ hdr @ bytes @ ?zeros" src_addr src_port dest_addr dest_port "ucast total" ip_id]
    by auto
  have split: "net @ hdr @ bytes @ ?zeros = (net @ (hdr @ bytes @ replicate pad 0) @ replicate 4 0) @ replicate (8192 - n) 0"
    using n pad by (simp add: n_def replicate_add[symmetric])
  obtain icrc where icrc: "compute_icrc crc32 (net @ (hdr @ bytes @ replicate pad 0) @ replicate 4 0) = Ok icrc"
    using compute_icrc_Ok(2)[of "net @ hdr @ bytes @ replicate pad 0" "replicate 4 0" "replicate 4 0" crc32] net(1) assms(2)
    by (auto simp: header_ok_def)
  have take: "take n (net @ hdr @ bytes @ ?zeros) = net @ (hdr @ bytes @ replicate pad 0) @ replicate 4 0"
    "take (n - 4) (net @ hdr @ bytes @ ?zeros) = net @ (hdr @ bytes @ replicate pad 0)" "drop n (net @ hdr @ bytes @ ?zeros) = replicate (8192 - n) 0"
    unfolding split using net(1) by (simp_all add: n_def)
  have fold: "32 + (of_nat (length hdr) + with_pad_length (ms_payload message)) = total" "payload_bytes mem (ms_payload message) = bytes"
    by (simp_all add: total_def bytes_def p_def net_sizes)
  have "packet_write crc32 mem ((PacketWriter_new (replicate NET_SERVER_BUF_SIZE 0))\<lparr> pw_src_addr := Some src_addr, pw_src_port := Some src_port,
            pw_dest_addr := Some dest_addr, pw_dest_port := Some dest_port, pw_ip_id := Some ip_id, pw_message := Some message \<rparr>) =
      Ok (Ok n, net @ (hdr @ bytes @ replicate pad 0) @ u32_to_le_bytes icrc @ replicate (8192 - n) 0)"
    using h total n net take icrc bytes(2) fold
    by (simp add: packet_write_def Let_def net_sizes NET_SERVER_BUF_SIZE_def PacketWriter_new_def net_params_def write_payload_def
        word_less_nat_alt)
  then have "udp_send crc32 mem src_addr src_port ip_id dest_addr dest_port message =
      Ok (Ok (net @ (hdr @ bytes @ replicate pad 0) @ u32_to_le_bytes icrc))"
    using net(1) by (simp add: udp_send_def writer_setters n_def u32_to_le_bytes_def)
  then show thesis
    using that[OF net(1)] icrc by (simp add: bytes_def pad_def)
qed

subsection \<open>From agent to agent\<close>

lemma sent_packet_received:
  assumes "meta_wf (ms_meta_data message)"
    and "length (payload_bytes mem (ms_payload message)) = unat (py_total_len (ms_payload message))"
    and "length (payload_bytes mem (ms_payload message)) \<le> 8113"
  shows "\<exists>packet. udp_send crc32 mem src_addr src_port ip_id dest_addr dest_port message = Ok (Ok packet) \<and>
    length packet \<le> NET_SERVER_BUF_SIZE \<and>
    (\<forall>received ptr mem'. same_invariant packet received \<longrightarrow>
       read_mem mem' ptr (length received - ICRC_SIZE_soft) = take (length received - ICRC_SIZE_soft) received \<longrightarrow>
       (\<exists>m src n. udp_receive crc32 ptr received = Ok (Some m) \<and> ms_meta_data m = ms_meta_data message \<and>
            ms_payload m = new_with_data src n \<and> payload_bytes mem' (ms_payload m) = payload_bytes mem (ms_payload message)))"
proof -
  let ?bytes = "payload_bytes mem (ms_payload message)"
  let ?pad = "unat (get_pad_cnt (ms_payload message))"
  obtain hdr where hdr: "header_ok message (replicate 8164 0) hdr"
    using header_roundtrip[OF assms(1), of "replicate 8164 0"] by auto
  obtain net icrc where net: "length net = 28"
    and icrc: "compute_icrc crc32 (net @ (hdr @ ?bytes @ replicate ?pad 0) @ replicate 4 0) = Ok icrc"
    and sent: "udp_send crc32 mem src_addr src_port ip_id dest_addr dest_port message =
      Ok (Ok (net @ (hdr @ ?bytes @ replicate ?pad 0) @ u32_to_le_bytes icrc))" (is "_ = Ok (Ok ?packet)")
    by (rule send_packet[OF hdr assms(2,3)])
  have pad: "?pad < 4"
    using get_pad_cnt_less[of "ms_payload message"] by (simp add: word_less_nat_alt)
  have h: "length hdr \<le> 44" "12 \<le> length hdr"
    using hdr by (auto simp: header_ok_def)
  have "\<exists>m src n. udp_receive crc32 ptr received = Ok (Some m) \<and> ms_meta_data m = ms_meta_data message \<and>
      ms_payload m = new_with_data src n \<and> payload_bytes mem' (ms_payload m) = ?bytes"
    if same: "same_invariant ?packet received"
      and mem': "read_mem mem' ptr (length received - ICRC_SIZE_soft) = take (length received - ICRC_SIZE_soft) received" for received ptr mem'
  proof -
    define q where "q = new_with_data (ptr + 28 + of_nat (length hdr)) (of_nat (length ?bytes))"
    have "to_rdma_message (ptr + 28) (hdr @ ?bytes @ replicate ?pad 0) = Some (Ok \<lparr> ms_meta_data = ms_meta_data message, ms_payload = q \<rparr>)"
      using hdr by (simp add: header_ok_def q_def)
    then have "udp_receive crc32 ptr received = Ok (Some \<lparr> ms_meta_data = ms_meta_data message, ms_payload = q \<rparr>)"
      using receive_valid[OF net _ icrc same] h(2) by simp
    moreover have "payload_bytes mem' q = ?bytes"
    proof -
      have len: "length received = 28 + length hdr + length ?bytes + ?pad + 4"
        using same_invariantD(1)[OF same] net by (simp add: u32_to_le_bytes_def)
      have "payload_bytes mem' q = read_mem mem' (ptr + of_nat (28 + length hdr)) (length ?bytes)"
        using assms(3) by (simp add: payload_bytes_def q_def new_with_data_def unat_of_nat add.assoc)
      also have "\<dots> = take (length ?bytes) (drop (28 + length hdr) (take (length received - ICRC_SIZE_soft) received))"
        unfolding mem'[symmetric] by (rule read_mem_sub) (simp add: len ICRC_SIZE_soft_def)
      also have "\<dots> = take (length ?bytes) (drop (length hdr) (drop 28 received))"
        using len by (simp add: drop_take ICRC_SIZE_soft_def add.commute)
      also have "\<dots> = ?bytes"
        using same_tail[OF same net] by simp
      finally show ?thesis .
    qed
    ultimately show ?thesis
      using q_def by (intro exI[of _ "\<lparr> ms_meta_data = ms_meta_data message, ms_payload = q \<rparr>"]) auto
  qed
  moreover have "length ?packet \<le> NET_SERVER_BUF_SIZE"
    using h pad assms(3) net by (simp add: NET_SERVER_BUF_SIZE_def u32_to_le_bytes_def)
  ultimately show ?thesis
    using sent by blast
qed

text \<open>
  C6. A message whose fields fit the wire is sent as one packet of at most 8192 bytes. The receiving agent reads
  the metadata and the payload that were sent from this packet, also when the network changed the bytes
  that the invariant CRC does not cover: DSCP and ECN, TTL and the checksums.
\<close>

theorem packet_roundtrip:
  assumes "meta_wf (ms_meta_data message)"
    and "length (payload_bytes mem (ms_payload message)) = unat (py_total_len (ms_payload message))"
    and "length (payload_bytes mem (ms_payload message)) \<le> 8113"
  shows "\<exists>packet. udp_send crc32 mem src_addr src_port ip_id dest_addr dest_port message = Ok (Ok packet) \<and>
    length packet \<le> NET_SERVER_BUF_SIZE \<and>
    (\<forall>received ptr mem'. same_invariant packet received \<longrightarrow>
       read_mem mem' ptr (length received - ICRC_SIZE_soft) = take (length received - ICRC_SIZE_soft) received \<longrightarrow>
       (\<exists>m. udp_receive crc32 ptr received = Ok (Some m) \<and> ms_meta_data m = ms_meta_data message \<and>
            payload_bytes mem' (ms_payload m) = payload_bytes mem (ms_payload message)))"
  using sent_packet_received[OF assms] by meson

definition sample_message :: RdmaMessage where
  "sample_message =
     \<lparr> ms_meta_data = General
         \<lparr> gm_common_meta = \<lparr> mc_tran_type = TtRc, mc_opcode = RdmaWriteOnlyWithImmediate, mc_solicited = True,
              mc_pkey = PKey 1, mc_dqpn = SQpn 0x123456, mc_ack_req = True, mc_psn = psn_new 0xFFFFFF \<rparr>,
           gm_reth = \<lparr> rh_va = 0x7f0000001000, rh_rkey = SKey 77, rh_len = 5 \<rparr>, gm_imm = Some 9, gm_secondary_reth = None \<rparr>,
       ms_payload = payload_add 900 3 (payload_add 500 2 PayloadInfo_new) \<rparr>"

theorem packet_roundtrip_witness:
  "payload_bytes ucast (ms_payload sample_message) = [0xF4, 0xF5, 0x84, 0x85, 0x86] \<and>
   (\<exists>packet. udp_send (\<lambda>bs. of_nat (length bs)) ucast 0x0A000001 4791 7 0x0A000002 4791 sample_message = Ok (Ok packet) \<and>
     (\<forall>ptr mem'. read_mem mem' ptr (length packet - ICRC_SIZE_soft) = take (length packet - ICRC_SIZE_soft) packet \<longrightarrow>
       (\<exists>m. udp_receive (\<lambda>bs. of_nat (length bs)) ptr packet = Ok (Some m) \<and> ms_meta_data m = ms_meta_data sample_message \<and>
            payload_bytes mem' (ms_payload m) = [0xF4, 0xF5, 0x84, 0x85, 0x86])))"
proof -
  have b: "payload_bytes ucast (ms_payload sample_message) = [0xF4, 0xF5, 0x84, 0x85, 0x86]"
    by (simp add: sample_message_def payload_bytes_def payload_add_def PayloadInfo_new_def read_mem_def upt_conv_Cons)
  have "meta_wf (ms_meta_data sample_message)"
    by (simp add: sample_message_def meta_wf_def common_wf_def is_read_request_def)
  moreover have "length (payload_bytes ucast (ms_payload sample_message)) = unat (py_total_len (ms_payload sample_message))"
    by (simp add: b) (simp add: sample_message_def payload_add_def PayloadInfo_new_def)
  ultimately obtain packet where
    "udp_send (\<lambda>bs. of_nat (length bs)) ucast 0x0A000001 4791 7 0x0A000002 4791 sample_message = Ok (Ok packet)"
    "\<forall>received ptr mem'. same_invariant packet received \<longrightarrow>
       read_mem mem' ptr (length received - ICRC_SIZE_soft) = take (length received - ICRC_SIZE_soft) received \<longrightarrow>
       (\<exists>m. udp_receive (\<lambda>bs. of_nat (length bs)) ptr received = Ok (Some m) \<and> ms_meta_data m = ms_meta_data sample_message \<and>
            payload_bytes mem' (ms_payload m) = payload_bytes ucast (ms_payload sample_message))"
    using packet_roundtrip[of sample_message ucast "\<lambda>bs. of_nat (length bs)" "0x0A000001" 4791 7 "0x0A000002" 4791]
    by (auto simp: b)
  moreover have "same_invariant packet packet"
    by (simp add: same_invariant_def)
  ultimately show ?thesis
    using b by (intro conjI exI[of _ packet]) auto
qed

text \<open>
  A packet that ends after its base header and carries a valid CRC passes the length check, and the reader of a
  write header then reads past it.
\<close>

lemma short_packet_overread:
  assumes "length net = 28" "bth_wf b" "ToHostWorkRbDescOpcode_try_from (bth_get_opcode b) = Some RdmaWriteFirst"
  shows "\<exists>icrc. udp_receive crc32 ptr (net @ BTH_bytes b @ u32_to_le_bytes icrc) = Err OutOfBuffer"
proof -
  have b: "BTH_from_bytes (BTH_bytes b) = b" "length (BTH_bytes b) = size_BTH"
    using BTH_roundtrip(1)[OF assms(2), of "[]"] BTH_roundtrip(2)[OF assms(2)] by simp_all
  obtain icrc where icrc: "compute_icrc crc32 (net @ BTH_bytes b @ replicate 4 0) = Ok icrc"
    using compute_icrc_Ok(2)[of "net @ BTH_bytes b" "replicate 4 0" "replicate 4 0" crc32] assms(1) b by (auto simp: size_BTH_def)
  have "to_rdma_message (ptr + 28) (BTH_bytes b) = None"
    using b assms(3) by (simp add: to_rdma_message_def ReqBthReth_to_rdma_message_def header_sizes)
  then have "udp_receive crc32 ptr (net @ BTH_bytes b @ u32_to_le_bytes icrc) = Err OutOfBuffer"
    using icrc b(2) assms(1) le_word_le_bytes[of icrc]
    by (simp add: udp_receive_def is_icrc_valid_def Let_def net_sizes size_BTH_def u32_to_le_bytes_def ok_or_def)
  then show ?thesis ..
qed

end
