(* ===== verification/Soft_Logic.thy ===== *)
theory Soft_Logic
  imports Soft_Packet Scheduler
begin

unbundle bit_operations_syntax

text \<open>
  The logic of the software card, \<^verbatim>\<open>src/device/software/logic.rs\<close>, with the scatter gather lists and
  descriptors of \<^verbatim>\<open>software/types.rs\<close>, the agent of \<^verbatim>\<open>net_agent/udp_agent.rs\<close> around the socket and the
  queues of \<^verbatim>\<open>software/mod.rs\<close>.

  The agent that sends is behind a trait object: a record of its functions on a state of its own. The locks of
  the tables are not poisoned, and both ends of the queues to the host are held by the device.
\<close>

subsection \<open>Scatter gather lists\<close>

record SGListElementWithKey =
  ek_addr :: u64
  ek_len :: u32
  ek_key :: soft_Key

definition SGListElementWithKey_default :: SGListElementWithKey where
  "SGListElementWithKey_default = \<lparr> ek_addr = 0, ek_len = 0, ek_key = SKey 0 \<rparr>"

definition SGListElementWithKey_from :: "DescSge \<Rightarrow> SGListElementWithKey" where
  "SGListElementWithKey_from sge = \<lparr> ek_addr = ds_addr sge, ek_len = ds_len sge, ek_key = SKey (key_get (ds_key sge)) \<rparr>"

record soft_SGList =
  sl_data :: "SGListElementWithKey list"
  sl_cur_level :: u32
  sl_len :: u32

definition new_with_sge :: "DescSge \<Rightarrow> soft_SGList" where
  "new_with_sge sge =
     \<lparr> sl_data = [SGListElementWithKey_from sge, SGListElementWithKey_default, SGListElementWithKey_default, SGListElementWithKey_default],
       sl_cur_level = 0, sl_len = 1 \<rparr>"

definition soft_get_total_length :: "soft_SGList \<Rightarrow> u32" where
  "soft_get_total_length self = sum_list (map ek_len (sl_data self))"

definition get_sge_from_option :: "DescSge option \<Rightarrow> SGListElementWithKey \<times> u32" where
  "get_sge_from_option sge =
     (case sge of Some sge \<Rightarrow> (SGListElementWithKey_from sge, 1) | None \<Rightarrow> (SGListElementWithKey_default, 0))"

definition new_with_sge_list :: "DescSge \<Rightarrow> DescSge option \<Rightarrow> DescSge option \<Rightarrow> DescSge option \<Rightarrow> soft_SGList" where
  "new_with_sge_list sge0 sge1 sge2 sge3 =
     (let sge0 = SGListElementWithKey_from sge0;
          counter = 1;
          (sge1, sge1_counter) = get_sge_from_option sge1;
          counter = counter + sge1_counter;
          (sge2, sge2_counter) = get_sge_from_option sge2;
          counter = counter + sge2_counter;
          (sge3, sge3_counter) = get_sge_from_option sge3;
          counter = counter + sge3_counter
      in \<lparr> sl_data = [sge0, sge1, sge2, sge3], sl_cur_level = 0, sl_len = counter \<rparr>)"

datatype NetAgentError =
    NaPacket PacketError
  | NaIo string
  | NaPacketProcess PacketProcessorError
  | SetSockOptFailed int
  | WrongBytesSending nat nat
  | InvalidRdmaMessage string

datatype BlueRdmaLogicError =
    NetAgentErr NetAgentError
  | RawPacketLengthTooLong u32 u32
  | PoisonError
  | Unreachable

text \<open>The index of the loop into the array of four elements panics out of range.\<close>

function soft_cut_loop ::
  "nat \<Rightarrow> u32 \<Rightarrow> PayloadInfo \<Rightarrow> soft_SGList \<Rightarrow> (packet_fault, (BlueRdmaLogicError, PayloadInfo) result \<times> soft_SGList) result" where
  "soft_cut_loop current_level len payload self =
     (if (of_nat current_level :: u32) < sl_len self then
        if length (sl_data self) \<le> current_level then Err Panicked
        else
          let element = sl_data self ! current_level
          in if ek_len element \<ge> len then
               let payload = payload_add (ek_addr element) (ucast len) payload;
                   element = element\<lparr> ek_addr := ek_addr element + ucast len, ek_len := ek_len element - len \<rparr>;
                   self = self\<lparr> sl_data := (sl_data self)[current_level := element] \<rparr>
               in Ok (Ok payload, if ek_len element = 0 then self\<lparr> sl_cur_level := of_nat (current_level + 1) \<rparr> else self)
             else
               let payload = payload_add (ek_addr element) (ucast (ek_len element)) payload;
                   self = self\<lparr> sl_data := (sl_data self)[current_level := element\<lparr> ek_len := 0 \<rparr>] \<rparr>
               in soft_cut_loop (current_level + 1) (len - ek_len element) payload self
      else Ok (Err Unreachable, self))"
  by pat_completeness auto
termination
  by (relation "measure (\<lambda>(current_level, len, payload, self). length (sl_data self) - current_level)") auto

declare soft_cut_loop.simps [simp del]

definition soft_cut :: "u32 \<Rightarrow> soft_SGList \<Rightarrow> (packet_fault, (BlueRdmaLogicError, PayloadInfo) result \<times> soft_SGList) result" where
  "soft_cut len self = soft_cut_loop (unat (sl_cur_level self)) len PayloadInfo_new self"

definition cut_all_levels :: "soft_SGList \<Rightarrow> PayloadInfo \<times> soft_SGList" where
  "cut_all_levels self =
     (fold (\<lambda>data payload. payload_add (ek_addr data) (ucast (ek_len data)) payload) (sl_data self) PayloadInfo_new,
      self\<lparr> sl_data := map (\<lambda>data. data\<lparr> ek_len := 0 \<rparr>) (sl_data self) \<rparr>)"

subsection \<open>Descriptors of the card\<close>

record ToCardWriteDescriptor =
  tw_opcode :: ToCardWorkRbDescOpcode
  tw_common :: ToCardWorkRbDescCommon
  tw_imm :: "u32 option"
  tw_is_first :: bool
  tw_is_last :: bool
  tw_sg_list :: soft_SGList

record ToCardReadDescriptor =
  tr_common :: ToCardWorkRbDescCommon
  tr_sge :: soft_SGList

datatype ToCardDescriptor = TWrite ToCardWriteDescriptor | TRead ToCardReadDescriptor

definition tw_is_resp :: "ToCardWriteDescriptor \<Rightarrow> bool" where
  "tw_is_resp self \<longleftrightarrow> tw_opcode self = CoReadResp"

definition tw_has_imm :: "ToCardWriteDescriptor \<Rightarrow> bool" where
  "tw_has_imm self \<longleftrightarrow> tw_imm self \<noteq> None"

definition write_only_opcode_with_imm :: "ToCardWriteDescriptor \<Rightarrow> ToHostWorkRbDescOpcode \<times> u32 option" where
  "write_only_opcode_with_imm self =
     (if tw_is_first self \<and> tw_is_last self then
        (if tw_is_resp self then (RdmaReadResponseOnly, None)
         else if tw_has_imm self then (RdmaWriteOnlyWithImmediate, tw_imm self) else (RdmaWriteOnly, None))
      else if tw_is_first self then
        (if tw_is_resp self then (RdmaReadResponseFirst, None) else (RdmaWriteFirst, None))
      else
        (if tw_is_resp self then (RdmaReadResponseLast, None)
         else if tw_has_imm self then (RdmaWriteLastWithImmediate, tw_imm self) else (RdmaWriteLast, None)))"

definition write_first_opcode :: "ToCardWriteDescriptor \<Rightarrow> ToHostWorkRbDescOpcode" where
  "write_first_opcode self =
     (case (tw_is_first self, tw_is_resp self) of
        (True, True) \<Rightarrow> RdmaReadResponseFirst
      | (True, False) \<Rightarrow> RdmaWriteFirst
      | (False, True) \<Rightarrow> RdmaReadResponseMiddle
      | (False, False) \<Rightarrow> RdmaWriteMiddle)"

definition write_middle_opcode :: "ToCardWriteDescriptor \<Rightarrow> ToHostWorkRbDescOpcode" where
  "write_middle_opcode self = (if tw_is_resp self then RdmaReadResponseMiddle else RdmaWriteMiddle)"

definition write_last_opcode_with_imm :: "ToCardWriteDescriptor \<Rightarrow> ToHostWorkRbDescOpcode \<times> u32 option" where
  "write_last_opcode_with_imm self =
     (case (tw_is_last self, tw_is_resp self, tw_has_imm self) of
        (True, True, _) \<Rightarrow> (RdmaReadResponseLast, None)
      | (True, False, True) \<Rightarrow> (RdmaWriteLastWithImmediate, tw_imm self)
      | (True, False, False) \<Rightarrow> (RdmaWriteLast, None)
      | (False, True, _) \<Rightarrow> (RdmaReadResponseMiddle, None)
      | (False, False, _) \<Rightarrow> (RdmaWriteMiddle, None))"

definition is_raw_packet :: "ToCardDescriptor \<Rightarrow> bool" where
  "is_raw_packet self =
     (case self of
        TWrite desc \<Rightarrow> tw_opcode desc = CoWriteWithImm \<and> wc_qp_type (tw_common desc) = RawPacket
      | TRead _ \<Rightarrow> False)"

definition desc_common :: "ToCardDescriptor \<Rightarrow> ToCardWorkRbDescCommon" where
  "desc_common self = (case self of TWrite desc \<Rightarrow> tw_common desc | TRead desc \<Rightarrow> tr_common desc)"

definition first_sge_mut :: "ToCardDescriptor \<Rightarrow> soft_SGList" where
  "first_sge_mut self = (case self of TWrite desc \<Rightarrow> tw_sg_list desc | TRead desc \<Rightarrow> tr_sge desc)"

definition write_descriptor :: "ToCardWorkRbDescOpcode \<Rightarrow> u32 option \<Rightarrow> 'a ToCardWorkRbDescWrite_scheme \<Rightarrow> ToCardWriteDescriptor" where
  "write_descriptor opcode imm desc =
     \<lparr> tw_opcode = opcode, tw_common = cw_common desc, tw_imm = imm, tw_is_first = cw_is_first desc, tw_is_last = cw_is_last desc,
       tw_sg_list = new_with_sge_list (cw_sge0 desc) (cw_sge1 desc) (cw_sge2 desc) (cw_sge3 desc) \<rparr>"

fun ToCardDescriptor_from :: "ToCardWorkRbDesc \<Rightarrow> ToCardDescriptor" where
  "ToCardDescriptor_from (CWrite desc) = TWrite (write_descriptor CoWrite None desc)"
| "ToCardDescriptor_from (CRead desc) = TRead \<lparr> tr_common = cr_common desc, tr_sge = new_with_sge (cr_sge desc) \<rparr>"
| "ToCardDescriptor_from (CWriteWithImm desc) = TWrite (write_descriptor CoWriteWithImm (Some (ci_imm desc)) desc)"
| "ToCardDescriptor_from (CReadResp desc) = TWrite (write_descriptor CoReadResp None desc)"

fun TransType_from :: "QpType \<Rightarrow> ToHostWorkRbDescTransType" where
  "TransType_from Rc = TtRc"
| "TransType_from RawPacket = TtRc"
| "TransType_from Ud = TtUd"
| "TransType_from Uc = TtUc"
| "TransType_from XrcRecv = TtXrc"
| "TransType_from XrcSend = TtXrc"

subsection \<open>Sending\<close>

text \<open>The trait \<^verbatim>\<open>NetSendAgent\<close>. An outer \<^const>\<open>Inl\<close> is a panic or an access outside a buffer.\<close>

record 'n NetSendAgent =
  na_send :: "Ipv4Addr \<Rightarrow> u16 \<Rightarrow> RdmaMessage \<Rightarrow> 'n \<Rightarrow> (packet_fault, (NetAgentError, unit) result \<times> 'n) result"
  na_send_raw :: "Ipv4Addr \<Rightarrow> u16 \<Rightarrow> PayloadInfo \<Rightarrow> 'n \<Rightarrow> (packet_fault, (NetAgentError, unit) result \<times> 'n) result"

type_synonym ('n, 'a) net = "'n \<Rightarrow> (packet_fault, (BlueRdmaLogicError, 'a) result \<times> 'n) result"

definition net_return :: "'a \<Rightarrow> ('n, 'a) net" where
  "net_return x s = Ok (Ok x, s)"

definition net_bind :: "('n, 'a) net \<Rightarrow> ('a \<Rightarrow> ('n, 'b) net) \<Rightarrow> ('n, 'b) net" where
  "net_bind m f s = result_bind (m s) (\<lambda>(r, s). case r of Inl e \<Rightarrow> Ok (Err e, s) | Inr x \<Rightarrow> f x s)"

text \<open>A call of the agent with \<^verbatim>\<open>?\<close>, and a cut with \<^verbatim>\<open>?\<close>.\<close>

definition net_call :: "('n \<Rightarrow> (packet_fault, (NetAgentError, unit) result \<times> 'n) result) \<Rightarrow> ('n, unit) net" where
  "net_call m s = result_bind (m s) (\<lambda>(r, s). Ok (case r of Inl e \<Rightarrow> Err (NetAgentErr e) | Inr x \<Rightarrow> Ok x, s))"

definition net_cut :: "u32 \<Rightarrow> soft_SGList \<Rightarrow> ('n, PayloadInfo \<times> soft_SGList) net" where
  "net_cut len sg_list s = result_bind (soft_cut len sg_list) (\<lambda>(r, sg_list). Ok (result_bind r (\<lambda>payload. Ok (payload, sg_list)), s))"

definition DEST_PORT :: u16 where "DEST_PORT = 4791"

definition send_raw_packet :: "'n NetSendAgent \<Rightarrow> ToCardDescriptor \<Rightarrow> ('n, unit) net" where
  "send_raw_packet agent desc =
     (let common = desc_common desc;
          total_length = wc_total_len common;
          pmtu = pmtu_u32 (wc_pmtu common)
      in if total_length > pmtu then (\<lambda>s. Ok (Err (RawPacketLengthTooLong pmtu total_length), s))
         else net_bind (net_cut total_length (first_sge_mut desc)) (\<lambda>(payload, _).
                net_call (na_send_raw agent (wc_dqp_ip common) DEST_PORT payload)))"

definition send_general :: "'n NetSendAgent \<Rightarrow> ToCardWriteDescriptor \<Rightarrow> RdmaGeneralMeta \<Rightarrow> PayloadInfo \<Rightarrow> ('n, unit) net" where
  "send_general agent req meta_data payload =
     net_call (na_send agent (wc_dqp_ip (tw_common req)) DEST_PORT \<lparr> ms_meta_data = General meta_data, ms_payload = payload \<rparr>)"

abbreviation set_opcode :: "ToHostWorkRbDescOpcode \<Rightarrow> RdmaGeneralMeta \<Rightarrow> RdmaGeneralMeta" where
  "set_opcode opcode m \<equiv> m\<lparr> gm_common_meta := (gm_common_meta m)\<lparr> mc_opcode := opcode \<rparr> \<rparr>"

abbreviation set_meta_psn :: "Psn \<Rightarrow> RdmaGeneralMeta \<Rightarrow> RdmaGeneralMeta" where
  "set_meta_psn psn m \<equiv> m\<lparr> gm_common_meta := (gm_common_meta m)\<lparr> mc_psn := psn \<rparr> \<rparr>"

abbreviation set_reth_va :: "u64 \<Rightarrow> RdmaGeneralMeta \<Rightarrow> RdmaGeneralMeta" where
  "set_reth_va va m \<equiv> m\<lparr> gm_reth := (gm_reth m)\<lparr> rh_va := va \<rparr> \<rparr>"

abbreviation set_reth_len :: "u32 \<Rightarrow> RdmaGeneralMeta \<Rightarrow> RdmaGeneralMeta" where
  "set_reth_len len m \<equiv> m\<lparr> gm_reth := (gm_reth m)\<lparr> rh_len := len \<rparr> \<rparr>"

definition send_write_only_packet :: "'n NetSendAgent \<Rightarrow> ToCardWriteDescriptor \<Rightarrow> RdmaGeneralMeta \<Rightarrow> ('n, unit) net" where
  "send_write_only_packet agent req meta_data =
     (let (payload, sg_list) = cut_all_levels (tw_sg_list req);
          req = req\<lparr> tw_sg_list := sg_list \<rparr>;
          (opcode, imm) = write_only_opcode_with_imm req;
          meta_data = set_opcode opcode meta_data;
          meta_data = meta_data\<lparr> gm_imm := imm \<rparr>;
          meta_data = set_reth_len
            (if opcode_is_first opcode then wc_total_len (tw_common req) else soft_get_total_length (tw_sg_list req)) meta_data
      in send_general agent req meta_data payload)"

definition send_read_packet :: "'n NetSendAgent \<Rightarrow> ToCardReadDescriptor \<Rightarrow> RdmaMessageMetaCommon \<Rightarrow> ('n, unit) net" where
  "send_read_packet agent req common_meta =
     (let local_sa = sl_data (tr_sge req) ! 0;
          common_meta = common_meta\<lparr> mc_opcode := RdmaReadRequest \<rparr>;
          msg = \<lparr> ms_meta_data = General \<lparr> gm_common_meta = common_meta,
                    gm_reth = \<lparr> rh_va = wc_raddr (tr_common req), rh_rkey = SKey (key_get (wc_rkey (tr_common req))),
                                rh_len = wc_total_len (tr_common req) \<rparr>,
                    gm_imm = None,
                    gm_secondary_reth = Some \<lparr> rh_va = ek_addr local_sa, rh_rkey = ek_key local_sa, rh_len = ek_len local_sa \<rparr> \<rparr>,
                  ms_payload = PayloadInfo_new \<rparr>
      in net_call (na_send agent (wc_dqp_ip (tr_common req)) DEST_PORT msg))"

text \<open>The loop over the packets of full size.\<close>

function send_middle ::
  "'n NetSendAgent \<Rightarrow> ToCardWriteDescriptor \<Rightarrow> RdmaGeneralMeta \<Rightarrow> u32 \<Rightarrow> u64 \<Rightarrow> Psn \<Rightarrow>
   ('n, ToCardWriteDescriptor \<times> RdmaGeneralMeta \<times> u32 \<times> u64 \<times> Psn) net" where
  "send_middle agent req meta_data cur_len cur_va psn =
     (let pmtu = pmtu_u32 (wc_pmtu (tw_common req))
      in if cur_len > pmtu then
           net_bind (net_cut pmtu (tw_sg_list req)) (\<lambda>(middle_payload, sg_list).
             let meta_data = set_opcode (write_middle_opcode req) meta_data;
                 meta_data = set_reth_va cur_va meta_data;
                 meta_data = set_meta_psn psn meta_data
             in net_bind (send_general agent req meta_data middle_payload) (\<lambda>_.
                  send_middle agent (req\<lparr> tw_sg_list := sg_list \<rparr>) meta_data (cur_len - pmtu) (cur_va + ucast pmtu) (wrapping_add psn 1)))
         else net_return (req, meta_data, cur_len, cur_va, psn))"
  by pat_completeness auto
termination
proof (relation "measure (\<lambda>(agent, req, meta_data, cur_len, cur_va, psn). unat cur_len)", goal_cases)
  case (2 agent req meta_data cur_len cur_va psn pmtu)
  have "0 < pmtu"
    unfolding 2(1) by (cases "wc_pmtu (tw_common req)") simp_all
  then show ?case
    using 2(2) by (auto simp: word_less_nat_alt unat_sub_if')
qed simp

declare send_middle.simps [simp del]

definition send_write :: "'n NetSendAgent \<Rightarrow> ToCardWriteDescriptor \<Rightarrow> RdmaMessageMetaCommon \<Rightarrow> ('n, unit) net" where
  "send_write agent req common_meta =
     (let pmtu = pmtu_u32 (wc_pmtu (tw_common req));
          raddr = wc_raddr (tw_common req);
          first_packet_max_length = get_first_packet_max_length raddr pmtu;
          meta_data = \<lparr> gm_common_meta = common_meta,
             gm_reth = \<lparr> rh_va = raddr, rh_rkey = SKey (key_get (wc_rkey (tw_common req))), rh_len = wc_total_len (tw_common req) \<rparr>,
             gm_imm = None, gm_secondary_reth = None \<rparr>;
          sge_total_length = soft_get_total_length (tw_sg_list req)
      in if sge_total_length \<le> first_packet_max_length then send_write_only_packet agent req meta_data
         else
           let cur_va = raddr; cur_len = sge_total_length; psn = wc_psn (tw_common req);
               first_packet_length = first_packet_max_length
           in net_bind (net_cut first_packet_length (tw_sg_list req)) (\<lambda>(payload, sg_list).
                let req = req\<lparr> tw_sg_list := sg_list \<rparr>;
                    meta_data = set_opcode (write_first_opcode req) meta_data;
                    meta_data = set_reth_len
                      (if opcode_is_first (write_first_opcode req) then wc_total_len (tw_common req) else first_packet_length) meta_data;
                    meta_data = set_reth_va cur_va meta_data;
                    cur_len = cur_len - first_packet_length;
                    psn = wrapping_add psn 1;
                    cur_va = cur_va + ucast first_packet_length
                in net_bind (send_general agent req meta_data payload) (\<lambda>_.
                   net_bind (send_middle agent req (set_reth_len pmtu meta_data) cur_len cur_va psn) (\<lambda>(req, meta_data, cur_len, cur_va, psn).
                   net_bind (net_cut cur_len (tw_sg_list req)) (\<lambda>(last_payload, sg_list).
                     let (opcode, imm) = write_last_opcode_with_imm req;
                         meta_data = set_opcode opcode meta_data;
                         meta_data = set_meta_psn psn meta_data;
                         meta_data = meta_data\<lparr> gm_imm := imm \<rparr>;
                         meta_data = set_reth_va cur_va meta_data;
                         meta_data = set_reth_len cur_len meta_data
                     in send_general agent req meta_data last_payload)))))"

definition logic_send :: "'n NetSendAgent \<Rightarrow> ToCardWorkRbDesc \<Rightarrow> ('n, unit) net" where
  "logic_send agent desc =
     (let desc = ToCardDescriptor_from desc
      in if is_raw_packet desc then send_raw_packet agent desc
         else
           let common = desc_common desc;
               common_meta = \<lparr> mc_tran_type = TransType_from (wc_qp_type common), mc_opcode = RdmaWriteOnly, mc_solicited = False,
                 mc_pkey = PKey (msn_get (wc_msn common)), mc_dqpn = SQpn (psn_get (wc_dqpn common)), mc_ack_req = False,
                 mc_psn = psn_new (psn_get (wc_psn common)) \<rparr>
           in case desc of
                TWrite req \<Rightarrow> send_write agent req common_meta
              | TRead req \<Rightarrow> send_read_packet agent req common_meta)"

subsection \<open>State of the card\<close>

datatype PDHandle = PDHandle u32

record QueuePairInner =
  qi_pmtu :: Pmtu
  qi_qp_type :: QpType
  qi_qp_access_flags :: MemAccessTypeFlag
  qi_pdkey :: PDHandle

record QueuePair =
  qpair_inner :: QueuePairInner

record MemoryRegion =
  mr_key :: soft_Key
  mr_acc_flags :: MemAccessTypeFlag
  mr_pdkey :: PDHandle
  mr_addr :: u64
  mr_len :: usize
  mr_pgt_offset :: u32

text \<open>The tables and the two queues to the host.\<close>

record BlueRDMALogic =
  bl_mr_rkey_table :: "soft_Key \<rightharpoonup> MemoryRegion"
  bl_qp_table :: "soft_Qpn \<rightharpoonup> QueuePair"
  bl_data_queue :: "ToHostWorkRbDesc list"
  bl_ctrl_queue :: "ToHostCtrlRbDesc list"

definition BlueRDMALogic_new :: BlueRDMALogic where
  "BlueRDMALogic_new = \<lparr> bl_mr_rkey_table = Map.empty, bl_qp_table = Map.empty, bl_data_queue = [], bl_ctrl_queue = [] \<rparr>"

fun to_host_ctrl_opcode :: "ToCardCtrlRbDesc \<Rightarrow> CtrlRbDescOpcode" where
  "to_host_ctrl_opcode (UpdateMrTable _) = OpUpdateMrTable"
| "to_host_ctrl_opcode (UpdatePageTable _) = OpUpdatePageTable"
| "to_host_ctrl_opcode (QpManagement _) = OpQpManagement"
| "to_host_ctrl_opcode (SetNetworkParam _) = OpSetNetworkParam"
| "to_host_ctrl_opcode (SetRawPacketReceiveMeta _) = OpSetRawPacketReceiveMeta"
| "to_host_ctrl_opcode (UpdateErrorPsnRecoverPoint _) = OpUpdateErrorPsnRecoverPoint"

definition update_qp :: "ToCardCtrlRbDescQpManagement \<Rightarrow> BlueRDMALogic \<Rightarrow> bool \<times> BlueRDMALogic" where
  "update_qp desc self =
     (let qp_table = bl_qp_table self;
          qpn = SQpn (psn_get (qm_qpn desc));
          qp_inner = \<lparr> qi_pmtu = qm_pmtu desc, qi_qp_type = qm_qp_type desc, qi_qp_access_flags = qm_rq_acc_flags desc,
                       qi_pdkey = PDHandle (qm_pd_hdl desc) \<rparr>
      in if qm_is_valid desc then (True, self\<lparr> bl_qp_table := qp_table(qpn \<mapsto> \<lparr> qpair_inner = qp_inner \<rparr>) \<rparr>)
         else if qp_table qpn \<noteq> None then (True, self\<lparr> bl_qp_table := qp_table(qpn := None) \<rparr>)
         else (False, self))"

definition update_mr :: "ToCardCtrlRbDescUpdateMrTable \<Rightarrow> BlueRDMALogic \<Rightarrow> BlueRDMALogic" where
  "update_mr desc self =
     (let key = SKey (key_get (um_key desc));
          mr = \<lparr> mr_key = key, mr_acc_flags = um_acc_flags desc, mr_pdkey = PDHandle (um_pd_hdl desc), mr_addr = um_addr desc,
                 mr_len = ucast (um_len desc), mr_pgt_offset = um_pgt_offset desc \<rparr>
      in self\<lparr> bl_mr_rkey_table := (bl_mr_rkey_table self)(key \<mapsto> mr) \<rparr>)"

definition logic_update :: "ToCardCtrlRbDesc \<Rightarrow> BlueRDMALogic \<Rightarrow> BlueRDMALogic" where
  "logic_update desc self =
     (let opcode = to_host_ctrl_opcode desc;
          (op_id, is_succ, self) =
            (case desc of
               QpManagement desc \<Rightarrow> (let (is_success, self) = update_qp desc self in (cc_op_id (qm_common desc), is_success, self))
             | UpdateMrTable desc \<Rightarrow> (cc_op_id (um_common desc), True, update_mr desc self)
             | UpdatePageTable desc \<Rightarrow> (cc_op_id (up_common desc), True, self)
             | SetNetworkParam desc \<Rightarrow> (cc_op_id (sn_common desc), True, self)
             | SetRawPacketReceiveMeta desc \<Rightarrow> (cc_op_id (rm_common desc), True, self)
             | UpdateErrorPsnRecoverPoint desc \<Rightarrow> (cc_op_id (ep_common desc), True, self));
          resp_desc = \<lparr> hd_common = \<lparr> hc_op_id = op_id, hc_opcode = opcode, hc_is_success = is_succ \<rparr> \<rparr>
      in self\<lparr> bl_ctrl_queue := bl_ctrl_queue self @ [resp_desc] \<rparr>)"

subsection \<open>Receiving\<close>

definition validate_rkey :: "soft_Key \<Rightarrow> MemAccessTypeFlag \<Rightarrow> u64 \<Rightarrow> u32 \<Rightarrow> BlueRDMALogic \<Rightarrow> ToHostWorkRbDescStatus" where
  "validate_rkey rkey needed va len self =
     (case bl_mr_rkey_table self rkey of
        None \<Rightarrow> StInvMrKey
      | Some mr \<Rightarrow>
          if \<not> flag_contains (mr_acc_flags mr) needed then StInvAccFlag
          else if mr_addr mr > va \<or> mr_addr mr + mr_len mr < va + ucast len then StInvMrRegion
          else StNormal)"

definition recv_default_meta :: "RdmaMessage \<Rightarrow> ToHostWorkRbDescCommon" where
  "recv_default_meta message =
     \<lparr> hw_status = StUnknown, hw_trans = TtRc, hw_dqpn = psn_new (sqpn_get (mc_dqpn (meta_common (ms_meta_data message)))),
       hw_msn = Msn_new (pkey_get (mc_pkey (meta_common (ms_meta_data message)))), hw_expected_psn = psn_new 0 \<rparr>"

text \<open>The descriptor for a general header; \<^const>\<open>None\<close> returns without one.\<close>

definition recv_general :: "ToHostWorkRbDescCommon \<Rightarrow> RdmaGeneralMeta \<Rightarrow> (packet_fault, ToHostWorkRbDesc option) result" where
  "recv_general common header =
     (let write_type = (case opcode_write_type (mc_opcode (gm_common_meta header)) of Some t \<Rightarrow> t | None \<Rightarrow> WtOnly);
          is_read_resp = opcode_is_resp (mc_opcode (gm_common_meta header));
          write_or_resp = Ok (Some (HWriteOrReadResp
            \<lparr> ho_common = common, ho_is_read_resp = is_read_resp, ho_write_type = write_type, ho_psn = mc_psn (gm_common_meta header),
              ho_addr = rh_va (gm_reth header), ho_len = rh_len (gm_reth header), ho_can_auto_ack = False \<rparr>));
          with_imm = Ok (Some (HWriteWithImm
            \<lparr> hi_common = common, hi_write_type = write_type, hi_psn = mc_psn (gm_common_meta header),
              hi_imm = (case gm_imm header of Some imm \<Rightarrow> imm | None \<Rightarrow> 0), hi_addr = rh_va (gm_reth header),
              hi_len = rh_len (gm_reth header), hi_key = Key_new (skey_get (rh_rkey (gm_reth header))) \<rparr>))
      in case mc_opcode (gm_common_meta header) of
           RdmaWriteFirst \<Rightarrow> write_or_resp
         | RdmaWriteMiddle \<Rightarrow> write_or_resp
         | RdmaWriteLast \<Rightarrow> write_or_resp
         | RdmaWriteOnly \<Rightarrow> write_or_resp
         | RdmaReadResponseFirst \<Rightarrow> write_or_resp
         | RdmaReadResponseMiddle \<Rightarrow> write_or_resp
         | RdmaReadResponseLast \<Rightarrow> write_or_resp
         | RdmaReadResponseOnly \<Rightarrow> write_or_resp
         | RdmaWriteLastWithImmediate \<Rightarrow> with_imm
         | RdmaWriteOnlyWithImmediate \<Rightarrow> with_imm
         | RdmaReadRequest \<Rightarrow>
             (case gm_secondary_reth header of
                None \<Rightarrow> Ok None
              | Some sec_reth \<Rightarrow>
                  Ok (Some (HRead \<lparr> hr_common = common, hr_len = rh_len (gm_reth header), hr_laddr = rh_va (gm_reth header),
                    hr_lkey = Key_new (skey_get (rh_rkey (gm_reth header))), hr_raddr = rh_va sec_reth,
                    hr_rkey = Key_new (skey_get (rh_rkey sec_reth)) \<rparr>)))
         | Acknowledge \<Rightarrow> Err Panicked)"

definition recv_ack :: "ToHostWorkRbDescCommon \<Rightarrow> AethHeader \<Rightarrow> (packet_fault, ToHostWorkRbDesc option) result" where
  "recv_ack common header =
     (case ah_aeth_code header of
        AethAck \<Rightarrow> Ok (Some (HAck
          \<lparr> ha_common = common, ha_msn = Msn_new (ucast (ah_msn header)), ha_psn = psn_new (psn_get (mc_psn (ah_common_meta header))),
            ha_retry_psn = ThreeBytesStruct 0, ha_code = AethAck, ha_value = ah_aeth_value header \<rparr>))
      | _ \<Rightarrow> Err Panicked)"

definition push_data :: "(packet_fault, ToHostWorkRbDesc option) result \<Rightarrow> memory \<Rightarrow> BlueRDMALogic \<Rightarrow> (packet_fault, memory \<times> BlueRDMALogic) result" where
  "push_data descriptor mem self =
     result_bind descriptor (\<lambda>d. Ok (mem, case d of None \<Rightarrow> self | Some d \<Rightarrow> self\<lparr> bl_data_queue := bl_data_queue self @ [d] \<rparr>))"

definition logic_recv :: "RdmaMessage \<Rightarrow> memory \<Rightarrow> BlueRDMALogic \<Rightarrow> (packet_fault, memory \<times> BlueRDMALogic) result" where
  "logic_recv message mem self =
     (let common = recv_default_meta message
      in case ms_meta_data message of
           General header \<Rightarrow>
             (let va = rh_va (gm_reth header);
                  status = validate_rkey (rh_rkey (gm_reth header)) (needed_permissions header) va (rh_len (gm_reth header)) self;
                  mem = (if status_is_ok status \<and> has_payload header then copy_to (ms_payload message) va mem else mem)
              in push_data (recv_general (common\<lparr> hw_status := status \<rparr>) header) mem self)
         | AcknowledgeMeta header \<Rightarrow> push_data (recv_ack (common\<lparr> hw_status := StNormal \<rparr>) header) mem self)"

subsection \<open>The UDP agent\<close>

text \<open>
  The state of the sending agent, with the datagrams that it handed to the socket. The socket is a
  parameter: the outcome of the next call for a datagram, an error or the number of bytes sent.
\<close>

record UDPSendAgent =
  us_sending_id_counter :: u16
  us_src_addr :: Ipv4Addr
  us_src_port :: u16
  us_datagrams :: "(Ipv4Addr \<times> u16 \<times> u8 list) list"

type_synonym socket = "(Ipv4Addr \<times> u16 \<times> u8 list) list \<Rightarrow> (string, nat) result"

definition send_to :: "socket \<Rightarrow> Ipv4Addr \<Rightarrow> u16 \<Rightarrow> u8 list \<Rightarrow> UDPSendAgent \<Rightarrow> (NetAgentError, unit) result \<times> UDPSendAgent" where
  "send_to sock dest_addr dest_port buf self =
     (let self = self\<lparr> us_datagrams := us_datagrams self @ [(dest_addr, dest_port, buf)] \<rparr>
      in (case sock (us_datagrams self) of
            Inl e \<Rightarrow> Err (NaIo e)
          | Inr sended_size \<Rightarrow> if length buf \<noteq> sended_size then Err (WrongBytesSending (length buf) sended_size) else Ok (),
          self))"

definition agent_send ::
  "(u8 list \<Rightarrow> u32) \<Rightarrow> socket \<Rightarrow> memory \<Rightarrow> Ipv4Addr \<Rightarrow> u16 \<Rightarrow> RdmaMessage \<Rightarrow> UDPSendAgent \<Rightarrow>
   (packet_fault, (NetAgentError, unit) result \<times> UDPSendAgent) result" where
  "agent_send crc32 sock mem dest_addr dest_port message self =
     (let ip_id = us_sending_id_counter self;
          self = self\<lparr> us_sending_id_counter := us_sending_id_counter self + 1 \<rparr>
      in result_bind (udp_send crc32 mem (us_src_addr self) (us_src_port self) ip_id dest_addr dest_port message) (\<lambda>r.
           case r of
             Inl e \<Rightarrow> Ok (Err (NaPacketProcess e), self)
           | Inr buf \<Rightarrow> Ok (send_to sock dest_addr dest_port buf self)))"

definition agent_send_raw ::
  "socket \<Rightarrow> memory \<Rightarrow> Ipv4Addr \<Rightarrow> u16 \<Rightarrow> PayloadInfo \<Rightarrow> UDPSendAgent \<Rightarrow> (packet_fault, (NetAgentError, unit) result \<times> UDPSendAgent) result" where
  "agent_send_raw sock mem dest_addr dest_port payload self =
     (case direct_data_ptr mem True payload of
        None \<Rightarrow> Ok (Err (InvalidRdmaMessage ''PayloadInfo should have at least one item''), self)
      | Some (Inl _) \<Rightarrow> Err Panicked
      | Some (Inr buf) \<Rightarrow> Ok (send_to sock dest_addr dest_port buf self))"

definition udp_agent :: "(u8 list \<Rightarrow> u32) \<Rightarrow> socket \<Rightarrow> memory \<Rightarrow> UDPSendAgent NetSendAgent" where
  "udp_agent crc32 sock mem = \<lparr> na_send = agent_send crc32 sock mem, na_send_raw = agent_send_raw sock mem \<rparr>"

text \<open>
  A turn of the receive loop: the socket writes the datagram into the buffer of the thread, the check of the CRC
  clears its last bytes, and the message is handed to the logic.
\<close>

definition receive_turn :: "(u8 list \<Rightarrow> u32) \<Rightarrow> usize \<Rightarrow> u8 list \<Rightarrow> memory \<Rightarrow> BlueRDMALogic \<Rightarrow> (packet_fault, memory \<times> BlueRDMALogic) result" where
  "receive_turn crc32 buf datagram mem receiver =
     (let received_data = take NET_SERVER_BUF_SIZE datagram; n = length received_data; mem = write_mem buf received_data mem
      in if n < size_CommonPacketHeader + 4 then Ok (mem, receiver)
         else
           let mem = write_mem (buf + of_nat (n - ICRC_SIZE_soft)) (replicate ICRC_SIZE_soft 0) mem
           in result_bind (udp_receive crc32 buf received_data) (\<lambda>r.
                case r of None \<Rightarrow> Ok (mem, receiver) | Some message \<Rightarrow> logic_recv message mem receiver))"

text \<open>The host side of the queues; \<^const>\<open>None\<close> waits.\<close>

definition ctrl_pop :: "BlueRDMALogic \<Rightarrow> (ToHostCtrlRbDesc \<times> BlueRDMALogic) option" where
  "ctrl_pop self = (case bl_ctrl_queue self of [] \<Rightarrow> None | d # ds \<Rightarrow> Some (d, self\<lparr> bl_ctrl_queue := ds \<rparr>))"

definition data_pop :: "BlueRDMALogic \<Rightarrow> (ToHostWorkRbDesc \<times> BlueRDMALogic) option" where
  "data_pop self = (case bl_data_queue self of [] \<Rightarrow> None | d # ds \<Rightarrow> Some (d, self\<lparr> bl_data_queue := ds \<rparr>))"

end
