(* ===== verification/Soft_Write.thy ===== *)
theory Soft_Write
  imports Soft_Codec Soft_Logic
begin

text \<open>
  An RDMA write through the software card: the packets that the logic makes of a work descriptor, and the
  memory of the peer after it received them.
\<close>

subsection \<open>Scatter gather lists\<close>

definition elem_bytes :: "memory \<Rightarrow> SGListElementWithKey \<Rightarrow> u8 list" where
  "elem_bytes mem e = read_mem mem (ek_addr e) (unat (ek_len e))"

definition sg_bytes :: "memory \<Rightarrow> soft_SGList \<Rightarrow> u8 list" where
  "sg_bytes mem sg = concat (map (elem_bytes mem) (sl_data sg))"

definition sg_total :: "soft_SGList \<Rightarrow> nat" where
  "sg_total sg = sum_list (map (\<lambda>e. unat (ek_len e)) (sl_data sg))"

text \<open>The levels in use are the first ones, and those below the current level are used up.\<close>

definition sg_ok :: "soft_SGList \<Rightarrow> bool" where
  "sg_ok sg \<longleftrightarrow> length (sl_data sg) = 4 \<and> unat (sl_len sg) \<le> 4 \<and>
     (\<forall>i < 4. unat (sl_len sg) \<le> i \<or> i < unat (sl_cur_level sg) \<longrightarrow> ek_len (sl_data sg ! i) = 0)"

lemma read_mem_take: "n \<le> m \<Longrightarrow> take n (read_mem mem a m) = read_mem mem a n"
  by (rule nth_equalityI) (auto simp: read_mem_def)

lemma read_mem_drop: "drop n (read_mem mem a m) = read_mem mem (a + of_nat n) (m - n)"
  by (rule nth_equalityI) (auto simp: read_mem_def add.assoc)

lemma unat_ucast_u64: "unat (ucast (w :: u32) :: u64) = unat w"
  by (simp add: word_nat)

lemma length_elem_bytes [simp]: "length (elem_bytes mem e) = unat (ek_len e)"
  by (simp add: elem_bytes_def)

lemma elem_bytes_0 [simp]: "ek_len e = 0 \<Longrightarrow> elem_bytes mem e = []"
  by (simp add: elem_bytes_def read_mem_def)

lemma length_sg_bytes [simp]: "length (sg_bytes mem sg) = sg_total sg"
  by (simp add: sg_bytes_def sg_total_def length_concat comp_def)

lemma payload_bytes_add: "payload_bytes mem (payload_add a n p) = payload_bytes mem p @ read_mem mem a (unat n)"
  by (simp add: payload_bytes_def payload_add_def)

lemma payload_new [simp]: "payload_bytes mem PayloadInfo_new = []" "py_total_len PayloadInfo_new = 0"
  by (simp_all add: payload_bytes_def PayloadInfo_new_def)

lemma empty_levels:
  assumes "\<forall>e \<in> set es. ek_len e = 0"
  shows "concat (map (elem_bytes mem) es) = []" "sum_list (map (\<lambda>e. unat (ek_len e)) es) = 0"
  using assms by (induction es) auto

lemma split_level:
  assumes "k < length es" "\<forall>i < k. ek_len (es ! i) = 0"
  shows "concat (map (elem_bytes mem) (es[k := e])) = elem_bytes mem e @ concat (map (elem_bytes mem) (drop (Suc k) es))"
    and "sum_list (map (\<lambda>e. unat (ek_len e)) (es[k := e])) = unat (ek_len e) + sum_list (map (\<lambda>e. unat (ek_len e)) (drop (Suc k) es))"
proof -
  have "\<forall>e \<in> set (take k es). ek_len e = 0"
    using assms by (auto simp: in_set_conv_nth)
  then show "concat (map (elem_bytes mem) (es[k := e])) = elem_bytes mem e @ concat (map (elem_bytes mem) (drop (Suc k) es))"
    "sum_list (map (\<lambda>e. unat (ek_len e)) (es[k := e])) = unat (ek_len e) + sum_list (map (\<lambda>e. unat (ek_len e)) (drop (Suc k) es))"
    using assms(1) empty_levels[of "take k es"] by (simp_all add: upd_conv_take_nth_drop)
qed

lemma used_up:
  assumes "length (sl_data sg) = 4" "unat (sl_len sg) \<le> 4" "\<forall>i < 4. unat (sl_len sg) \<le> i \<or> i < k \<longrightarrow> ek_len (sl_data sg ! i) = 0"
    and "unat (sl_len sg) \<le> k"
  shows "sg_total sg = 0"
proof -
  have "\<forall>e \<in> set (sl_data sg). ek_len e = 0"
    using assms by (auto simp: in_set_conv_nth) (metis not_le order.strict_trans2)
  then show ?thesis
    unfolding sg_total_def by (rule empty_levels)
qed

lemma soft_cut_loop_takes:
  assumes "length (sl_data sg) = 4" "unat (sl_len sg) \<le> 4" "sl_cur_level sg \<le> of_nat k"
    and "\<forall>i < 4. unat (sl_len sg) \<le> i \<or> i < k \<longrightarrow> ek_len (sl_data sg ! i) = 0"
    and "0 < len" "unat len \<le> sg_total sg"
  shows "\<exists>p' sg'. soft_cut_loop k len p sg = Ok (Ok p', sg') \<and> sg_ok sg' \<and> sl_len sg' = sl_len sg \<and>
     (\<forall>mem. payload_bytes mem p' = payload_bytes mem p @ take (unat len) (sg_bytes mem sg)) \<and>
     py_total_len p' = py_total_len p + ucast len \<and>
     (\<forall>mem. sg_bytes mem sg' = drop (unat len) (sg_bytes mem sg))"
  using assms
proof (induction k len p sg rule: soft_cut_loop.induct)
  case (1 k len p sg)
  have "k < unat (sl_len sg)"
    using used_up[OF 1(2,3,5)] 1(6,7) by (cases "unat (sl_len sg) \<le> k") (simp_all add: word_less_nat_alt)
  then have k: "k < 4" "(of_nat k :: u32) < sl_len sg" "unat (of_nat k :: u32) = k"
    using 1(3) by (auto simp: word_less_nat_alt unat_of_nat)
  have k1: "unat (1 + of_nat k :: u32) = Suc k"
    using k by (simp add: unat_word_ariths unat_of_nat)
  define e where "e = sl_data sg ! k"
  let ?rest = "drop (Suc k) (sl_data sg)"
  have low: "\<forall>i < k. ek_len (sl_data sg ! i) = 0"
    using 1(5) k(1) by auto
  note level = split_level[of k "sl_data sg", OF _ low]
  have bytes: "sg_bytes mem sg = elem_bytes mem e @ concat (map (elem_bytes mem) ?rest)"
    "sg_total sg = unat (ek_len e) + sum_list (map (\<lambda>e. unat (ek_len e)) ?rest)" for mem
    using level[where e = e] k(1) 1(2) by (simp_all add: sg_bytes_def sg_total_def e_def)
  show ?case
  proof (cases "len \<le> ek_len e")
    case True
    define e' where "e' = e\<lparr> ek_addr := ek_addr e + ucast len, ek_len := ek_len e - len \<rparr>"
    define sg1 where "sg1 = sg\<lparr> sl_data := (sl_data sg)[k := e'] \<rparr>"
    define sg' where "sg' = (if ek_len e' = 0 then sg1\<lparr> sl_cur_level := of_nat (k + 1) \<rparr> else sg1)"
    have le: "unat len \<le> unat (ek_len e)" "unat (ek_len e') = unat (ek_len e) - unat len"
      using True by (simp_all add: e'_def word_le_nat_alt unat_sub)
    have "soft_cut_loop k len p sg = Ok (Ok (payload_add (ek_addr e) (ucast len) p), sg')"
      using k 1(2) True by (simp add: soft_cut_loop.simps[of k] Let_def e'_def sg1_def sg'_def flip: e_def)
    moreover have "sg_ok sg'"
    proof -
      have "unat (sl_cur_level sg') \<le> (if ek_len e' = 0 then Suc k else k)"
        using 1(4) k k1 by (auto simp: sg'_def sg1_def word_le_nat_alt)
      then show ?thesis
        using 1(2,3,5) k \<open>k < unat (sl_len sg)\<close>
        by (auto simp: sg_ok_def sg'_def sg1_def nth_list_update less_Suc_eq split: if_splits)
    qed
    moreover have "sl_len sg' = sl_len sg"
      by (simp add: sg'_def sg1_def)
    moreover have "payload_bytes mem (payload_add (ek_addr e) (ucast len) p) = payload_bytes mem p @ take (unat len) (sg_bytes mem sg)" for mem
      using le(1) by (simp add: payload_bytes_add bytes(1) elem_bytes_def read_mem_take unat_ucast_u64)
    moreover have "sg_bytes mem sg' = drop (unat len) (sg_bytes mem sg)" for mem
      using le level(1)[of mem e'] k(1) 1(2)
      by (simp add: sg'_def sg1_def sg_bytes_def bytes(1)[unfolded sg_bytes_def])
        (simp add: elem_bytes_def read_mem_drop e'_def)
    ultimately show ?thesis
      by (intro exI[of _ "payload_add (ek_addr e) (ucast len) p"] exI[of _ sg']) (simp add: payload_add_def)
  next
    case False
    define p2 where "p2 = payload_add (ek_addr e) (ucast (ek_len e)) p"
    define sg2 where "sg2 = sg\<lparr> sl_data := (sl_data sg)[k := e\<lparr> ek_len := 0 \<rparr>] \<rparr>"
    have lt: "unat (ek_len e) < unat len" "unat (len - ek_len e) = unat len - unat (ek_len e)" "0 < len - ek_len e"
      using False by (auto simp: word_le_nat_alt word_less_nat_alt unat_sub)
    have step: "soft_cut_loop k len p sg = soft_cut_loop (k + 1) (len - ek_len e) p2 sg2"
      using k 1(2) False by (subst soft_cut_loop.simps) (simp add: Let_def p2_def sg2_def flip: e_def)
    have b2: "sg_bytes mem sg2 = concat (map (elem_bytes mem) ?rest)" "sg_total sg2 = sum_list (map (\<lambda>e. unat (ek_len e)) ?rest)" for mem
      using level[where e = "e\<lparr> ek_len := 0 \<rparr>"] k(1) 1(2) by (simp_all add: sg2_def sg_bytes_def sg_total_def)
    have "\<exists>p' sg'. soft_cut_loop (k + 1) (len - ek_len e) p2 sg2 = Ok (Ok p', sg') \<and> sg_ok sg' \<and> sl_len sg' = sl_len sg2 \<and>
       (\<forall>mem. payload_bytes mem p' = payload_bytes mem p2 @ take (unat (len - ek_len e)) (sg_bytes mem sg2)) \<and>
       py_total_len p' = py_total_len p2 + ucast (len - ek_len e) \<and>
       (\<forall>mem. sg_bytes mem sg' = drop (unat (len - ek_len e)) (sg_bytes mem sg2))"
    proof (rule 1(1)[OF k(2) _ e_def _ p2_def sg2_def])
      show "sl_cur_level sg2 \<le> of_nat (k + 1)"
        using 1(4) k k1 by (simp add: sg2_def word_le_nat_alt)
      show "\<forall>i<4. unat (sl_len sg2) \<le> i \<or> i < k + 1 \<longrightarrow> ek_len (sl_data sg2 ! i) = 0"
        using 1(2,5) k(1) by (auto simp: sg2_def nth_list_update less_Suc_eq)
      show "unat (len - ek_len e) \<le> sg_total sg2"
        using 1(7) bytes(2) b2(2) lt by simp
    qed (use 1(2,3) k(1) False lt in \<open>simp_all add: sg2_def\<close>)
    then obtain p' sg' where rec: "soft_cut_loop (k + 1) (len - ek_len e) p2 sg2 = Ok (Ok p', sg')" "sg_ok sg'" "sl_len sg' = sl_len sg2"
      "\<And>mem. payload_bytes mem p' = payload_bytes mem p2 @ take (unat (len - ek_len e)) (sg_bytes mem sg2)"
      "py_total_len p' = py_total_len p2 + ucast (len - ek_len e)" "\<And>mem. sg_bytes mem sg' = drop (unat (len - ek_len e)) (sg_bytes mem sg2)"
      by blast
    have "ucast (ek_len e) + ucast (len - ek_len e) = (ucast len :: u64)"
      using lt unat_less_two_power[of len] by (simp add: word_unat_eq_iff unat_word_ariths unat_ucast_u64)
    then have "py_total_len p' = py_total_len p + ucast len"
      by (simp add: rec(5) p2_def payload_add_def add.assoc)
    moreover have "payload_bytes mem p' = payload_bytes mem p @ take (unat len) (sg_bytes mem sg)" for mem
      using lt by (simp add: rec(4) p2_def payload_bytes_add b2 bytes(1) unat_ucast_u64) (simp add: elem_bytes_def)
    moreover have "sg_bytes mem sg' = drop (unat len) (sg_bytes mem sg)" for mem
      using lt by (simp add: rec(6) b2 bytes(1))
    ultimately show ?thesis
      using step rec(1-3) by (simp add: sg2_def)
  qed
qed

lemma soft_cut_takes:
  assumes "sg_ok sg" "0 < len" "unat len \<le> sg_total sg"
  obtains p sg' where "soft_cut len sg = Ok (Ok p, sg')" "sg_ok sg'" "\<And>mem. payload_bytes mem p = take (unat len) (sg_bytes mem sg)"
    "py_total_len p = ucast len" "\<And>mem. sg_bytes mem sg' = drop (unat len) (sg_bytes mem sg)"
proof -
  have "\<exists>p' sg'. soft_cut_loop (unat (sl_cur_level sg)) len PayloadInfo_new sg = Ok (Ok p', sg') \<and> sg_ok sg' \<and> sl_len sg' = sl_len sg \<and>
     (\<forall>mem. payload_bytes mem p' = payload_bytes mem PayloadInfo_new @ take (unat len) (sg_bytes mem sg)) \<and>
     py_total_len p' = py_total_len PayloadInfo_new + ucast len \<and>
     (\<forall>mem. sg_bytes mem sg' = drop (unat len) (sg_bytes mem sg))"
    by (rule soft_cut_loop_takes) (use assms in \<open>simp_all add: sg_ok_def\<close>)
  then show thesis
    using that by (auto simp: soft_cut_def)
qed

lemma sg_total_drop: "(\<And>mem. sg_bytes mem sg' = drop n (sg_bytes mem sg)) \<Longrightarrow> sg_total sg' = sg_total sg - n"
  by (metis length_drop length_sg_bytes)

lemma cut_all_levels_takes:
  "payload_bytes mem (fst (cut_all_levels sg)) = sg_bytes mem sg"
  "py_total_len (fst (cut_all_levels sg)) = of_nat (sg_total sg)"
  "soft_get_total_length (snd (cut_all_levels sg)) = 0"
proof -
  have "payload_bytes mem (fold (\<lambda>data payload. payload_add (ek_addr data) (ucast (ek_len data)) payload) es p) =
      payload_bytes mem p @ concat (map (elem_bytes mem) es)" for es p
    by (induction es arbitrary: p) (simp_all add: payload_bytes_add elem_bytes_def unat_ucast_u64)
  then show "payload_bytes mem (fst (cut_all_levels sg)) = sg_bytes mem sg"
    by (simp add: cut_all_levels_def sg_bytes_def)
  have "py_total_len (fold (\<lambda>data payload. payload_add (ek_addr data) (ucast (ek_len data)) payload) es p) =
      py_total_len p + of_nat (sum_list (map (\<lambda>e. unat (ek_len e)) es))" for es :: "SGListElementWithKey list" and p
    by (induction es arbitrary: p) (simp_all add: payload_add_def add.assoc)
  then show "py_total_len (fst (cut_all_levels sg)) = of_nat (sg_total sg)"
    by (simp add: cut_all_levels_def sg_total_def)
  show "soft_get_total_length (snd (cut_all_levels sg)) = 0"
    by (simp add: cut_all_levels_def soft_get_total_length_def comp_def)
qed

lemma soft_get_total_length_eq:
  assumes "sg_total sg < 2 ^ 32"
  shows "unat (soft_get_total_length sg) = sg_total sg"
proof -
  have "sum_list (map ek_len es) = of_nat (sum_list (map (\<lambda>e. unat (ek_len e)) es))" for es :: "SGListElementWithKey list"
    by (induction es) simp_all
  then have "soft_get_total_length sg = of_nat (sg_total sg)"
    by (simp add: soft_get_total_length_def sg_total_def)
  then show ?thesis
    using assms by (simp add: unat_of_nat)
qed

subsection \<open>The packets of a write\<close>

text \<open>The reference: bytes cut at given lengths, with consecutive sequence numbers and addresses.\<close>

fun cut_bytes :: "Psn \<Rightarrow> u64 \<Rightarrow> u8 list \<Rightarrow> nat list \<Rightarrow> (Psn \<times> u64 \<times> u8 list) list" where
  "cut_bytes psn va bs [] = []"
| "cut_bytes psn va bs (n # ns) = (psn, va, take n bs) # cut_bytes (wrapping_add psn 1) (va + of_nat n) (drop n bs) ns"

text \<open>Messages handed to the agent one after the other, up to the first error.\<close>

fun send_all :: "'n NetSendAgent \<Rightarrow> Ipv4Addr \<Rightarrow> RdmaMessage list \<Rightarrow> ('n, unit) net" where
  "send_all agent ip [] = net_return ()"
| "send_all agent ip (m # ms) = net_bind (net_call (na_send agent ip DEST_PORT m)) (\<lambda>_. send_all agent ip ms)"

text \<open>A message that carries one of the pieces. The length in the header is that of the whole message in a first packet only.\<close>

definition carries :: "ToCardWorkRbDescCommon \<Rightarrow> memory \<Rightarrow> Psn \<times> u64 \<times> u8 list \<Rightarrow> RdmaMessage \<Rightarrow> bool" where
  "carries c mem = (\<lambda>(psn, va, bs) m.
     case ms_meta_data m of
       AcknowledgeMeta _ \<Rightarrow> False
     | General g \<Rightarrow>
         meta_wf (General g) \<and> has_payload g \<and> mc_psn (gm_common_meta g) = psn \<and>
         mc_dqpn (gm_common_meta g) = SQpn (psn_get (wc_dqpn c)) \<and> mc_pkey (gm_common_meta g) = PKey (msn_get (wc_msn c)) \<and>
         rh_va (gm_reth g) = va \<and> rh_rkey (gm_reth g) = SKey (key_get (wc_rkey c)) \<and>
         payload_bytes mem (ms_payload m) = bs \<and> unat (py_total_len (ms_payload m)) = length bs \<and>
         (if opcode_is_first (mc_opcode (gm_common_meta g)) then va = wc_raddr c \<and> rh_len (gm_reth g) = wc_total_len c
          else unat (rh_len (gm_reth g)) \<le> length bs))"

definition meta_base :: "ToCardWorkRbDescCommon \<Rightarrow> RdmaGeneralMeta \<Rightarrow> bool" where
  "meta_base c g \<longleftrightarrow> gm_imm g = None \<and> gm_secondary_reth g = None \<and> psn_ok (wc_dqpn c) \<and> psn_ok (mc_psn (gm_common_meta g)) \<and>
     mc_dqpn (gm_common_meta g) = SQpn (psn_get (wc_dqpn c)) \<and> mc_pkey (gm_common_meta g) = PKey (msn_get (wc_msn c)) \<and>
     rh_rkey (gm_reth g) = SKey (key_get (wc_rkey c))"

abbreviation message_opcode :: "RdmaMessage \<Rightarrow> ToHostWorkRbDescOpcode" where
  "message_opcode m \<equiv> meta_get_opcode (ms_meta_data m)"

lemma net_bind_return [simp]: "net_bind (net_return x) f = f x" "net_bind m net_return = m"
  by (auto simp: net_bind_def net_return_def result_bind_def fun_eq_iff split: sum.splits)

lemma net_bind_unit [simp]: "net_bind m (\<lambda>_. net_return ()) = m"
  by (auto simp: net_bind_def net_return_def result_bind_def fun_eq_iff split: sum.splits)

lemma net_bind_assoc: "net_bind (net_bind m f) g = net_bind m (\<lambda>x. net_bind (f x) g)"
  by (auto simp: net_bind_def result_bind_def fun_eq_iff split: sum.splits)

lemma net_cut_Ok: "soft_cut n sg = Ok (Ok p, sg') \<Longrightarrow> net_bind (net_cut n sg) f = f (p, sg')"
  by (simp add: net_bind_def net_cut_def fun_eq_iff)

lemmas opcode_choice = write_only_opcode_with_imm_def write_first_opcode_def write_middle_opcode_def write_last_opcode_with_imm_def
  tw_has_imm_def

text \<open>The opcodes of a write: all of them carry a payload, and the immediate goes with the opcodes that have one.\<close>

definition write_opcode_ok :: "ToHostWorkRbDescOpcode \<Rightarrow> u32 option \<Rightarrow> bool" where
  "write_opcode_ok opcode imm \<longleftrightarrow> opcode \<noteq> RdmaReadRequest \<and> opcode \<noteq> Acknowledge \<and>
     (imm \<noteq> None) = (opcode \<in> {RdmaWriteLastWithImmediate, RdmaWriteOnlyWithImmediate})"

lemma write_opcodes_ok:
  "write_opcode_ok (fst (write_only_opcode_with_imm req)) (snd (write_only_opcode_with_imm req))"
  "write_opcode_ok (write_first_opcode req) None"
  "write_opcode_ok (write_middle_opcode req) None"
  "write_opcode_ok (fst (write_last_opcode_with_imm req)) (snd (write_last_opcode_with_imm req))"
  "\<not> opcode_is_first (write_middle_opcode req)" "\<not> opcode_is_first (fst (write_last_opcode_with_imm req))"
  by (auto simp: write_opcode_ok_def opcode_choice split: bool.splits)

lemma carries_general:
  assumes "meta_base c g" "write_opcode_ok (mc_opcode (gm_common_meta g)) imm"
    and "payload_bytes mem p = bs" "unat (py_total_len p) = length bs"
    and "if opcode_is_first (mc_opcode (gm_common_meta g)) then rh_va (gm_reth g) = wc_raddr c \<and> rh_len (gm_reth g) = wc_total_len c
         else unat (rh_len (gm_reth g)) \<le> length bs"
  shows "carries c mem (mc_psn (gm_common_meta g), rh_va (gm_reth g), bs) \<lparr> ms_meta_data = General (g\<lparr> gm_imm := imm \<rparr>), ms_payload = p \<rparr>"
proof -
  have "has_payload (g\<lparr> gm_imm := imm \<rparr>)"
    using assms(2) by (cases "mc_opcode (gm_common_meta g)") (auto simp: has_payload_def write_opcode_ok_def)
  moreover have "meta_wf (General (g\<lparr> gm_imm := imm \<rparr>))"
    using assms(1,2) by (auto simp: meta_wf_def common_wf_def meta_base_def write_opcode_ok_def is_read_request_def psn_ok_iff)
  ultimately show ?thesis
    using assms by (simp add: carries_def meta_base_def)
qed

text \<open>The last packet, as \<^const>\<open>send_write\<close> has it after the loop.\<close>

definition send_last :: "'n NetSendAgent \<Rightarrow> ToCardWriteDescriptor \<times> RdmaGeneralMeta \<times> u32 \<times> u64 \<times> Psn \<Rightarrow> ('n, unit) net" where
  "send_last agent = (\<lambda>(req, meta_data, cur_len, cur_va, psn).
     net_bind (net_cut cur_len (tw_sg_list req)) (\<lambda>(last_payload, sg_list).
       let (opcode, imm) = write_last_opcode_with_imm req;
           meta_data = set_opcode opcode meta_data;
           meta_data = set_meta_psn psn meta_data;
           meta_data = meta_data\<lparr> gm_imm := imm \<rparr>;
           meta_data = set_reth_va cur_va meta_data;
           meta_data = set_reth_len cur_len meta_data
       in send_general agent req meta_data last_payload))"

lemma opcodes_sg [simp]:
  "write_middle_opcode (req\<lparr> tw_sg_list := sg \<rparr>) = write_middle_opcode req"
  "write_first_opcode (req\<lparr> tw_sg_list := sg \<rparr>) = write_first_opcode req"
  "write_last_opcode_with_imm (req\<lparr> tw_sg_list := sg \<rparr>) = write_last_opcode_with_imm req"
  "write_only_opcode_with_imm (req\<lparr> tw_sg_list := sg \<rparr>) = write_only_opcode_with_imm req"
  by (simp_all add: opcode_choice tw_is_resp_def split: bool.splits)

lemma pmtu_positive: "0 < pmtu_u32 m" "unat (pmtu_u32 m) dvd 2 ^ 64"
  by (cases m; simp)+

lemma send_rest_messages:
  assumes "sg_ok (tw_sg_list req)" "sg_total (tw_sg_list req) = unat cur_len" "0 < cur_len"
    and "unat cur_va mod unat (pmtu_u32 (wc_pmtu (tw_common req))) = 0"
    and "meta_base (tw_common req) g" "psn_ok psn" "rh_len (gm_reth g) = pmtu_u32 (wc_pmtu (tw_common req))"
  shows "\<exists>msgs. (\<forall>agent :: 'n NetSendAgent. net_bind (send_middle agent req g cur_len cur_va psn) (send_last agent) =
      send_all agent (wc_dqp_ip (tw_common req)) msgs) \<and>
    (\<forall>mem. list_all2 (carries (tw_common req) mem)
       (cut_bytes psn cur_va (sg_bytes mem (tw_sg_list req)) (chunk_lens (unat (pmtu_u32 (wc_pmtu (tw_common req)))) (unat cur_va) (unat cur_len))) msgs) \<and>
    map message_opcode msgs = replicate (length msgs - 1) (write_middle_opcode req) @ [fst (write_last_opcode_with_imm req)]"
  using assms
proof (induction "unat cur_len" arbitrary: req cur_len cur_va psn g rule: less_induct)
  case less
  let ?c = "tw_common req" and ?sg = "tw_sg_list req"
  define pm where "pm = pmtu_u32 (wc_pmtu ?c)"
  have pm: "0 < pm" "unat pm dvd 2 ^ 64" "0 < unat pm"
    using pmtu_positive by (auto simp: pm_def word_less_nat_alt)
  have step: "chunk_lens (unat pm) (unat cur_va) (unat cur_len) =
      min (unat cur_len) (unat pm) # chunk_lens (unat pm) (unat cur_va + min (unat cur_len) (unat pm)) (unat cur_len - min (unat cur_len) (unat pm))"
    using chunk_lens_step[OF pm(3), of "unat cur_len" "unat cur_va"] less.prems(3,4)
    by (simp add: word_less_nat_alt flip: pm_def)
  show ?case
  proof (cases "pm < cur_len")
    case False
    then have le: "min (unat cur_len) (unat pm) = unat cur_len"
      by (simp add: word_less_nat_alt)
    obtain p sg' where cut: "soft_cut cur_len ?sg = Ok (Ok p, sg')" "sg_ok sg'"
      "\<And>mem. payload_bytes mem p = take (unat cur_len) (sg_bytes mem ?sg)" "py_total_len p = ucast cur_len"
      "\<And>mem. sg_bytes mem sg' = drop (unat cur_len) (sg_bytes mem ?sg)"
      by (rule soft_cut_takes[OF less.prems(1,3) less.prems(2)[symmetric, THEN eq_imp_le]]) (rule that)
    define g' where "g' = set_reth_len cur_len (set_reth_va cur_va (set_meta_psn psn (set_opcode (fst (write_last_opcode_with_imm req)) g)))"
    define m where "m = \<lparr> ms_meta_data = General (g'\<lparr> gm_imm := snd (write_last_opcode_with_imm req) \<rparr>), ms_payload = p \<rparr>"
    have "net_bind (send_middle agent req g cur_len cur_va psn) (send_last agent) = send_all agent (wc_dqp_ip ?c) [m]" for agent :: "'n NetSendAgent"
      using False by (cases g, subst send_middle.simps)
        (simp add: send_last_def net_cut_Ok[OF cut(1)] case_prod_beta send_general_def m_def g'_def flip: pm_def)
    moreover have "carries ?c mem (psn, cur_va, take (unat cur_len) (sg_bytes mem ?sg)) m" for mem
      using carries_general[of ?c g' "snd (write_last_opcode_with_imm req)" mem p "take (unat cur_len) (sg_bytes mem ?sg)"]
        less.prems(2,5,6) write_opcodes_ok(4,6)[of req] cut(3,4)
      by (simp add: g'_def m_def meta_base_def unat_ucast_u64)
    ultimately show ?thesis
      using step le by (intro exI[of _ "[m]"]) (simp add: pm_def m_def g'_def meta_get_opcode_def)
  next
    case True
    then have lt: "unat pm < unat cur_len" "min (unat cur_len) (unat pm) = unat pm" "unat (cur_len - pm) = unat cur_len - unat pm"
      by (simp_all add: word_less_nat_alt unat_sub word_le_nat_alt)
    obtain p sg' where cut: "soft_cut pm ?sg = Ok (Ok p, sg')" "sg_ok sg'"
      "\<And>mem. payload_bytes mem p = take (unat pm) (sg_bytes mem ?sg)" "py_total_len p = ucast pm"
      "\<And>mem. sg_bytes mem sg' = drop (unat pm) (sg_bytes mem ?sg)"
      using lt less.prems(2) by (rule_tac soft_cut_takes[OF less.prems(1) pm(1)]) (simp, rule that)
    define g' where "g' = set_meta_psn psn (set_reth_va cur_va (set_opcode (write_middle_opcode req) g))"
    define m where "m = \<lparr> ms_meta_data = General g', ms_payload = p \<rparr>"
    define req' where "req' = req\<lparr> tw_sg_list := sg' \<rparr>"
    have va: "unat (cur_va + ucast pm) mod unat pm = (unat cur_va + unat pm) mod unat pm"
      using mod_mod_cancel[OF pm(2)] by (simp add: unat_word_ariths unat_ucast_u64)
    have "\<exists>msgs. (\<forall>agent :: 'n NetSendAgent.
        net_bind (send_middle agent req' g' (cur_len - pm) (cur_va + ucast pm) (wrapping_add psn 1)) (send_last agent) =
        send_all agent (wc_dqp_ip (tw_common req')) msgs) \<and>
      (\<forall>mem. list_all2 (carries (tw_common req') mem) (cut_bytes (wrapping_add psn 1) (cur_va + ucast pm) (sg_bytes mem (tw_sg_list req'))
        (chunk_lens (unat (pmtu_u32 (wc_pmtu (tw_common req')))) (unat (cur_va + ucast pm)) (unat (cur_len - pm)))) msgs) \<and>
      map message_opcode msgs = replicate (length msgs - 1) (write_middle_opcode req') @ [fst (write_last_opcode_with_imm req')]"
    proof (rule less.hyps)
      show "unat (cur_len - pm) < unat cur_len"
        using lt pm(3) by simp
      show "sg_total (tw_sg_list req') = unat (cur_len - pm)"
        using sg_total_drop[OF cut(5)] less.prems(2) lt by (simp add: req'_def)
      show "0 < cur_len - pm"
        using lt by (simp add: word_less_nat_alt)
      show "unat (cur_va + ucast pm) mod unat (pmtu_u32 (wc_pmtu (tw_common req'))) = 0"
        using less.prems(4) va by (simp add: req'_def flip: pm_def)
      show "meta_base (tw_common req') g'" "psn_ok (wrapping_add psn 1)" "rh_len (gm_reth g') = pmtu_u32 (wc_pmtu (tw_common req'))"
        using less.prems(5-7) by (simp_all add: req'_def g'_def meta_base_def)
    qed (use cut(2) in \<open>simp add: req'_def\<close>)
    then obtain msgs where msgs: "\<And>agent :: 'n NetSendAgent.
        net_bind (send_middle agent req' g' (cur_len - pm) (cur_va + ucast pm) (wrapping_add psn 1)) (send_last agent) =
        send_all agent (wc_dqp_ip ?c) msgs"
      "\<And>mem. list_all2 (carries ?c mem) (cut_bytes (wrapping_add psn 1) (cur_va + ucast pm) (drop (unat pm) (sg_bytes mem ?sg))
        (chunk_lens (unat pm) (unat (cur_va + ucast pm)) (unat cur_len - unat pm))) msgs"
      "map message_opcode msgs = replicate (length msgs - 1) (write_middle_opcode req) @ [fst (write_last_opcode_with_imm req)]"
      using cut(5) lt(3) by (auto simp: req'_def simp flip: pm_def)
    have "net_bind (send_middle agent req g cur_len cur_va psn) (send_last agent) = send_all agent (wc_dqp_ip ?c) (m # msgs)"
      for agent :: "'n NetSendAgent"
      using True msgs(1)[of agent, symmetric]
      by (subst send_middle.simps) (simp add: net_cut_Ok[OF cut(1)] net_bind_assoc send_general_def Let_def m_def g'_def req'_def flip: pm_def)
    moreover have "carries ?c mem (psn, cur_va, take (unat pm) (sg_bytes mem ?sg)) m" for mem
      using carries_general[of ?c g' None mem p "take (unat pm) (sg_bytes mem ?sg)"]
        less.prems(2,5-7) write_opcodes_ok(3,5)[of req] cut(3,4) lt(1)
      by (cases g) (simp add: g'_def m_def meta_base_def unat_ucast_u64 flip: pm_def)
    moreover have "write_middle_opcode req # replicate (length msgs - Suc 0) (write_middle_opcode req) = replicate (length msgs) (write_middle_opcode req)"
      using msgs(3) by (cases msgs) simp_all
    ultimately show ?thesis
      using msgs(2,3) step lt chunk_lens_mod[OF va]
      by (intro exI[of _ "m # msgs"]) (simp add: m_def g'_def meta_get_opcode_def flip: pm_def)
  qed
qed

text \<open>The opcodes of the packets of a write.\<close>

definition packet_opcodes :: "ToCardWriteDescriptor \<Rightarrow> nat \<Rightarrow> ToHostWorkRbDescOpcode list" where
  "packet_opcodes req n =
     (if n = 1 then [fst (write_only_opcode_with_imm req)]
      else write_first_opcode req # replicate (n - 2) (write_middle_opcode req) @ [fst (write_last_opcode_with_imm req)])"

lemma send_write_messages:
  fixes req c
  defines "c \<equiv> tw_common req" and "sg \<equiv> tw_sg_list req"
  assumes "sg_ok sg" "0 < sg_total sg" "sg_total sg < 2 ^ 32" "psn_ok (wc_psn c)" "psn_ok (wc_dqpn c)"
    and "mc_psn cm = wc_psn c" "mc_dqpn cm = SQpn (psn_get (wc_dqpn c))" "mc_pkey cm = PKey (msn_get (wc_msn c))"
  shows "\<exists>msgs. (\<forall>agent :: 'n NetSendAgent. send_write agent req cm = send_all agent (wc_dqp_ip c) msgs) \<and>
    (\<forall>mem. list_all2 (carries c mem)
       (cut_bytes (wc_psn c) (wc_raddr c) (sg_bytes mem sg) (chunk_lens (unat (pmtu_u32 (wc_pmtu c))) (unat (wc_raddr c)) (sg_total sg))) msgs) \<and>
    map message_opcode msgs = packet_opcodes req (length msgs)"
proof -
  define pm where "pm = pmtu_u32 (wc_pmtu c)"
  define first where "first = get_first_packet_max_length (wc_raddr c) pm"
  define g where "g = \<lparr> gm_common_meta = cm, gm_reth = \<lparr> rh_va = wc_raddr c, rh_rkey = SKey (key_get (wc_rkey c)), rh_len = wc_total_len c \<rparr>,
             gm_imm = None, gm_secondary_reth = None \<rparr>"
  have pm: "0 < pm" "unat pm dvd 2 ^ 64" "0 < unat pm"
    using pmtu_positive by (auto simp: pm_def word_less_nat_alt)
  have g: "meta_base c g"
    using assms by (simp add: g_def meta_base_def)
  have total: "unat (soft_get_total_length sg) = sg_total sg"
    using assms by (intro soft_get_total_length_eq) simp
  have first: "unat first = unat pm - unat (wc_raddr c) mod unat pm" "0 < first"
    using pm(3) by (simp_all add: first_def pm_def unat_get_first_packet_max_length word_less_nat_alt)
  have step: "chunk_lens (unat pm) (unat (wc_raddr c)) (sg_total sg) = min (sg_total sg) (unat first) #
      chunk_lens (unat pm) (unat (wc_raddr c) + min (sg_total sg) (unat first)) (sg_total sg - min (sg_total sg) (unat first))"
    unfolding first(1) by (rule chunk_lens_step[OF pm(3) assms(4)])
  show ?thesis
  proof (cases "soft_get_total_length sg \<le> first")
    case True
    define op where "op = write_only_opcode_with_imm req"
    define g' where "g' = set_reth_len (if opcode_is_first (fst op) then wc_total_len c else 0) (set_opcode (fst op) g)"
    define m where "m = \<lparr> ms_meta_data = General (g'\<lparr> gm_imm := snd op \<rparr>), ms_payload = fst (cut_all_levels sg) \<rparr>"
    have le: "min (sg_total sg) (unat first) = sg_total sg"
      using True total by (simp add: word_le_nat_alt)
    have "send_write agent req cm = send_all agent (wc_dqp_ip c) [m]" for agent :: "'n NetSendAgent"
      using True by (simp add: send_write_def Let_def send_write_only_packet_def case_prod_beta cut_all_levels_takes(3) send_general_def
          m_def g'_def g_def op_def first_def pm_def flip: c_def sg_def)
    moreover have "carries c mem (wc_psn c, wc_raddr c, sg_bytes mem sg) m" for mem
      using carries_general[of c g' "snd op" mem "fst (cut_all_levels sg)" "sg_bytes mem sg"] g write_opcodes_ok(1)[of req]
        cut_all_levels_takes(1)[of mem sg] cut_all_levels_takes(2)[of sg] assms(5,8)
      by (simp add: m_def g'_def g_def op_def meta_base_def unat_of_nat)
    ultimately show ?thesis
      using step le by (intro exI[of _ "[m]"]) (simp add: m_def g'_def op_def meta_get_opcode_def packet_opcodes_def flip: pm_def)
  next
    case False
    then have lt: "unat first < sg_total sg" "min (sg_total sg) (unat first) = unat first"
      "unat (soft_get_total_length sg - first) = sg_total sg - unat first"
      using total by (simp_all add: word_le_nat_alt unat_sub)
    obtain p sg' where cut: "soft_cut first sg = Ok (Ok p, sg')" "sg_ok sg'"
      "\<And>mem. payload_bytes mem p = take (unat first) (sg_bytes mem sg)" "py_total_len p = ucast first"
      "\<And>mem. sg_bytes mem sg' = drop (unat first) (sg_bytes mem sg)"
      using lt by (rule_tac soft_cut_takes[OF assms(3) first(2)]) (simp, rule that)
    define g' where "g' = set_reth_len (if opcode_is_first (write_first_opcode req) then wc_total_len c else first) (set_opcode (write_first_opcode req) g)"
    define m where "m = \<lparr> ms_meta_data = General g', ms_payload = p \<rparr>"
    define req' where "req' = req\<lparr> tw_sg_list := sg' \<rparr>"
    define va where "va = wc_raddr c + ucast first"
    have "unat va mod unat pm = (unat (wc_raddr c) + unat first) mod unat pm"
      using mod_mod_cancel[OF pm(2)] by (simp add: va_def unat_word_ariths unat_ucast_u64)
    note va = this add_to_multiple[OF pm(3), of "unat (wc_raddr c)", folded first(1)]
    have "\<exists>msgs. (\<forall>agent :: 'n NetSendAgent. net_bind
          (send_middle agent req' (set_reth_len pm g') (soft_get_total_length sg - first) va (wrapping_add (wc_psn c) 1)) (send_last agent) =
        send_all agent (wc_dqp_ip (tw_common req')) msgs) \<and>
      (\<forall>mem. list_all2 (carries (tw_common req') mem) (cut_bytes (wrapping_add (wc_psn c) 1) va (sg_bytes mem (tw_sg_list req'))
        (chunk_lens (unat (pmtu_u32 (wc_pmtu (tw_common req')))) (unat va) (unat (soft_get_total_length sg - first)))) msgs) \<and>
      map message_opcode msgs = replicate (length msgs - 1) (write_middle_opcode req') @ [fst (write_last_opcode_with_imm req')]"
    proof (rule send_rest_messages)
      show "sg_total (tw_sg_list req') = unat (soft_get_total_length sg - first)"
        using sg_total_drop[OF cut(5)] lt by (simp add: req'_def)
      show "0 < soft_get_total_length sg - first"
        using lt by (simp add: word_less_nat_alt)
      show "unat va mod unat (pmtu_u32 (wc_pmtu (tw_common req'))) = 0"
        using va by (simp add: req'_def flip: c_def pm_def)
      show "meta_base (tw_common req') (set_reth_len pm g')" "psn_ok (wrapping_add (wc_psn c) 1)"
        "rh_len (gm_reth (set_reth_len pm g')) = pmtu_u32 (wc_pmtu (tw_common req'))"
        using g by (simp_all add: req'_def g'_def meta_base_def flip: c_def pm_def)
    qed (use cut(2) in \<open>simp add: req'_def\<close>)
    then obtain msgs where msgs: "\<And>agent :: 'n NetSendAgent. net_bind
          (send_middle agent req' (set_reth_len pm g') (soft_get_total_length sg - first) va (wrapping_add (wc_psn c) 1)) (send_last agent) =
        send_all agent (wc_dqp_ip c) msgs"
      "\<And>mem. list_all2 (carries c mem) (cut_bytes (wrapping_add (wc_psn c) 1) va (drop (unat first) (sg_bytes mem sg))
        (chunk_lens (unat pm) (unat va) (sg_total sg - unat first))) msgs"
      "map message_opcode msgs = replicate (length msgs - 1) (write_middle_opcode req) @ [fst (write_last_opcode_with_imm req)]"
      using cut(5) lt(3) by (auto simp: req'_def simp flip: pm_def c_def)
    have "send_write agent req cm = send_all agent (wc_dqp_ip c) (m # msgs)" for agent :: "'n NetSendAgent"
      using False msgs(1)[of agent, symmetric]
      by (simp add: send_write_def Let_def net_cut_Ok[OF cut(1)] send_general_def m_def g'_def g_def req'_def va_def send_last_def
          flip: c_def sg_def pm_def first_def)
    moreover have "carries c mem (wc_psn c, wc_raddr c, take (unat first) (sg_bytes mem sg)) m" for mem
      using carries_general[of c g' None mem p "take (unat first) (sg_bytes mem sg)"] g write_opcodes_ok(2)[of req] cut(3,4) lt(1) assms(8)
      by (simp add: g'_def m_def g_def meta_base_def unat_ucast_u64)
    moreover have "length msgs \<noteq> 0"
      using msgs(3) by auto
    ultimately show ?thesis
      using msgs(2,3) step lt chunk_lens_mod[OF va(1)]
      by (intro exI[of _ "m # msgs"]) (simp add: m_def g'_def meta_get_opcode_def packet_opcodes_def va_def flip: pm_def)
  qed
qed

subsection \<open>Sending a work descriptor\<close>

definition sge_list :: "ToCardWorkRbDesc \<Rightarrow> DescSge list" where
  "sge_list d = (case work_sges d of (sge0, sge1, sge2, sge3) \<Rightarrow> sge0 # concat (map (\<lambda>s. case s of None \<Rightarrow> [] | Some s \<Rightarrow> [s]) [sge1, sge2, sge3]))"

definition desc_bytes :: "memory \<Rightarrow> ToCardWorkRbDesc \<Rightarrow> u8 list" where
  "desc_bytes mem d = concat (map (\<lambda>s. read_mem mem (ds_addr s) (unat (ds_len s))) (sge_list d))"

definition desc_len :: "ToCardWorkRbDesc \<Rightarrow> nat" where
  "desc_len d = sum_list (map (\<lambda>s. unat (ds_len s)) (sge_list d))"

text \<open>A write that is not a raw packet, with its scatter gather elements in the first places and numbers in range.\<close>

definition write_ok :: "ToCardWorkRbDesc \<Rightarrow> bool" where
  "write_ok d \<longleftrightarrow> \<not> is_read d \<and> \<not> is_raw_packet (ToCardDescriptor_from d) \<and>
     (case work_sges d of (_, sge1, sge2, sge3) \<Rightarrow> (sge1 = None \<longrightarrow> sge2 = None) \<and> (sge2 = None \<longrightarrow> sge3 = None)) \<and>
     0 < desc_len d \<and> desc_len d < 2 ^ 32 \<and> psn_ok (wc_psn (work_common d)) \<and> psn_ok (wc_dqpn (work_common d))"

lemma all_less_4: "(\<forall>i < 4 :: nat. P i) \<longleftrightarrow> P 0 \<and> P 1 \<and> P 2 \<and> P 3"
  by (auto simp: less_Suc_eq numeral_eq_Suc)

lemma new_with_sge_list_ok:
  assumes "sge1 = None \<longrightarrow> sge2 = None" "sge2 = None \<longrightarrow> sge3 = None"
  shows "sg_ok (new_with_sge_list sge0 sge1 sge2 sge3)"
  using assms
  by (auto simp: sg_ok_def new_with_sge_list_def get_sge_from_option_def SGListElementWithKey_default_def all_less_4
      split: option.splits)

lemma write_descriptor_sges:
  assumes "ToCardDescriptor_from d = TWrite req"
  shows "tw_common req = work_common d" "sg_bytes mem (tw_sg_list req) = desc_bytes mem d" "sg_total (tw_sg_list req) = desc_len d"
    "\<exists>sge0 sge1 sge2 sge3. work_sges d = (sge0, sge1, sge2, sge3) \<and> tw_sg_list req = new_with_sge_list sge0 sge1 sge2 sge3"
  using assms
  by (cases d; auto simp: write_descriptor_def sg_bytes_def sg_total_def desc_bytes_def desc_len_def sge_list_def new_with_sge_list_def
      get_sge_from_option_def elem_bytes_def SGListElementWithKey_default_def SGListElementWithKey_from_def read_mem_def split: option.splits)+

lemma logic_send_messages:
  assumes "write_ok d" "ToCardDescriptor_from d = TWrite req"
  shows "\<exists>msgs. (\<forall>agent :: 'n NetSendAgent. logic_send agent d = send_all agent (wc_dqp_ip (work_common d)) msgs) \<and>
    (\<forall>mem. list_all2 (carries (work_common d) mem) (cut_bytes (wc_psn (work_common d)) (wc_raddr (work_common d)) (desc_bytes mem d)
       (chunk_lens (unat (pmtu_u32 (wc_pmtu (work_common d)))) (unat (wc_raddr (work_common d))) (desc_len d))) msgs) \<and>
    map message_opcode msgs = packet_opcodes req (length msgs)"
proof -
  note eqs = write_descriptor_sges(1-3)[OF assms(2)]
  obtain sge0 sge1 sge2 sge3 where sges: "work_sges d = (sge0, sge1, sge2, sge3)" "tw_sg_list req = new_with_sge_list sge0 sge1 sge2 sge3"
    using write_descriptor_sges(4)[OF assms(2)] by auto
  have ok: "sg_ok (tw_sg_list req)"
    using assms(1) by (simp add: sges write_ok_def new_with_sge_list_ok)
  define cm where "cm = \<lparr> mc_tran_type = TransType_from (wc_qp_type (work_common d)), mc_opcode = RdmaWriteOnly, mc_solicited = False,
    mc_pkey = PKey (msn_get (wc_msn (work_common d))), mc_dqpn = SQpn (psn_get (wc_dqpn (work_common d))), mc_ack_req = False,
    mc_psn = psn_new (psn_get (wc_psn (work_common d))) \<rparr>"
  have "logic_send agent d = send_write agent req cm" for agent :: "'n NetSendAgent"
    using assms by (simp add: logic_send_def Let_def write_ok_def desc_common_def cm_def eqs(1))
  then show ?thesis
    using send_write_messages[of req cm, unfolded eqs, OF ok] assms(1) by (simp add: write_ok_def cm_def psn_new_get)
qed

subsection \<open>The memory of the peer\<close>

text \<open>Memories that differ at most in the buffer of the receive thread.\<close>

definition agree :: "usize \<Rightarrow> memory \<Rightarrow> memory \<Rightarrow> bool" where
  "agree buf m m' \<longleftrightarrow> (\<forall>x. NET_SERVER_BUF_SIZE \<le> unat (x - buf) \<longrightarrow> m x = m' x)"

lemma unat_offset:
  fixes x a :: usize
  assumes "n < 2 ^ 64"
  shows "unat (x - (a + of_nat n)) = (if n \<le> unat (x - a) then unat (x - a) - n else unat (x - a) + 2 ^ 64 - n)"
  using assms unat_sub_if'[of "x - a" "of_nat n"] by (simp add: unat_of_nat diff_diff_eq)

lemma agree_trans: "agree buf m m' \<Longrightarrow> agree buf m' m'' \<Longrightarrow> agree buf m m''"
  by (simp add: agree_def)

lemma agree_write: "agree buf m m' \<Longrightarrow> agree buf (write_mem va bs m) (write_mem va bs m')"
  by (simp add: agree_def write_mem_def)

lemma agree_buffer: "k + length bs \<le> NET_SERVER_BUF_SIZE \<Longrightarrow> agree buf (write_mem (buf + of_nat k) bs m) m"
  using unat_offset[of k _ buf] by (auto simp: agree_def write_mem_def NET_SERVER_BUF_SIZE_def)

lemma read_write_mem: "length bs < 2 ^ 64 \<Longrightarrow> read_mem (write_mem a bs m) a (length bs) = bs"
  by (rule nth_equalityI) (auto simp: read_mem_def write_mem_def unat_of_nat)

lemma read_write_before:
  assumes "n + length bs < 2 ^ 64"
  shows "read_mem (write_mem (a + of_nat n) bs m) a n = read_mem m a n"
proof (rule nth_equalityI)
  fix i
  assume "i < length (read_mem (write_mem (a + of_nat n) bs m) a n)"
  then show "read_mem (write_mem (a + of_nat n) bs m) a n ! i = read_mem m a n ! i"
    using assms unat_offset[of n "a + of_nat i" a] by (auto simp: read_mem_def write_mem_def unat_of_nat)
qed simp

lemma write_mem_append:
  assumes "length bs + length cs < 2 ^ 64"
  shows "write_mem va (bs @ cs) m = write_mem (va + of_nat (length bs)) cs (write_mem va bs m)"
proof (rule ext)
  fix x
  show "write_mem va (bs @ cs) m x = write_mem (va + of_nat (length bs)) cs (write_mem va bs m) x"
    using assms unat_offset[of "length bs" x va] unat_less_two_power[of "x - va"]
    by (auto simp: write_mem_def nth_append)
qed

lemma write_pieces:
  assumes "sum_list ns = length bs" "length bs < 2 ^ 64"
  shows "fold (\<lambda>(_, va, bs). write_mem va bs) (cut_bytes psn va bs ns) m = write_mem va bs m"
  using assms
proof (induction ns arbitrary: psn va bs m)
  case (Cons n ns)
  then have "min (length bs) n = n"
    by simp
  then have "write_mem va (take n bs @ drop n bs) m = write_mem (va + of_nat n) (drop n bs) (write_mem va (take n bs) m)"
    using Cons.prems by (subst write_mem_append) simp_all
  then show ?case
    using Cons by simp
qed (simp add: write_mem_def fun_eq_iff)

text \<open>A message that carries a piece which the peer accepts.\<close>

definition admissible :: "BlueRDMALogic \<Rightarrow> memory \<Rightarrow> Psn \<times> u64 \<times> u8 list \<Rightarrow> RdmaMessage \<Rightarrow> bool" where
  "admissible logic mem = (\<lambda>(psn, va, bs) m.
     length bs \<le> 8113 \<and> payload_bytes mem (ms_payload m) = bs \<and> unat (py_total_len (ms_payload m)) = length bs \<and>
     (\<exists>g. ms_meta_data m = General g \<and> meta_wf (General g) \<and> has_payload g \<and> mc_psn (gm_common_meta g) = psn \<and> rh_va (gm_reth g) = va \<and>
        validate_rkey (rh_rkey (gm_reth g)) (needed_permissions g) va (rh_len (gm_reth g)) logic = StNormal))"

text \<open>What the host learns of a packet.\<close>

fun report_view :: "ToHostWorkRbDesc \<Rightarrow> ToHostWorkRbDescStatus \<times> Psn \<times> u64" where
  "report_view (HWriteOrReadResp d) = (hw_status (ho_common d), ho_psn d, ho_addr d)"
| "report_view (HWriteWithImm d) = (hw_status (hi_common d), hi_psn d, hi_addr d)"
| "report_view (HRead d) = (hw_status (hr_common d), psn_new 0, hr_laddr d)"
| "report_view (HAck d) = (hw_status (ha_common d), ha_psn d, 0)"
| "report_view (HRaw d) = (hw_status (hx_common d), psn_new 0, hx_addr d)"

lemma recv_general_report:
  assumes "has_payload g"
  obtains r where "recv_general common g = Ok (Some r)"
    "report_view r = (hw_status common, mc_psn (gm_common_meta g), rh_va (gm_reth g))"
  using assms by (cases "mc_opcode (gm_common_meta g)") (auto simp: has_payload_def recv_general_def Let_def)

lemma receive_turn_writes:
  assumes "admissible logic mem (psn, va, bs) m" "udp_send crc32 mem src_addr src_port ip_id dest_addr dest_port m = Ok (Ok packet)"
    and "same_invariant packet received"
  shows "\<exists>r mem''. receive_turn crc32 buf received mem' logic = Ok (mem'', logic\<lparr> bl_data_queue := bl_data_queue logic @ [r] \<rparr>) \<and>
    report_view r = (StNormal, psn, va) \<and> agree buf mem'' (write_mem va bs mem')"
proof -
  obtain g where g: "ms_meta_data m = General g" "meta_wf (General g)" "has_payload g" "mc_psn (gm_common_meta g) = psn" "rh_va (gm_reth g) = va"
    "validate_rkey (rh_rkey (gm_reth g)) (needed_permissions g) va (rh_len (gm_reth g)) logic = StNormal"
    and bs: "payload_bytes mem (ms_payload m) = bs" "length bs \<le> 8113" "unat (py_total_len (ms_payload m)) = length bs"
    using assms(1) by (auto simp: admissible_def)
  let ?n = "length received"
  have pkt: "length packet \<le> NET_SERVER_BUF_SIZE"
    "\<And>ptr mem'. read_mem mem' ptr (?n - ICRC_SIZE_soft) = take (?n - ICRC_SIZE_soft) received \<Longrightarrow>
       \<exists>m' src n. udp_receive crc32 ptr received = Ok (Some m') \<and> ms_meta_data m' = General g \<and> ms_payload m' = new_with_data src n \<and>
         payload_bytes mem' (ms_payload m') = bs"
    using sent_packet_received[of m mem crc32 src_addr src_port ip_id dest_addr dest_port] assms(2,3) g(1,2) bs by auto
  have n: "?n \<le> 8192"
    using pkt(1) same_invariantD(1)[OF assms(3)] by (simp add: NET_SERVER_BUF_SIZE_def)
  define mem1 where "mem1 = write_mem (buf + of_nat (?n - ICRC_SIZE_soft)) (replicate ICRC_SIZE_soft 0) (write_mem buf received mem')"
  have "read_mem mem1 buf (?n - ICRC_SIZE_soft) = take (?n - ICRC_SIZE_soft) received"
    using n read_write_mem[of received buf mem'] read_mem_take[of "?n - ICRC_SIZE_soft" ?n "write_mem buf received mem'" buf]
    by (simp add: mem1_def read_write_before ICRC_SIZE_soft_def)
  then obtain m' src k where m': "udp_receive crc32 buf received = Ok (Some m')" "ms_meta_data m' = General g"
    "ms_payload m' = new_with_data src k" "payload_bytes mem1 (ms_payload m') = bs"
    using pkt(2) by blast
  have long: "size_CommonPacketHeader + 4 \<le> ?n"
    using m'(1) by (cases "?n < size_CommonPacketHeader + 4") (simp_all add: udp_receive_def)
  obtain r where r: "recv_general ((recv_default_meta m')\<lparr> hw_status := StNormal \<rparr>) g = Ok (Some r)" "report_view r = (StNormal, psn, va)"
    by (rule recv_general_report[OF g(3), of "(recv_default_meta m')\<lparr> hw_status := StNormal \<rparr>"]) (simp add: g that)
  have "receive_turn crc32 buf received mem' logic =
      Ok (copy_to (ms_payload m') va mem1, logic\<lparr> bl_data_queue := bl_data_queue logic @ [r] \<rparr>)"
    using n long m' r(1) g by (simp add: receive_turn_def Let_def NET_SERVER_BUF_SIZE_def mem1_def logic_recv_def push_data_def status_is_ok_def)
  moreover have "copy_to (ms_payload m') va mem1 = write_mem va bs mem1"
    using m'(3,4) by (simp add: copy_to_def new_with_data_def payload_bytes_def)
  moreover have "agree buf mem1 mem'"
    using agree_buffer[of "?n - ICRC_SIZE_soft" "replicate ICRC_SIZE_soft 0" buf "write_mem buf received mem'"]
      agree_buffer[of 0 received buf mem'] n long unfolding mem1_def
    by (intro agree_trans[of buf mem1 "write_mem buf received mem'" mem', unfolded mem1_def]) (simp_all add: NET_SERVER_BUF_SIZE_def net_sizes)
  ultimately show ?thesis
    using r(2) agree_write by auto
qed

fun receive_datagrams :: "(u8 list \<Rightarrow> u32) \<Rightarrow> usize \<Rightarrow> u8 list list \<Rightarrow> memory \<Rightarrow> BlueRDMALogic \<Rightarrow> (packet_fault, memory \<times> BlueRDMALogic) result" where
  "receive_datagrams crc32 buf [] mem receiver = Ok (mem, receiver)"
| "receive_datagrams crc32 buf (datagram # datagrams) mem receiver =
     result_bind (receive_turn crc32 buf datagram mem receiver) (\<lambda>(mem, receiver). receive_datagrams crc32 buf datagrams mem receiver)"

text \<open>The packet that an agent made of a message.\<close>

definition packet_of :: "(u8 list \<Rightarrow> u32) \<Rightarrow> memory \<Rightarrow> RdmaMessage \<Rightarrow> u8 list \<Rightarrow> bool" where
  "packet_of crc32 mem m packet \<longleftrightarrow>
     (\<exists>src_addr src_port ip_id dest_addr dest_port. udp_send crc32 mem src_addr src_port ip_id dest_addr dest_port m = Ok (Ok packet))"

lemma admissible_queue [simp]: "admissible (logic\<lparr> bl_data_queue := q \<rparr>) mem = admissible logic mem"
  by (simp add: admissible_def validate_rkey_def fun_eq_iff)

lemma receive_datagrams_write:
  assumes "list_all2 (admissible logic mem) pieces msgs" "list_all2 (packet_of crc32 mem) msgs packets" "list_all2 same_invariant packets received"
    and "agree buf mem1 mem2"
  shows "\<exists>mem'' reports. receive_datagrams crc32 buf received mem1 logic = Ok (mem'', logic\<lparr> bl_data_queue := bl_data_queue logic @ reports \<rparr>) \<and>
    map report_view reports = map (\<lambda>(psn, va, bs). (StNormal, psn, va)) pieces \<and>
    agree buf mem'' (fold (\<lambda>(_, va, bs). write_mem va bs) pieces mem2)"
  using assms
proof (induction pieces arbitrary: msgs packets received logic mem1 mem2 rule: list.induct)
  case Nil
  then show ?case
    by (auto intro: exI[of _ "[]"])
next
  case (Cons p pieces)
  obtain psn va bs where p: "p = (psn, va, bs)"
    by (cases p)
  obtain m msgs' where m: "msgs = m # msgs'" "admissible logic mem (psn, va, bs) m" "list_all2 (admissible logic mem) pieces msgs'"
    using Cons.prems(1) p by (auto simp: list_all2_Cons1)
  obtain pk packets' where pk: "packets = pk # packets'" "packet_of crc32 mem m pk" "list_all2 (packet_of crc32 mem) msgs' packets'"
    using Cons.prems(2) m by (auto simp: list_all2_Cons1)
  obtain rx received' where rx: "received = rx # received'" "same_invariant pk rx" "list_all2 same_invariant packets' received'"
    using Cons.prems(3) pk by (auto simp: list_all2_Cons1)
  obtain r mem' where turn: "receive_turn crc32 buf rx mem1 logic = Ok (mem', logic\<lparr> bl_data_queue := bl_data_queue logic @ [r] \<rparr>)"
    "report_view r = (StNormal, psn, va)" "agree buf mem' (write_mem va bs mem1)"
    using receive_turn_writes[OF m(2) _ rx(2)] pk(2) unfolding packet_of_def by blast
  have "agree buf mem' (write_mem va bs mem2)"
    using turn(3) agree_write[OF Cons.prems(4)] by (rule agree_trans)
  then obtain mem'' reports where
    "receive_datagrams crc32 buf received' mem' (logic\<lparr> bl_data_queue := bl_data_queue logic @ [r] \<rparr>) =
       Ok (mem'', logic\<lparr> bl_data_queue := bl_data_queue logic @ [r] @ reports \<rparr>)"
    "map report_view reports = map (\<lambda>(psn, va, bs). (StNormal, psn, va)) pieces"
    "agree buf mem'' (fold (\<lambda>(_, va, bs). write_mem va bs) pieces (write_mem va bs mem2))"
    using Cons.IH[of "logic\<lparr> bl_data_queue := bl_data_queue logic @ [r] \<rparr>" msgs' packets' received' mem' "write_mem va bs mem2"] m(3) pk(3) rx(3)
    by auto
  then show ?case
    using turn p by (intro exI[of _ mem''] exI[of _ "r # reports"]) (simp add: rx(1))
qed

text \<open>A socket that sends what it is given.\<close>

definition accepting :: "socket \<Rightarrow> bool" where
  "accepting sock \<longleftrightarrow> (\<forall>ds ip port buf. sock (ds @ [(ip, port, buf)]) = Ok (length buf))"

lemma send_all_udp:
  assumes "accepting sock" "list_all2 (admissible logic mem) pieces msgs"
  shows "\<exists>s' packets. send_all (udp_agent crc32 sock mem) ip msgs s = Ok (Ok (), s') \<and>
    us_datagrams s' = us_datagrams s @ map (\<lambda>p. (ip, DEST_PORT, p)) packets \<and> list_all2 (packet_of crc32 mem) msgs packets"
  using assms(2)
proof (induction msgs arbitrary: pieces s rule: list.induct)
  case Nil
  then show ?case
    by (auto simp: net_return_def intro: exI[of _ "[]"])
next
  case (Cons m msgs)
  obtain p pieces' where p: "admissible logic mem p m" "list_all2 (admissible logic mem) pieces' msgs"
    using Cons.prems by (auto simp: list_all2_Cons2)
  obtain packet where packet: "udp_send crc32 mem (us_src_addr s) (us_src_port s) (us_sending_id_counter s) ip DEST_PORT m = Ok (Ok packet)"
    using sent_packet_received[of m mem crc32 "us_src_addr s" "us_src_port s" "us_sending_id_counter s" ip DEST_PORT] p(1)
    by (auto simp: admissible_def case_prod_beta)
  define s1 where "s1 = s\<lparr> us_sending_id_counter := us_sending_id_counter s + 1, us_datagrams := us_datagrams s @ [(ip, DEST_PORT, packet)] \<rparr>"
  have "net_call (na_send (udp_agent crc32 sock mem) ip DEST_PORT m) s = Ok (Ok (), s1)"
    using packet assms(1) by (simp add: net_call_def udp_agent_def agent_send_def Let_def send_to_def accepting_def s1_def)
  then have "send_all (udp_agent crc32 sock mem) ip (m # msgs) s = send_all (udp_agent crc32 sock mem) ip msgs s1"
    by (simp add: net_bind_def)
  moreover obtain s' packets where "send_all (udp_agent crc32 sock mem) ip msgs s1 = Ok (Ok (), s')"
    "us_datagrams s' = us_datagrams s1 @ map (\<lambda>p. (ip, DEST_PORT, p)) packets" "list_all2 (packet_of crc32 mem) msgs packets"
    using Cons.IH[OF p(2)] by blast
  moreover have "packet_of crc32 mem m packet"
    using packet unfolding packet_of_def by blast
  ultimately show ?case
    by (intro exI[of _ s'] exI[of _ "packet # packets"]) (simp add: s1_def)
qed

text \<open>A key that grants remote writes to \<open>n\<close> bytes at \<open>raddr\<close>.\<close>

definition grants :: "BlueRDMALogic \<Rightarrow> soft_Key \<Rightarrow> u64 \<Rightarrow> nat \<Rightarrow> bool" where
  "grants logic rkey raddr n \<longleftrightarrow>
     (case bl_mr_rkey_table logic rkey of
        None \<Rightarrow> False
      | Some mr \<Rightarrow> flag_contains (mr_acc_flags mr) IbvAccessRemoteWrite \<and> mr_addr mr \<le> raddr \<and>
          unat raddr + n \<le> unat (mr_addr mr) + unat (mr_len mr) \<and> unat (mr_addr mr) + unat (mr_len mr) < 2 ^ 64)"

lemma grants_size: "grants logic rkey raddr n \<Longrightarrow> unat raddr + n < 2 ^ 64"
  by (auto simp: grants_def split: option.splits)

lemma validate_granted:
  assumes "grants logic rkey raddr n" "unat raddr \<le> unat va" "unat va + unat len \<le> unat raddr + n"
  shows "validate_rkey rkey IbvAccessRemoteWrite va len logic = StNormal"
proof -
  obtain mr where mr: "bl_mr_rkey_table logic rkey = Some mr" "flag_contains (mr_acc_flags mr) IbvAccessRemoteWrite" "mr_addr mr \<le> raddr"
    "unat raddr + n \<le> unat (mr_addr mr) + unat (mr_len mr)" "unat (mr_addr mr) + unat (mr_len mr) < 2 ^ 64"
    using assms(1) by (auto simp: grants_def split: option.splits)
  have "unat (mr_addr mr + mr_len mr) = unat (mr_addr mr) + unat (mr_len mr)" "unat (va + ucast len) = unat va + unat len"
    using mr(4,5) assms(3) by (simp_all add: unat_word_ariths unat_ucast_u64)
  then show ?thesis
    using mr assms by (simp add: validate_rkey_def word_less_nat_alt word_le_nat_alt)
qed

lemma cut_bytes_range:
  assumes "(psn, va, bs) \<in> set (cut_bytes psn0 ra bytes ns)" "sum_list ns \<le> length bytes" "unat ra + sum_list ns < 2 ^ 64"
  shows "unat ra \<le> unat va" "unat va + length bs \<le> unat ra + sum_list ns" "length bs \<in> set ns"
proof -
  have "unat ra \<le> unat va \<and> unat va + length bs \<le> unat ra + sum_list ns \<and> length bs \<in> set ns"
    using assms
  proof (induction ns arbitrary: psn0 ra bytes)
    case (Cons n ns)
    show ?case
    proof (cases "(psn, va, bs) = (psn0, ra, take n bytes)")
      case True
      then show ?thesis
        using Cons.prems by simp
    next
      case False
      have "unat (ra + of_nat n) = unat ra + n"
        using Cons.prems by (simp add: unat_word_ariths unat_of_nat)
      moreover have "sum_list ns \<le> length (drop n bytes)" "(psn, va, bs) \<in> set (cut_bytes (wrapping_add psn0 1) (ra + of_nat n) (drop n bytes) ns)"
        using False Cons.prems by auto
      ultimately show ?thesis
        using Cons.IH[of "wrapping_add psn0 1" "ra + of_nat n" "drop n bytes"] Cons.prems(3) by simp
    qed
  qed simp
  then show "unat ra \<le> unat va" "unat va + length bs \<le> unat ra + sum_list ns" "length bs \<in> set ns"
    by auto
qed

lemma chunk_lens_le: "0 < pm \<Longrightarrow> n \<in> set (chunk_lens pm va len) \<Longrightarrow> n \<le> pm"
  by (induction pm va len rule: pmtu_chunks.induct) (subst (asm) (2) pmtu_chunks.simps, auto simp: Let_def split: if_splits)

lemma pmtu_max: "unat (pmtu_u32 m) \<le> 4096"
  by (cases m) simp_all

lemma carries_admissible:
  assumes "carries c mem (psn, va, bs) m" "grants logic (SKey (key_get (wc_rkey c))) raddr n" "length bs \<le> 8113"
    and "unat raddr \<le> unat va" "unat va + length bs \<le> unat raddr + n"
    and "unat (wc_raddr c) + unat (wc_total_len c) \<le> unat raddr + n"
  shows "admissible logic mem (psn, va, bs) m"
proof -
  obtain g where g: "ms_meta_data m = General g"
    using assms(1) by (cases "ms_meta_data m") (auto simp: carries_def)
  have "needed_permissions g = IbvAccessRemoteWrite" "rh_rkey (gm_reth g) = SKey (key_get (wc_rkey c))"
    "unat va + unat (rh_len (gm_reth g)) \<le> unat raddr + n"
    using assms by (auto simp: carries_def g needed_permissions_def split: if_splits)
  then show ?thesis
    using assms validate_granted[OF assms(2,4)] by (auto simp: admissible_def carries_def g)
qed

subsection \<open>A write arrives\<close>

text \<open>A region that does not touch the buffer of the receive thread.\<close>

definition off_buffer :: "usize \<Rightarrow> u64 \<Rightarrow> nat \<Rightarrow> bool" where
  "off_buffer buf raddr n \<longleftrightarrow> (\<forall>i < n. NET_SERVER_BUF_SIZE \<le> unat (raddr + of_nat i - buf))"

text \<open>The bytes are at their place, nothing else outside the buffer has changed, and the host has a report of each packet.\<close>

definition arrived :: "usize \<Rightarrow> u64 \<Rightarrow> u8 list \<Rightarrow> (Psn \<times> u64 \<times> u8 list) list \<Rightarrow> memory \<times> BlueRDMALogic \<Rightarrow> memory \<times> BlueRDMALogic \<Rightarrow> bool" where
  "arrived buf raddr bytes pieces = (\<lambda>(mem, logic) (mem', logic').
     read_mem mem' raddr (length bytes) = bytes \<and>
     (\<forall>x. length bytes \<le> unat (x - raddr) \<longrightarrow> NET_SERVER_BUF_SIZE \<le> unat (x - buf) \<longrightarrow> mem' x = mem x) \<and>
     (\<exists>reports. logic' = logic\<lparr> bl_data_queue := bl_data_queue logic @ reports \<rparr> \<and>
        map report_view reports = map (\<lambda>(psn, va, bs). (StNormal, psn, va)) pieces))"

lemma pieces_arrive:
  assumes "list_all2 (admissible logic mem) (cut_bytes psn raddr bytes ns) msgs" "sum_list ns = length bytes" "length bytes < 2 ^ 64"
    and "list_all2 (packet_of crc32 mem) msgs packets" "list_all2 same_invariant packets received" "off_buffer buf raddr (length bytes)"
  shows "\<exists>peer. receive_datagrams crc32 buf received mem' logic = Ok peer \<and>
    arrived buf raddr bytes (cut_bytes psn raddr bytes ns) (mem', logic) peer"
proof -
  obtain mem'' reports where
    r: "receive_datagrams crc32 buf received mem' logic = Ok (mem'', logic\<lparr> bl_data_queue := bl_data_queue logic @ reports \<rparr>)"
      "map report_view reports = map (\<lambda>(psn, va, bs). (StNormal, psn, va)) (cut_bytes psn raddr bytes ns)"
    and agree: "agree buf mem'' (write_mem raddr bytes mem')"
    using receive_datagrams_write[OF assms(1,4,5), of buf mem' mem'] write_pieces[OF assms(2,3), of psn raddr mem'] by (auto simp: agree_def)
  have "read_mem mem'' raddr (length bytes) = read_mem (write_mem raddr bytes mem') raddr (length bytes)"
    using agree assms(6) by (auto simp: read_mem_def agree_def off_buffer_def)
  then have "read_mem mem'' raddr (length bytes) = bytes"
    using assms(3) by (simp add: read_write_mem)
  then show ?thesis
    using r agree by (auto simp: arrived_def agree_def write_mem_def)
qed

lemma desc_messages_admissible:
  assumes "write_ok d" "grants logic (SKey (key_get (wc_rkey (work_common d)))) raddr n"
    and "unat raddr \<le> unat (wc_raddr (work_common d))" "unat (wc_raddr (work_common d)) + desc_len d \<le> unat raddr + n"
    and "unat (wc_raddr (work_common d)) + unat (wc_total_len (work_common d)) \<le> unat raddr + n"
  shows "\<exists>msgs. (\<forall>agent :: 'n NetSendAgent. logic_send agent d = send_all agent (wc_dqp_ip (work_common d)) msgs) \<and>
    list_all2 (admissible logic mem) (cut_bytes (wc_psn (work_common d)) (wc_raddr (work_common d)) (desc_bytes mem d)
       (chunk_lens (unat (pmtu_u32 (wc_pmtu (work_common d)))) (unat (wc_raddr (work_common d))) (desc_len d))) msgs"
proof -
  let ?c = "work_common d"
  let ?ns = "chunk_lens (unat (pmtu_u32 (wc_pmtu ?c))) (unat (wc_raddr ?c)) (desc_len d)"
  obtain req where "ToCardDescriptor_from d = TWrite req"
    using assms(1) by (cases d) (auto simp: write_ok_def)
  then obtain msgs where msgs: "\<forall>agent :: 'n NetSendAgent. logic_send agent d = send_all agent (wc_dqp_ip ?c) msgs"
    "list_all2 (carries ?c mem) (cut_bytes (wc_psn ?c) (wc_raddr ?c) (desc_bytes mem d) ?ns) msgs"
    using logic_send_messages[OF assms(1)] by blast
  have pm: "0 < unat (pmtu_u32 (wc_pmtu ?c))"
    using pmtu_positive(1)[of "wc_pmtu ?c"] by (simp add: word_less_nat_alt)
  have len: "sum_list ?ns = desc_len d" "length (desc_bytes mem d) = desc_len d"
    using sum_pmtu_chunks[OF pm] by (simp_all add: desc_bytes_def desc_len_def length_concat comp_def)
  have "admissible logic mem p m" if "carries ?c mem p m" "p \<in> set (cut_bytes (wc_psn ?c) (wc_raddr ?c) (desc_bytes mem d) ?ns)" for p m
  proof -
    obtain psn va bs where p: "p = (psn, va, bs)"
      by (cases p)
    note range = cut_bytes_range[OF that(2)[unfolded p]]
    have "sum_list ?ns \<le> length (desc_bytes mem d)" "unat (wc_raddr ?c) + sum_list ?ns < 2 ^ 64"
      using len assms(4) grants_size[OF assms(2)] by simp_all
    note range = range[OF this]
    have "length bs \<le> 8113"
      using chunk_lens_le[OF pm range(3)] pmtu_max[of "wc_pmtu ?c"] by simp
    then show ?thesis
      using carries_admissible[OF that(1)[unfolded p] assms(2)] range(1,2) assms(3-5) len(1) by (simp add: p)
  qed
  then show ?thesis
    using msgs list.rel_mono_strong[OF msgs(2)] by blast
qed


text \<open>
  C5. A write through the software card arrives: when the socket sends what it is given, all packets of the write are
  sent, and a peer whose memory region grants the write and that receives these packets, with any change of the
  header bytes that routers may change, has the bytes of the scatter gather list at the remote address. No other
  byte of its memory outside the receive buffer changes, and its host gets a report in order for each packet.
\<close>

theorem write_arrives:
  assumes "write_ok d" "accepting sock" "desc_len d = unat (wc_total_len (work_common d))"
    and "grants logic (SKey (key_get (wc_rkey (work_common d)))) (wc_raddr (work_common d)) (desc_len d)"
    and "off_buffer buf (wc_raddr (work_common d)) (desc_len d)"
  shows "\<exists>s' packets. logic_send (udp_agent crc32 sock mem) d s = Ok (Ok (), s') \<and>
    us_datagrams s' = us_datagrams s @ map (\<lambda>p. (wc_dqp_ip (work_common d), DEST_PORT, p)) packets \<and>
    (\<forall>received mem'. list_all2 same_invariant packets received \<longrightarrow>
       (\<exists>peer. receive_datagrams crc32 buf received mem' logic = Ok peer \<and>
          arrived buf (wc_raddr (work_common d)) (desc_bytes mem d)
            (cut_bytes (wc_psn (work_common d)) (wc_raddr (work_common d)) (desc_bytes mem d)
               (chunk_lens (unat (pmtu_u32 (wc_pmtu (work_common d)))) (unat (wc_raddr (work_common d))) (desc_len d)))
            (mem', logic) peer))"
proof -
  let ?c = "work_common d"
  have len: "length (desc_bytes mem d) = desc_len d" "desc_len d < 2 ^ 64"
    using grants_size[OF assms(4)] by (simp_all add: desc_bytes_def desc_len_def length_concat comp_def)
  have ns: "sum_list (chunk_lens (unat (pmtu_u32 (wc_pmtu ?c))) (unat (wc_raddr ?c)) (desc_len d)) = length (desc_bytes mem d)"
    using pmtu_positive(1)[of "wc_pmtu ?c"] by (simp add: len(1) sum_pmtu_chunks word_less_nat_alt)
  obtain msgs where msgs: "\<forall>agent :: UDPSendAgent NetSendAgent. logic_send agent d = send_all agent (wc_dqp_ip ?c) msgs"
    "list_all2 (admissible logic mem) (cut_bytes (wc_psn ?c) (wc_raddr ?c) (desc_bytes mem d)
       (chunk_lens (unat (pmtu_u32 (wc_pmtu ?c))) (unat (wc_raddr ?c)) (desc_len d))) msgs"
    using desc_messages_admissible[OF assms(1,4)] assms(3) by auto
  obtain s' packets where sent: "send_all (udp_agent crc32 sock mem) (wc_dqp_ip ?c) msgs s = Ok (Ok (), s')"
    "us_datagrams s' = us_datagrams s @ map (\<lambda>p. (wc_dqp_ip ?c, DEST_PORT, p)) packets" "list_all2 (packet_of crc32 mem) msgs packets"
    using send_all_udp[OF assms(2) msgs(2)] by blast
  then show ?thesis
    using pieces_arrive[OF msgs(2) ns _ sent(3)] assms(5) len msgs(1) by auto
qed

definition sample_rdma_write :: ToCardWorkRbDesc where
  "sample_rdma_write = CWriteWithImm \<lparr> cw_common = ToCardWorkRbDescCommon_default\<lparr> wc_total_len := 600, wc_raddr := 200 \<rparr>,
     cw_is_last = True, cw_is_first = True, cw_sge0 = \<lparr> ds_addr = 1000, ds_len = 100, ds_key = Key 5 \<rparr>,
     cw_sge1 = Some \<lparr> ds_addr = 5000, ds_len = 500, ds_key = Key 5 \<rparr>, cw_sge2 = None, cw_sge3 = None, ci_imm = 7 \<rparr>"

definition sample_logic :: BlueRDMALogic where
  "sample_logic = update_mr \<lparr> um_common = \<lparr> cc_op_id = 1 \<rparr>, um_addr = 0, um_len = 4096, um_key = Key 0, um_pd_hdl = 0,
     um_acc_flags = IbvAccessRemoteWrite, um_pgt_offset = 0 \<rparr> BlueRDMALogic_new"

lemma sample_rdma_write_ok:
  "write_ok sample_rdma_write" "desc_len sample_rdma_write = 600"
  "chunk_lens (unat (pmtu_u32 (wc_pmtu (work_common sample_rdma_write)))) (unat (wc_raddr (work_common sample_rdma_write))) 600 = [56, 256, 256, 32]"
  by (simp_all add: sample_rdma_write_def write_ok_def desc_len_def sge_list_def is_raw_packet_def ToCardWorkRbDescCommon_default_def psn_ok_def
      write_descriptor_def pmtu_chunks.simps)

lemma sample_grants: "grants sample_logic (SKey 0) 200 600"
  by (simp add: grants_def sample_logic_def update_mr_def Let_def BlueRDMALogic_new_def flag_contains_def IbvAccessRemoteWrite_def)

lemma sample_off_buffer: "off_buffer 0x100000 200 600"
  unfolding off_buffer_def
proof (intro allI impI)
  fix i :: nat
  assume "i < 600"
  then show "NET_SERVER_BUF_SIZE \<le> unat (200 + of_nat i - 0x100000 :: u64)"
    by (simp add: unat_word_ariths unat_sub_if' NET_SERVER_BUF_SIZE_def unat_of_nat)
qed


theorem write_arrives_witness:
  "\<exists>s' packets. logic_send (udp_agent (\<lambda>bs. 0) (\<lambda>ds. case last ds of (_, _, b) \<Rightarrow> Ok (length b)) ucast) sample_rdma_write
       \<lparr> us_sending_id_counter = 0, us_src_addr = 1, us_src_port = 4791, us_datagrams = [] \<rparr> = Ok (Ok (), s') \<and>
     us_datagrams s' = map (\<lambda>p. (0, DEST_PORT, p)) packets \<and>
     (\<exists>mem' logic'. receive_datagrams (\<lambda>bs. 0) 0x100000 packets (\<lambda>_. 0) sample_logic = Ok (mem', logic') \<and>
        read_mem mem' 200 600 = desc_bytes ucast sample_rdma_write)"
proof -
  let ?sock = "\<lambda>ds :: (Ipv4Addr \<times> u16 \<times> u8 list) list. case last ds of (_, _, b) \<Rightarrow> Ok (length b)"
  let ?agent = "\<lparr> us_sending_id_counter = 0, us_src_addr = 1, us_src_port = 4791, us_datagrams = [] \<rparr>"
  have c: "wc_dqp_ip (work_common sample_rdma_write) = 0" "wc_raddr (work_common sample_rdma_write) = 200" "wc_rkey (work_common sample_rdma_write) = Key 0"
    "unat (wc_total_len (work_common sample_rdma_write)) = 600"
    by (simp_all add: sample_rdma_write_def ToCardWorkRbDescCommon_default_def)
  have "accepting ?sock"
    by (simp add: accepting_def)
  then obtain s' packets where sent: "logic_send (udp_agent (\<lambda>bs. 0) ?sock ucast) sample_rdma_write ?agent = Ok (Ok (), s')"
    "us_datagrams s' = map (\<lambda>p. (0, DEST_PORT, p)) packets"
    "\<forall>received mem'. list_all2 same_invariant packets received \<longrightarrow>
       (\<exists>peer. receive_datagrams (\<lambda>bs. 0) 0x100000 received mem' sample_logic = Ok peer \<and>
          arrived 0x100000 200 (desc_bytes ucast sample_rdma_write) (cut_bytes (wc_psn (work_common sample_rdma_write)) 200 (desc_bytes ucast sample_rdma_write)
            [56, 256, 256, 32]) (mem', sample_logic) peer)"
    using write_arrives[OF sample_rdma_write_ok(1), of ?sock sample_logic "0x100000" "\<lambda>bs. 0" ucast ?agent] sample_rdma_write_ok(2,3) sample_grants sample_off_buffer
    by (auto simp: c)
  have "list_all2 same_invariant packets packets"
    by (simp add: list.rel_refl same_invariant_def)
  moreover have "length (desc_bytes ucast sample_rdma_write) = 600"
    using sample_rdma_write_ok(2) by (simp add: desc_bytes_def desc_len_def length_concat comp_def)
  ultimately obtain mem' logic' where "receive_datagrams (\<lambda>bs. 0) 0x100000 packets (\<lambda>_. 0) sample_logic = Ok (mem', logic')"
    "read_mem mem' 200 600 = desc_bytes ucast sample_rdma_write"
    using sent(3)[rule_format, of packets "\<lambda>_. 0"] by (auto simp: arrived_def)
  then show ?thesis
    using sent(1,2) by auto
qed

subsection \<open>Access checks\<close>

text \<open>
  C35. \<^const>\<open>validate_rkey\<close> accepts, for a region that does not wrap, exactly the accesses with its permissions that start
  not below it and either end inside it or run over the end of the address space and end, after the
  wrap of the sum, not above its end.
\<close>

theorem validate_rkey_accepts:
  assumes "bl_mr_rkey_table logic rkey = Some mr" "unat (mr_addr mr) + unat (mr_len mr) < 2 ^ 64"
  shows "validate_rkey rkey needed va len logic = StNormal \<longleftrightarrow>
    flag_contains (mr_acc_flags mr) needed \<and> unat (mr_addr mr) \<le> unat va \<and>
    (unat va + unat len \<le> unat (mr_addr mr) + unat (mr_len mr) \<or>
     2 ^ 64 \<le> unat va + unat len \<and> unat va + unat len - 2 ^ 64 \<le> unat (mr_addr mr) + unat (mr_len mr))"
proof -
  have ends: "unat (mr_addr mr + mr_len mr) = unat (mr_addr mr) + unat (mr_len mr)"
    using assms(2) by (simp add: unat_word_ariths)
  have "unat va + unat len < 2 * 2 ^ 64"
    using unat_less_two_power[of va] unat_less_two_power[of len] by simp
  then have "unat (va + ucast len) = (if unat va + unat len < 2 ^ 64 then unat va + unat len else unat va + unat len - 2 ^ 64)"
    by (simp add: unat_word_ariths unat_ucast_u64 mod_if)
  then show ?thesis
    using assms ends by (auto simp: validate_rkey_def word_less_nat_alt not_less split: if_splits)
qed

theorem validate_rkey_accepts_witness:
  "validate_rkey (SKey 0) IbvAccessRemoteWrite 100 3996 sample_logic = StNormal \<and>
   validate_rkey (SKey 0) IbvAccessRemoteWrite 100 3997 sample_logic \<noteq> StNormal \<and>
   validate_rkey (SKey 0) IbvAccessRemoteWrite 0xFFFFFFFFFFFFFFF0 32 sample_logic = StNormal"
proof -
  have mr: "bl_mr_rkey_table sample_logic (SKey 0) = Some \<lparr> mr_key = SKey 0, mr_acc_flags = IbvAccessRemoteWrite, mr_pdkey = PDHandle 0,
      mr_addr = 0, mr_len = 4096, mr_pgt_offset = 0 \<rparr>"
    by (simp add: sample_logic_def update_mr_def Let_def BlueRDMALogic_new_def)
  show ?thesis
    using validate_rkey_accepts[OF mr] by (simp add: flag_contains_def IbvAccessRemoteWrite_def)
qed

text \<open>A control descriptor is answered once, with its number and opcode; a memory region update opens the region.\<close>

lemma logic_update_answers:
  "\<exists>ok. bl_ctrl_queue (logic_update desc logic) = bl_ctrl_queue logic @
     [\<lparr> hd_common = \<lparr> hc_op_id = ctrl_op_id desc, hc_opcode = to_host_ctrl_opcode desc, hc_is_success = ok \<rparr> \<rparr>]"
  by (cases desc) (auto simp: logic_update_def update_qp_def update_mr_def Let_def)

lemma update_mr_grants:
  assumes "flag_contains (um_acc_flags desc) IbvAccessRemoteWrite" "unat (um_addr desc) + unat (um_len desc) < 2 ^ 64"
  shows "grants (logic_update (UpdateMrTable desc) logic) (SKey (key_get (um_key desc))) (um_addr desc) (unat (um_len desc))"
  using assms by (simp add: logic_update_def update_mr_def Let_def grants_def unat_ucast_u64)

end
