(* ===== verification/Soft_Schedule.thy ===== *)
theory Soft_Schedule
  imports Soft_Write
begin

text \<open>
  The scheduler over the software card: the pieces into which a descriptor is split make, sent one after the other,
  the packets of the descriptor itself.
\<close>

text \<open>The loop of the scheduler thread over a batch: an error of one descriptor is logged.\<close>

fun send_descs :: "'n NetSendAgent \<Rightarrow> ToCardWorkRbDesc list \<Rightarrow> 'n \<Rightarrow> (packet_fault, 'n) result" where
  "send_descs agent [] s = Ok s"
| "send_descs agent (d # ds) s = result_bind (logic_send agent d s) (\<lambda>(_, s). send_descs agent ds s)"

subsection \<open>Packets of the pieces\<close>

abbreviation packet_bytes :: "memory \<Rightarrow> Psn \<times> u64 \<times> u64 \<times> nat \<Rightarrow> Psn \<times> u64 \<times> u8 list" where
  "packet_bytes mem \<equiv> \<lambda>(psn, ra, la, n). (psn, ra, read_mem mem la n)"

lemma cut_bytes_emit:
  "sum_list ns \<le> N \<Longrightarrow> cut_bytes psn ra (read_mem mem la N) ns = map (packet_bytes mem) (emit psn ra la ns)"
  by (induction ns arbitrary: psn ra la N) (simp_all add: read_mem_take read_mem_drop)

definition sole_sge :: "ToCardWorkRbDesc \<Rightarrow> bool" where
  "sole_sge d \<longleftrightarrow> snd (work_sges d) = (None, None, None)"

lemma sole_sge_bytes:
  assumes "sole_sge d"
  shows "desc_len d = unat (ds_len (fst (work_sges d)))"
    "desc_bytes mem d = read_mem mem (ds_addr (fst (work_sges d))) (unat (ds_len (fst (work_sges d))))"
  using assms by (cases "work_sges d"; simp add: sole_sge_def desc_len_def desc_bytes_def sge_list_def)+

lemma sole_sge_pieces:
  assumes "sole_sge d"
  shows "cut_bytes (wc_psn (work_common d)) (wc_raddr (work_common d)) (desc_bytes mem d)
      (chunk_lens (unat (pmtu_u32 (wc_pmtu (work_common d)))) (unat (wc_raddr (work_common d))) (desc_len d)) =
    map (packet_bytes mem) (desc_packets d)"
  using pmtu_positive(1)[of "wc_pmtu (work_common d)"]
  by (simp add: sole_sge_bytes[OF assms] cut_bytes_emit sum_pmtu_chunks desc_packets_def Let_def word_less_nat_alt)

lemma chunk_lens_positive: "0 < pm \<Longrightarrow> n \<in> set (chunk_lens pm va len) \<Longrightarrow> 0 < n"
  by (induction pm va len rule: pmtu_chunks.induct) (subst (asm) (2) pmtu_chunks.simps, auto simp: Let_def split: if_splits)

lemma sum_take_nth:
  assumes "i < length ns"
  shows "sum_list (take i ns) + ns ! i \<le> sum_list (ns :: nat list)"
proof -
  have "sum_list ns = sum_list (take (Suc i) ns) + sum_list (drop (Suc i) ns)"
    by (metis append_take_drop_id sum_list_append)
  then show ?thesis
    using assms by (simp add: take_Suc_conv_app_nth)
qed

lemma raw_piece: "is_raw_packet (ToCardDescriptor_from (piece f l n sge va psn d)) = is_raw_packet (ToCardDescriptor_from d)"
  by (cases d) (simp_all add: is_raw_packet_def write_descriptor_def piece_write_def)

lemma snd_sges_piece: "snd (work_sges (piece f l n sge va psn d)) = snd (work_sges d)"
  by (cases d) (simp_all add: piece_write_def)

lemma is_read_piece: "is_read (piece f l n sge va psn d) = is_read d"
  by (cases d) simp_all

lemma split_piece_ok:
  assumes "splittable d S" "sole_sge d" "write_ok d" "p \<in> set (split_spec d S)" "unat (wc_raddr (work_common d)) + unat (wc_total_len (work_common d)) < 2 ^ 64"
  shows "write_ok p" "sole_sge p" "wc_rkey (work_common p) = wc_rkey (work_common d)" "wc_dqp_ip (work_common p) = wc_dqp_ip (work_common d)"
    "unat (wc_raddr (work_common d)) \<le> unat (wc_raddr (work_common p))"
    "unat (wc_raddr (work_common p)) + desc_len p \<le> unat (wc_raddr (work_common d)) + unat (wc_total_len (work_common d))"
    "unat (wc_raddr (work_common p)) + unat (wc_total_len (work_common p)) \<le> unat (wc_raddr (work_common d)) + unat (wc_total_len (work_common d))"
proof -
  define ns where "ns = split_lens d S"
  define total where "total = unat (wc_total_len (work_common d))"
  note S = splittable_size(1)[OF assms(1)]
  have sum: "sum_list ns = total"
    using S by (simp add: ns_def split_lens_def total_def sum_pmtu_chunks)
  obtain i where i: "i < length ns" and p: "p = piece (i = 0) (Suc i = length ns) (if i = 0 then wc_total_len (work_common d) else of_nat (ns ! i))
      ((fst (work_sges d))\<lparr> ds_addr := ds_addr (fst (work_sges d)) + of_nat (sum_list (take i ns)), ds_len := of_nat (ns ! i) \<rparr>)
      (wc_raddr (work_common d) + of_nat (sum_list (take i ns)))
      (wrapping_add (wc_psn (work_common d)) (packets_before (wc_pmtu (work_common d)) (wc_raddr (work_common d)) ns i)) d"
    using assms(4) by (auto simp: split_spec_def Let_def ns_def)
  have le: "sum_list (take i ns) + ns ! i \<le> total"
    using sum_take_nth[OF i] sum by simp
  have pos: "0 < ns ! i"
    using chunk_lens_positive[OF S] nth_mem[OF i] unfolding ns_def split_lens_def by blast
  have nr: "\<not> is_read d"
    using assms(1) by (simp add: splittable_def)
  have n: "unat (of_nat (ns ! i) :: u32) = ns ! i" "total < 2 ^ 32"
    using le unat_less_two_power[of "wc_total_len (work_common d)"] by (simp_all add: total_def unat_of_nat)
  have c: "work_common p = (work_common d)\<lparr> wc_total_len := (if i = 0 then wc_total_len (work_common d) else of_nat (ns ! i)),
      wc_raddr := wc_raddr (work_common d) + of_nat (sum_list (take i ns)),
      wc_psn := wrapping_add (wc_psn (work_common d)) (packets_before (wc_pmtu (work_common d)) (wc_raddr (work_common d)) ns i) \<rparr>"
    unfolding p by (rule work_piece(2)[OF nr])
  show sole: "sole_sge p"
    using assms(2) by (simp add: p sole_sge_def snd_sges_piece)
  have len: "desc_len p = ns ! i"
    using sole_sge_bytes(1)[OF sole] n(1) by (simp add: p work_piece(1)[OF nr])
  have va: "unat (wc_raddr (work_common p)) = unat (wc_raddr (work_common d)) + sum_list (take i ns)"
    using le assms(5) by (simp add: c unat_word_ariths unat_of_nat flip: total_def)
  have "\<not> is_read p" "\<not> is_raw_packet (ToCardDescriptor_from p)"
    using assms(3) nr by (simp_all add: p is_read_piece raw_piece write_ok_def)
  then show "write_ok p"
    using assms(3) sole pos n(2) le by (cases "work_sges p") (simp add: write_ok_def len c sole_sge_def)
  show "unat (wc_raddr (work_common d)) \<le> unat (wc_raddr (work_common p))"
    "unat (wc_raddr (work_common p)) + desc_len p \<le> unat (wc_raddr (work_common d)) + unat (wc_total_len (work_common d))"
    using le by (simp_all add: va len flip: total_def)
  show "unat (wc_raddr (work_common p)) + unat (wc_total_len (work_common p)) \<le> unat (wc_raddr (work_common d)) + unat (wc_total_len (work_common d))"
    using le n(1) by (simp add: va) (simp add: c flip: total_def)
  show "wc_rkey (work_common p) = wc_rkey (work_common d)" "wc_dqp_ip (work_common p) = wc_dqp_ip (work_common d)"
    by (simp_all add: c)
qed

lemma list_concat_all2:
  "list_all2 (\<lambda>x ys. list_all2 P (f x) ys) xs yss \<Longrightarrow> list_all2 P (concat (map f xs)) (concat yss)"
  by (induction rule: list_all2_induct) (simp_all add: list_all2_appendI)

lemma send_all_append: "send_all agent ip (ms @ ns) = net_bind (send_all agent ip ms) (\<lambda>_. send_all agent ip ns)"
  by (induction ms) (simp_all add: net_bind_assoc)

lemma net_bind_Ok: "net_bind m f s = Ok (Ok y, s') \<longleftrightarrow> (\<exists>x s1. m s = Ok (Ok x, s1) \<and> f x s1 = Ok (Ok y, s'))"
  by (auto simp: net_bind_def result_bind_def split: sum.splits prod.splits)

lemma send_descs_all:
  assumes "list_all2 (\<lambda>d msgs. logic_send agent d = send_all agent ip msgs) ds msgss" "send_all agent ip (concat msgss) s = Ok (Ok (), s')"
  shows "send_descs agent ds s = Ok s'"
  using assms
proof (induction ds msgss arbitrary: s rule: list_all2_induct)
  case (Cons d ds msgs msgss)
  obtain s1 where "send_all agent ip msgs s = Ok (Ok (), s1)" "send_all agent ip (concat msgss) s1 = Ok (Ok (), s')"
    using Cons.prems by (auto simp: send_all_append net_bind_Ok)
  then show ?case
    using Cons by simp
qed (simp add: net_return_def)

text \<open>The split pieces as messages that the peer accepts.\<close>

lemma split_messages:
  assumes "splittable d S" "sole_sge d" "write_ok d" "unat (pmtu_u32 (wc_pmtu (work_common d))) dvd unat S"
    and "desc_len d = unat (wc_total_len (work_common d))"
    and "grants logic (SKey (key_get (wc_rkey (work_common d)))) (wc_raddr (work_common d)) (desc_len d)"
  shows "\<exists>msgs. (\<forall>agent :: 'n NetSendAgent. \<forall>s s'. send_all agent (wc_dqp_ip (work_common d)) msgs s = Ok (Ok (), s') \<longrightarrow>
        send_descs agent (split_spec d S) s = Ok s') \<and>
    list_all2 (admissible logic mem) (map (packet_bytes mem) (desc_packets d)) msgs"
proof -
  let ?c = "work_common d"
  have "\<exists>msgs. (\<forall>agent :: 'n NetSendAgent. logic_send agent p = send_all agent (wc_dqp_ip ?c) msgs) \<and>
      list_all2 (admissible logic mem) (map (packet_bytes mem) (desc_packets p)) msgs" if "p \<in> set (split_spec d S)" for p
  proof -
    note ok = split_piece_ok[OF assms(1-3) that grants_size[OF assms(6), unfolded assms(5)]]
    show ?thesis
      using desc_messages_admissible[OF ok(1), of logic "wc_raddr ?c" "desc_len d" mem] ok(3-7) assms(5,6)
      by (simp add: sole_sge_pieces[OF ok(2)])
  qed
  then obtain msgs where msgs: "\<And>p agent. p \<in> set (split_spec d S) \<Longrightarrow> logic_send (agent :: 'n NetSendAgent) p = send_all agent (wc_dqp_ip ?c) (msgs p)"
    "\<And>p. p \<in> set (split_spec d S) \<Longrightarrow> list_all2 (admissible logic mem) (map (packet_bytes mem) (desc_packets p)) (msgs p)"
    by metis
  have "list_all2 (\<lambda>p ms. logic_send agent p = send_all agent (wc_dqp_ip ?c) ms) (split_spec d S) (map msgs (split_spec d S))" for agent :: "'n NetSendAgent"
    using msgs(1) by (simp add: list_all2_conv_all_nth)
  moreover have "list_all2 (admissible logic mem) (concat (map (\<lambda>p. map (packet_bytes mem) (desc_packets p)) (split_spec d S)))
      (concat (map msgs (split_spec d S)))"
    using msgs(2) by (intro list_concat_all2) (simp add: list_all2_conv_all_nth)
  moreover have "concat (map (\<lambda>p. map (packet_bytes mem) (desc_packets p)) (split_spec d S)) = map (packet_bytes mem) (desc_packets d)"
  proof -
    have "concat (map (\<lambda>p. map (packet_bytes mem) (desc_packets p)) (split_spec d S)) =
        map (packet_bytes mem) (concat (map desc_packets (split_spec d S)))"
      by (simp add: map_concat comp_def)
    then show ?thesis
      using split_spec_packets[OF assms(1,4)] assms(5) sole_sge_bytes(1)[OF assms(2)] by (simp add: word_unat_eq_iff)
  qed
  ultimately show ?thesis
    by (intro exI[of _ "concat (map msgs (split_spec d S))"] conjI allI impI) (blast intro: send_descs_all, simp)
qed

lemma split_write_arrives:
  assumes "splittable d S" "sole_sge d" "write_ok d" "unat (pmtu_u32 (wc_pmtu (work_common d))) dvd unat S"
    and "desc_len d = unat (wc_total_len (work_common d))" "accepting sock"
    and "grants logic (SKey (key_get (wc_rkey (work_common d)))) (wc_raddr (work_common d)) (desc_len d)"
    and "off_buffer buf (wc_raddr (work_common d)) (desc_len d)"
  shows "\<exists>s' packets. send_descs (udp_agent crc32 sock mem) (split_spec d S) s = Ok s' \<and>
    us_datagrams s' = us_datagrams s @ map (\<lambda>p. (wc_dqp_ip (work_common d), DEST_PORT, p)) packets \<and>
    (\<forall>received mem'. list_all2 same_invariant packets received \<longrightarrow>
       (\<exists>peer. receive_datagrams crc32 buf received mem' logic = Ok peer \<and>
          arrived buf (wc_raddr (work_common d)) (desc_bytes mem d) (map (packet_bytes mem) (desc_packets d)) (mem', logic) peer))"
proof -
  let ?c = "work_common d"
  let ?ns = "chunk_lens (unat (pmtu_u32 (wc_pmtu ?c))) (unat (wc_raddr ?c)) (desc_len d)"
  have len: "length (desc_bytes mem d) = desc_len d" "desc_len d < 2 ^ 64"
    using grants_size[OF assms(7)] by (simp_all add: desc_bytes_def desc_len_def length_concat comp_def)
  have ns: "sum_list ?ns = length (desc_bytes mem d)"
    using pmtu_positive(1)[of "wc_pmtu ?c"] by (simp add: len(1) sum_pmtu_chunks word_less_nat_alt)
  obtain msgs where msgs: "\<forall>agent :: UDPSendAgent NetSendAgent. \<forall>s s'. send_all agent (wc_dqp_ip ?c) msgs s = Ok (Ok (), s') \<longrightarrow>
      send_descs agent (split_spec d S) s = Ok s'"
    "list_all2 (admissible logic mem) (map (packet_bytes mem) (desc_packets d)) msgs"
    using split_messages[OF assms(1-5,7), of mem] by (elim exE conjE) (rule that)
  obtain s' packets where sent: "send_all (udp_agent crc32 sock mem) (wc_dqp_ip ?c) msgs s = Ok (Ok (), s')"
    "us_datagrams s' = us_datagrams s @ map (\<lambda>p. (wc_dqp_ip ?c, DEST_PORT, p)) packets" "list_all2 (packet_of crc32 mem) msgs packets"
    using send_all_udp[OF assms(6) msgs(2), of crc32 "wc_dqp_ip ?c" s] by (elim exE conjE) (rule that)
  have adm: "list_all2 (admissible logic mem) (cut_bytes (wc_psn ?c) (wc_raddr ?c) (desc_bytes mem d) ?ns) msgs"
    using msgs(2) by (simp add: sole_sge_pieces[OF assms(2)])
  have "\<exists>peer. receive_datagrams crc32 buf received mem' logic = Ok peer \<and>
      arrived buf (wc_raddr ?c) (desc_bytes mem d) (map (packet_bytes mem) (desc_packets d)) (mem', logic) peer"
    if "list_all2 same_invariant packets received" for received mem'
    using pieces_arrive[OF adm ns _ sent(3) that, of buf mem'] assms(8) len unfolding sole_sge_pieces[OF assms(2)] by simp
  moreover have "send_descs (udp_agent crc32 sock mem) (split_spec d S) s = Ok s'"
    using msgs(1) sent(1) by simp
  ultimately show ?thesis
    using sent(2) by (intro exI[of _ s'] exI[of _ packets]) simp
qed

end
