(* ===== verification/Nic.thy ===== *)
theory Nic
  imports Device Work_Poller Soft_Packet "HOL-Library.AList"
begin

text \<open>
  The network interface that the driver offers to the IP stack, \<^verbatim>\<open>src/nic.rs\<close>: the frames that arrive
  in raw packets, the cache of neighbours that is filled from them, the frames that are sent, the
  queries for the MAC address of a neighbour and the thread that answers them.

  The IP stack is the crate \<^verbatim>\<open>smoltcp\<close>. What it does in one turn of the thread is an
  argument of the definitions: the calls that \<^verbatim>\<open>Interface::poll\<close> makes to the device, in their order, and what the
  two sockets answer. The closure that a token gets is the function from the frame to the frame it leaves behind.
\<close>

subsection \<open>The device\<close>

definition ETH_TYPE_START :: nat where "ETH_TYPE_START = 12"
definition ETH_TYPE_IP :: u16 where "ETH_TYPE_IP = 0x0800"
definition IPV4_SRC_START :: nat where "IPV4_SRC_START = 26"

record BasicNicDeivce =
  bn_device :: DeviceInner
  bn_tx_buf :: PacketBuf
  bn_receiver :: "NicRecvNotification list"
  bn_connected :: bool
  bn_neighbor_cache :: "Ipv4Addr \<rightharpoonup> MacAddress"
  bn_memory :: memory

definition nic_receive :: "BasicNicDeivce \<Rightarrow> (panic, (usize \<times> nat) option \<times> BasicNicDeivce) result" where
  "nic_receive self =
     (case bn_receiver self of
        notification # rest \<Rightarrow>
          (let len = unat (nn_len notification)
           in if len > unat NIC_PACKET_BUFFER_SLOT_SIZE then Err Panic
              else Ok (Some (slot_ptr (nn_buf notification), len), self\<lparr> bn_receiver := rest \<rparr>))
      | [] \<Rightarrow> if bn_connected self then Ok (None, self) else Err Panic)"

definition rx_consume :: "(u8 list \<Rightarrow> u8 list) \<Rightarrow> usize \<times> nat \<Rightarrow> BasicNicDeivce \<Rightarrow> (panic, BasicNicDeivce) result" where
  "rx_consume f token self =
     (let frame = read_mem (bn_memory self) (fst token) (snd token)
      in if length frame < ETH_TYPE_START + 2 then Err Panic
         else
           let eth_type = push_bit 8 (ucast (frame ! ETH_TYPE_START)) OR ucast (frame ! (ETH_TYPE_START + 1));
               after = (\<lambda>self. self\<lparr> bn_memory := write_mem (fst token) (take (snd token) (f frame)) (bn_memory self) \<rparr>)
           in if eth_type = ETH_TYPE_IP then
                if length frame < IPV4_SRC_START + 4 then Err Panic
                else
                  let src_mac_addr = take 6 (drop 6 frame);
                      src_ip_addr = from_be_bytes (take 4 (drop IPV4_SRC_START frame))
                  in Ok (after (self\<lparr> bn_neighbor_cache := (bn_neighbor_cache self)(src_ip_addr \<mapsto> src_mac_addr) \<rparr>))
              else Ok (after self))"

text \<open>The failing exchanges of \<^const>\<open>recycle_buf\<close> are an argument, as there.\<close>

definition tx_consume ::
  "adaptor \<Rightarrow> u16 list \<Rightarrow> usize \<Rightarrow> (u8 list \<Rightarrow> u8 list) \<Rightarrow> BasicNicDeivce \<Rightarrow> (panic, BasicNicDeivce) result" where
  "tx_consume ad stale len f self =
     result_bind (recycle_buf NIC_PACKET_BUFFER_SLOT_SIZE stale (bn_tx_buf self)) (\<lambda>(buf, tx_buf).
       if len > NIC_PACKET_BUFFER_SLOT_SIZE then Err Panic
       else
         let bytes = read_mem (bn_memory self) (slot_ptr buf) (unat len);
             memory = write_mem (slot_ptr buf) (take (unat len) (f bytes)) (bn_memory self)
         in result_bind (into_sge NIC_PACKET_BUFFER_SLOT_SIZE buf (ucast len)) (\<lambda>sge.
              let total_len = min 64 len;
                  common = ToCardWorkRbDescCommon_default\<lparr> wc_qp_type := RawPacket, wc_total_len := ucast total_len, wc_pmtu := Mtu1024 \<rparr>
              in case build (with_sge sge (with_common common (Builder_new CoWriteWithImm))) of
                   Inl e \<Rightarrow> Err Panic
                 | Inr desc \<Rightarrow>
                     Ok (self\<lparr> bn_device := snd (dev_send_work_desc ad desc (bn_device self)), bn_tx_buf := tx_buf, bn_memory := memory \<rparr>)))"

text \<open>What \<^verbatim>\<open>Interface::poll\<close> calls.\<close>

datatype nic_call =
    RxCall "u8 list \<Rightarrow> u8 list"
  | TxCall "u16 list" usize "u8 list \<Rightarrow> u8 list"

fun nic_poll :: "adaptor \<Rightarrow> nic_call list \<Rightarrow> BasicNicDeivce \<Rightarrow> (panic, BasicNicDeivce) result" where
  "nic_poll ad [] self = Ok self"
| "nic_poll ad (RxCall f # calls) self =
     result_bind (nic_receive self) (\<lambda>(token, self).
       case token of
         None \<Rightarrow> nic_poll ad calls self
       | Some token \<Rightarrow> result_bind (rx_consume f token self) (nic_poll ad calls))"
| "nic_poll ad (TxCall stale len f # calls) self =
     result_bind (tx_consume ad stale len f self) (nic_poll ad calls)"

subsection \<open>The queries\<close>

text \<open>
  A thread that parks waits for its token, which \<^verbatim>\<open>unpark\<close> gives. The address of a pending query is kept with the
  thread and the time when it is given up, in microseconds.
\<close>

type_synonym thread = nat

record NicWorkingContext =
  nw_device :: BasicNicDeivce
  nw_queries :: "(Ipv4Addr \<times> thread) list"
  nw_open :: bool
  nw_query_map :: "(Ipv4Addr \<times> thread \<times> nat) list"
  nw_tokens :: "thread set"
  nw_icmp_sent :: "Ipv4Addr list"
  nw_ip_addrs :: "Ipv4Addr list"
  nw_route :: "Ipv4Addr option"

abbreviation cache_of :: "NicWorkingContext \<Rightarrow> Ipv4Addr \<rightharpoonup> MacAddress" where
  "cache_of self \<equiv> bn_neighbor_cache (nw_device self)"

text \<open>\<^verbatim>\<open>query_mac_addr\<close> up to the call of \<^verbatim>\<open>park\<close>, and from its return.\<close>

datatype query = Answer "MacAddress option" | Parked

definition query_mac_addr :: "Ipv4Addr \<Rightarrow> thread \<Rightarrow> NicWorkingContext \<Rightarrow> query \<times> NicWorkingContext" where
  "query_mac_addr ip thread self =
     (case cache_of self ip of
        Some mac \<Rightarrow> (Answer (Some mac), self)
      | None \<Rightarrow>
          if \<not> nw_open self then (Answer None, self)
          else (Parked, self\<lparr> nw_queries := nw_queries self @ [(ip, thread)] \<rparr>))"

definition query_resume :: "Ipv4Addr \<Rightarrow> thread \<Rightarrow> NicWorkingContext \<Rightarrow> query \<times> NicWorkingContext" where
  "query_resume ip thread self =
     (if thread \<in> nw_tokens self then (Answer (cache_of self ip), self\<lparr> nw_tokens := nw_tokens self - {thread} \<rparr>)
      else (Parked, self))"

definition unpark_thread :: "thread \<Rightarrow> NicWorkingContext \<Rightarrow> NicWorkingContext" where
  "unpark_thread thread self = self\<lparr> nw_tokens := insert thread (nw_tokens self) \<rparr>"

subsection \<open>One turn of the working thread\<close>

datatype Icmpv4Repr = EchoRequest | EchoReply | DstUnreachable | TimeExceeded | OtherRepr

datatype dhcp_event = Configured Ipv4Addr "Ipv4Addr option" | Deconfigured

text \<open>
  The answers of the sockets in a turn: whether the ICMP socket can send and whether the send succeeds, the packet
  it received, if any, with the result of parsing it and its sender, the same for the send of the reply, and the event of the
  DHCP socket with whether the route can be added.
\<close>

record sockets =
  so_can_send :: bool
  so_send_ok :: bool
  so_recv :: "(Icmpv4Repr option \<times> Ipv4Addr) option"
  so_can_reply :: bool
  so_reply_ok :: bool
  so_dhcp :: "dhcp_event option"
  so_route_ok :: bool

definition send_query :: "nat \<Rightarrow> sockets \<Rightarrow> NicWorkingContext \<Rightarrow> (panic, NicWorkingContext) result" where
  "send_query timestamp so self =
     (if \<not> so_can_send so then Ok self
      else case nw_queries self of
             [] \<Rightarrow> Ok self
           | (addr, thread) # rest \<Rightarrow>
               (let known = map_of (nw_query_map self) addr \<noteq> None;
                    self = self\<lparr> nw_queries := rest, nw_query_map := AList.update addr (thread, timestamp + 5000000) (nw_query_map self) \<rparr>
                in if known then Ok self
                   else if \<not> so_send_ok so then Err Panic
                   else Ok (self\<lparr> nw_icmp_sent := nw_icmp_sent self @ [addr] \<rparr>)))"

definition recv_reply :: "sockets \<Rightarrow> NicWorkingContext \<Rightarrow> (panic, NicWorkingContext) result" where
  "recv_reply so self =
     (case so_recv so of
        None \<Rightarrow> Ok self
      | Some (None, addr) \<Rightarrow> Err Panic
      | Some (Some icmp_repr, addr) \<Rightarrow>
          result_bind
            (case icmp_repr of
               EchoRequest \<Rightarrow>
                 if so_can_reply so then
                   if \<not> so_reply_ok so then Err Panic else Ok (self\<lparr> nw_icmp_sent := nw_icmp_sent self @ [addr] \<rparr>)
                 else Ok self
             | OtherRepr \<Rightarrow> Err Panic
             | _ \<Rightarrow> Ok self)
            (\<lambda>self. Ok (case map_of (nw_query_map self) addr of
                          Some (thread, _) \<Rightarrow> unpark_thread thread self
                        | None \<Rightarrow> self)))"

definition set_ipv4_addr :: "Ipv4Addr \<Rightarrow> NicWorkingContext \<Rightarrow> NicWorkingContext" where
  "set_ipv4_addr cidr self = self\<lparr> nw_ip_addrs := [cidr] \<rparr>"

definition handle_dhcp :: "sockets \<Rightarrow> NicWorkingContext \<Rightarrow> (panic, NicWorkingContext) result" where
  "handle_dhcp so self =
     (case so_dhcp so of
        None \<Rightarrow> Ok self
      | Some (Configured address router) \<Rightarrow>
          (let self = set_ipv4_addr address self
           in case router of
                Some router \<Rightarrow> if so_route_ok so then Ok (self\<lparr> nw_route := Some router \<rparr>) else Err Panic
              | None \<Rightarrow> Ok (self\<lparr> nw_route := None \<rparr>))
      | Some Deconfigured \<Rightarrow> Ok (self\<lparr> nw_ip_addrs := [], nw_route := None \<rparr>))"

definition retain_queries :: "nat \<Rightarrow> NicWorkingContext \<Rightarrow> NicWorkingContext" where
  "retain_queries timestamp self =
     (let due = filter (\<lambda>(_, _, timeout). timestamp \<ge> timeout) (nw_query_map self)
      in self\<lparr> nw_query_map := filter (\<lambda>(_, _, timeout). timestamp < timeout) (nw_query_map self),
               nw_tokens := nw_tokens self \<union> set (map (\<lambda>(_, thread, _). thread) due) \<rparr>)"

definition nic_turn ::
  "adaptor \<Rightarrow> nat \<times> nic_call list \<times> sockets \<Rightarrow> NicWorkingContext \<Rightarrow> (panic, NicWorkingContext) result" where
  "nic_turn ad turn self =
     (case turn of (timestamp, calls, so) \<Rightarrow>
        result_bind (nic_poll ad calls (nw_device self)) (\<lambda>device.
        result_bind (send_query timestamp so (self\<lparr> nw_device := device \<rparr>)) (\<lambda>self.
        result_bind (recv_reply so self) (\<lambda>self.
        result_bind (handle_dhcp so self) (\<lambda>self.
          Ok (retain_queries timestamp self))))))"

fun nic_working_thread ::
  "adaptor \<Rightarrow> (nat \<times> nic_call list \<times> sockets) list \<Rightarrow> NicWorkingContext \<Rightarrow> (panic, NicWorkingContext) result" where
  "nic_working_thread ad [] self = Ok self"
| "nic_working_thread ad (turn # turns) self = result_bind (nic_turn ad turn self) (nic_working_thread ad turns)"

subsection \<open>Sending\<close>

lemma build_without_imm:
  "build (with_sge sge (with_common common (Builder_new CoWriteWithImm))) = Err (BuildDescFailed ''imm'')"
  by (simp add: build_def with_sge_def with_common_def Builder_new_def build_write_def pop_def)

lemma tx_consume_panics: "tx_consume ad stale len f self = Err Panic"
proof (cases "recycle_buf NIC_PACKET_BUFFER_SLOT_SIZE stale (bn_tx_buf self)")
  case (Inl e)
  then show ?thesis
    by (cases e) (simp add: tx_consume_def)
next
  case (Inr p)
  then show ?thesis
    by (cases p) (simp add: tx_consume_def into_sge_def build_without_imm Let_def)
qed

lemma nic_poll_append:
  "nic_poll ad (calls1 @ calls2) self = result_bind (nic_poll ad calls1 self) (nic_poll ad calls2)"
proof (induction calls1 arbitrary: self)
  case (Cons call calls1)
  then show ?case
    by (cases call) (auto simp: result_bind_def split: sum.split option.split)
qed simp

lemma nic_poll_tx_panics: "nic_poll ad (calls1 @ TxCall stale len f # calls2) self = Err Panic"
proof (cases "nic_poll ad calls1 self")
  case (Inl e)
  then show ?thesis
    by (cases e) (simp add: nic_poll_append)
qed (simp add: nic_poll_append tx_consume_panics)

lemma nic_working_thread_append:
  "nic_working_thread ad (turns1 @ turns2) self = result_bind (nic_working_thread ad turns1 self) (nic_working_thread ad turns2)"
  by (induction turns1 arbitrary: self) (auto simp: result_bind_def split: sum.split)

text \<open>
  C13. No frame can be sent: the descriptor of a raw packet is built as a write with
  immediate but without the immediate, which the builder refuses, so that the first frame that the IP stack
  sends, whatever its length and content, ends the thread of the interface with a panic.
\<close>

theorem nic_transmit_panics:
  "nic_working_thread ad (turns1 @ (timestamp, calls1 @ TxCall stale len f # calls2, so) # turns2) self = Err Panic"
proof (cases "nic_working_thread ad turns1 self")
  case (Inl e)
  then show ?thesis
    by (cases e) (simp add: nic_working_thread_append)
qed (simp add: nic_working_thread_append nic_turn_def nic_poll_tx_panics)

subsection \<open>Receiving\<close>

text \<open>A frame of the IP protocol, with its sender: the fields of the Ethernet and the IP header that matter.\<close>

definition ip_frame :: "Ipv4Addr \<Rightarrow> MacAddress \<Rightarrow> u8 list \<Rightarrow> bool" where
  "ip_frame ip mac fr \<longleftrightarrow>
     30 \<le> length fr \<and> take 2 (drop 12 fr) = [8, 0] \<and> take 6 (drop 6 fr) = mac \<and>
     from_be_bytes (take 4 (drop 26 fr)) = ip"

definition other_frame :: "u8 list \<Rightarrow> bool" where
  "other_frame fr \<longleftrightarrow> 14 \<le> length fr \<and> take 2 (drop 12 fr) \<noteq> [8, 0]"

definition raw_frame :: "memory \<Rightarrow> ToHostWorkRbDescRaw \<Rightarrow> u8 list" where
  "raw_frame mem d = read_mem mem (hx_addr d) (unat (hx_len d))"

lemma eth_type_bytes:
  fixes fr :: "u8 list"
  assumes "14 \<le> length fr"
  shows "push_bit 8 (ucast (fr ! 12)) OR ucast (fr ! 13) = (0x0800 :: u16) \<longleftrightarrow> take 2 (drop 12 fr) = [8, 0]"
proof -
  have "push_bit 8 (ucast a) OR ucast b = (0x0800 :: u16) \<longleftrightarrow> a = 8 \<and> b = 0" for a b :: u8
  proof
    assume *: "push_bit 8 (ucast a) OR ucast b = (0x0800 :: u16)"
    have "ucast (drop_bit 8 (push_bit 8 (ucast a) OR ucast b :: u16)) = a"
      by (rule bit_word_eqI) (auto simp: bit_simps dest: bit_imp_le_length)
    moreover have "ucast (push_bit 8 (ucast a) OR ucast b :: u16) = b"
      by (rule bit_word_eqI) (auto simp: bit_simps dest: bit_imp_le_length)
    ultimately show "a = 8 \<and> b = 0"
      unfolding * by simp
  qed simp
  moreover have "take 2 (drop 12 fr) = [fr ! 12, fr ! 13]"
    using assms by (simp add: numeral_2_eq_2 take_Suc_conv_app_nth)
  ultimately show ?thesis
    by simp
qed

lemma write_read_mem:
  assumes "n \<le> 2 ^ 64"
  shows "write_mem a (read_mem mem a n) mem = mem"
proof
  fix x
  show "write_mem a (read_mem mem a n) mem x = mem x"
    by (simp add: write_mem_def read_mem_def)
qed

lemma rx_consume_ip:
  assumes "ip_frame ip mac (read_mem (bn_memory self) a n)" "n \<le> 4096"
  shows "rx_consume id (a, n) self = Ok (self\<lparr> bn_neighbor_cache := (bn_neighbor_cache self)(ip \<mapsto> mac) \<rparr>)"
  using assms eth_type_bytes[of "read_mem (bn_memory self) a n"] write_read_mem[of n a "bn_memory self"]
  by (simp add: rx_consume_def ip_frame_def length_read_mem ETH_TYPE_START_def IPV4_SRC_START_def ETH_TYPE_IP_def Let_def)

lemma rx_consume_other:
  assumes "other_frame (read_mem (bn_memory self) a n)" "n \<le> 4096"
  shows "rx_consume id (a, n) self = Ok self"
  using assms eth_type_bytes[of "read_mem (bn_memory self) a n"] write_read_mem[of n a "bn_memory self"]
  by (simp add: rx_consume_def other_frame_def length_read_mem ETH_TYPE_START_def ETH_TYPE_IP_def Let_def)

lemma nic_poll_rx:
  assumes "bn_receiver self = \<lparr> nn_buf = \<lparr> slot_ptr = hx_addr d, slot_key = hx_key d \<rparr>, nn_len = hx_len d \<rparr> # rest"
    and "hx_len d \<le> 4096" "rx_consume id (hx_addr d, unat (hx_len d)) (self\<lparr> bn_receiver := rest \<rparr>) = Ok self'"
  shows "nic_poll ad (RxCall id # calls) self = nic_poll ad calls self'"
  using assms by (simp add: nic_receive_def NIC_PACKET_BUFFER_SLOT_SIZE_def word_le_nat_alt Let_def)

definition notification :: "ToHostWorkRbDescRaw \<Rightarrow> NicRecvNotification" where
  "notification d = \<lparr> nn_buf = \<lparr> slot_ptr = hx_addr d, slot_key = hx_key d \<rparr>, nn_len = hx_len d \<rparr>"

definition good_raw :: "memory \<Rightarrow> ToHostWorkRbDescRaw \<Rightarrow> bool" where
  "good_raw mem d \<longleftrightarrow> hx_len d \<le> 4096 \<and> (other_frame (raw_frame mem d) \<or> 
     ip_frame (from_be_bytes (take 4 (drop 26 (raw_frame mem d)))) (take 6 (drop 6 (raw_frame mem d))) (raw_frame mem d))"

text \<open>What a frame leaves in the cache.\<close>

definition learn :: "memory \<Rightarrow> ToHostWorkRbDescRaw \<Rightarrow> (Ipv4Addr \<rightharpoonup> MacAddress) \<Rightarrow> (Ipv4Addr \<rightharpoonup> MacAddress)" where
  "learn mem d cache =
     (let fr = raw_frame mem d
      in if other_frame fr then cache else cache(from_be_bytes (take 4 (drop 26 fr)) \<mapsto> take 6 (drop 6 fr)))"

lemma nic_poll_good:
  assumes "bn_receiver self = notification d # rest" "good_raw (bn_memory self) d"
  shows "nic_poll ad (RxCall id # calls) self =
    nic_poll ad calls (self\<lparr> bn_receiver := rest, bn_neighbor_cache := learn (bn_memory self) d (bn_neighbor_cache self) \<rparr>)"
proof (rule nic_poll_rx)
  let ?fr = "raw_frame (bn_memory self) d" and ?self = "self\<lparr> bn_receiver := rest \<rparr>"
  show "bn_receiver self = \<lparr> nn_buf = \<lparr> slot_ptr = hx_addr d, slot_key = hx_key d \<rparr>, nn_len = hx_len d \<rparr> # rest"
    using assms(1) by (simp add: notification_def)
  have len: "unat (hx_len d) \<le> 4096"
    using assms(2) by (simp add: good_raw_def word_le_nat_alt)
  show "hx_len d \<le> 4096"
    using assms(2) by (simp add: good_raw_def)
  show "rx_consume id (hx_addr d, unat (hx_len d)) ?self =
      Ok (self\<lparr> bn_receiver := rest, bn_neighbor_cache := learn (bn_memory self) d (bn_neighbor_cache self) \<rparr>)"
  proof (cases "other_frame ?fr")
    case True
    then show ?thesis
      using rx_consume_other[of ?self "hx_addr d" "unat (hx_len d)"] len by (simp add: learn_def raw_frame_def Let_def)
  next
    case False
    then have "ip_frame (from_be_bytes (take 4 (drop 26 ?fr))) (take 6 (drop 6 ?fr)) ?fr"
      using assms(2) by (simp add: good_raw_def)
    then show ?thesis
      using False rx_consume_ip[of _ _ ?self "hx_addr d" "unat (hx_len d)"] len by (simp add: learn_def raw_frame_def Let_def)
  qed
qed

lemma nic_poll_frames:
  assumes "bn_receiver self = map notification ds" "list_all (good_raw (bn_memory self)) ds"
  shows "nic_poll ad (replicate (length ds) (RxCall id)) self =
    Ok (self\<lparr> bn_receiver := [], bn_neighbor_cache := fold (learn (bn_memory self)) ds (bn_neighbor_cache self) \<rparr>)"
  using assms
proof (induction ds arbitrary: self)
  case (Cons d ds)
  let ?self = "self\<lparr> bn_receiver := map notification ds, bn_neighbor_cache := learn (bn_memory self) d (bn_neighbor_cache self) \<rparr>"
  have "nic_poll ad (replicate (length ds) (RxCall id)) ?self =
      Ok (?self\<lparr> bn_receiver := [], bn_neighbor_cache := fold (learn (bn_memory ?self)) ds (bn_neighbor_cache ?self) \<rparr>)"
    by (rule Cons.IH) (use Cons.prems(2) in simp_all)
  then show ?case
    using nic_poll_good[of self d "map notification ds" ad "replicate (length ds) (RxCall id)"] Cons.prems
    by (simp del: nic_poll.simps id_apply)
qed simp

lemma learn_other:
  assumes "good_raw mem d" "\<forall>mac. \<not> ip_frame ip mac (raw_frame mem d)"
  shows "learn mem d cache ip = cache ip"
  using assms by (auto simp: learn_def good_raw_def Let_def)

lemma fold_learn_other:
  assumes "list_all (good_raw mem) ds" "\<forall>d\<in>set ds. \<forall>mac. \<not> ip_frame ip mac (raw_frame mem d)"
  shows "fold (learn mem) ds cache ip = cache ip"
  using assms by (induction ds arbitrary: cache) (simp_all add: learn_other)

lemma learn_ip: "ip_frame ip mac (raw_frame mem d) \<Longrightarrow> learn mem d cache ip = Some mac"
  by (auto simp: learn_def ip_frame_def other_frame_def Let_def)

lemma poll_raw:
  assumes "list_all (\<lambda>d. hw_status (hx_common d) = StNormal) ds" "wp_nic_open ctx"
  shows "poll_working_thread (map (\<lambda>d. Ok (HRaw d)) ds) ctx =
    Ok (True, ctx\<lparr> wp_nic_channel := wp_nic_channel ctx @ map notification ds \<rparr>)"
  using assms
  by (induction ds arbitrary: ctx) (simp_all add: handle_work_desc_def handle_work_desc_raw_def notification_def)

text \<open>
  C12. The neighbours are learned from what the card reports: raw packets, one for each frame, are passed by the polling
  thread to the interface. Once the IP stack has taken them, no frame is left, and the query for an address is
  answered at once with the source MAC address of the last IP frame from that address, without waiting; the other frames
  do not matter, and nothing else of the interface changes.
\<close>

theorem neighbour_learned:
  assumes "list_all (\<lambda>d. hw_status (hx_common d) = StNormal) ds" "wp_nic_open wctx" "wp_nic_channel wctx = []"
    and "list_all (good_raw (bn_memory self)) ds"
    and "ds = ds1 @ d # ds2" "ip_frame ip mac (raw_frame (bn_memory self) d)"
    and "\<forall>e\<in>set ds2. \<forall>mac. \<not> ip_frame ip mac (raw_frame (bn_memory self) e)"
    and "bn_receiver self = []"
  shows "\<exists>wctx' self'. poll_working_thread (map (\<lambda>d. Ok (HRaw d)) ds) wctx = Ok (True, wctx') \<and>
    nic_poll ad (replicate (length ds) (RxCall id)) (self\<lparr> bn_receiver := wp_nic_channel wctx' \<rparr>) = Ok self' \<and>
    self' = self\<lparr> bn_neighbor_cache := bn_neighbor_cache self' \<rparr> \<and>
    (\<forall>ctx thread. query_mac_addr ip thread (ctx\<lparr> nw_device := self' \<rparr>) = (Answer (Some mac), ctx\<lparr> nw_device := self' \<rparr>))"
proof -
  let ?self = "self\<lparr> bn_receiver := map notification ds \<rparr>"
  let ?cache = "fold (learn (bn_memory self)) ds (bn_neighbor_cache self)"
  have "?cache ip = Some mac"
    using assms(4-7) by (simp add: fold_learn_other learn_ip)
  moreover have "nic_poll ad (replicate (length ds) (RxCall id)) ?self =
      Ok (self\<lparr> bn_receiver := [], bn_neighbor_cache := ?cache \<rparr>)"
    using nic_poll_frames[of ?self ds ad] assms(4) by simp
  ultimately show ?thesis
    using poll_raw[OF assms(1,2)] assms(3,8) by (simp add: query_mac_addr_def)
qed

text \<open>A frame of thirty bytes at address 4096 in a memory that holds nothing else.\<close>

definition sample_frame_memory :: memory where
  "sample_frame_memory = write_mem 4096
     ([0, 0, 0, 0, 0, 0, 0xA, 0xB, 0xC, 0xD, 0xE, 0xF, 8, 0, 0, 0, 0, 0, 0, 0, 0, 0, 0, 0, 0, 0, 192, 168, 0, 2]) (\<lambda>_. 0)"

definition sample_raw :: ToHostWorkRbDescRaw where
  "sample_raw = \<lparr> hx_common = \<lparr> hw_status = StNormal, hw_trans = TtRc, hw_dqpn = ThreeBytesStruct 0, hw_msn = Msn 0, hw_expected_psn = ThreeBytesStruct 0 \<rparr>,
     hx_addr = 4096, hx_len = 30, hx_key = Key 1 \<rparr>"

definition sample_nic :: BasicNicDeivce where
  "sample_nic = \<lparr> bn_device = sample_device, bn_tx_buf = \<lparr> pb_head = 0, pb_start_va = 8192, pb_slot_length = 1, pb_lkey = Key 2 \<rparr>, bn_receiver = [], bn_connected = True,
     bn_neighbor_cache = Map.empty, bn_memory = sample_frame_memory \<rparr>"

lemma sample_raw_frame: "raw_frame sample_frame_memory sample_raw =
    [0, 0, 0, 0, 0, 0, 0xA, 0xB, 0xC, 0xD, 0xE, 0xF, 8, 0, 0, 0, 0, 0, 0, 0, 0, 0, 0, 0, 0, 0, 192, 168, 0, 2]"
  by (simp add: raw_frame_def sample_frame_memory_def sample_raw_def read_mem_def write_mem_def upt_rec)

lemma sample_ip_frame: "ip_frame 0xC0A80002 [0xA, 0xB, 0xC, 0xD, 0xE, 0xF] (raw_frame sample_frame_memory sample_raw)"
  unfolding ip_frame_def sample_raw_frame by (simp add: from_be_bytes_def)

theorem neighbour_learned_witness:
  "\<exists>wctx' self'. poll_working_thread [Ok (HRaw sample_raw)]
      \<lparr> wp_checker_channel = [], wp_nic_channel = [], wp_checker_open = True, wp_nic_open = True \<rparr> = Ok (True, wctx') \<and>
    nic_poll sample_adaptor [RxCall id] (sample_nic\<lparr> bn_receiver := wp_nic_channel wctx' \<rparr>) = Ok self' \<and>
    (\<forall>ctx. query_mac_addr 0xC0A80002 7 (ctx\<lparr> nw_device := self' \<rparr>) =
       (Answer (Some [0xA, 0xB, 0xC, 0xD, 0xE, 0xF]), ctx\<lparr> nw_device := self' \<rparr>))"
proof -
  let ?wctx = "\<lparr> wp_checker_channel = [], wp_nic_channel = [], wp_checker_open = True, wp_nic_open = True \<rparr>"
  have good: "good_raw sample_frame_memory sample_raw"
    using sample_ip_frame by (simp add: good_raw_def ip_frame_def) (simp add: sample_raw_def)
  show ?thesis
    using neighbour_learned[of "[sample_raw]" ?wctx sample_nic "[]" sample_raw "[]" "0xC0A80002"
        "[0xA, 0xB, 0xC, 0xD, 0xE, 0xF]" sample_adaptor] sample_ip_frame good
    by (simp add: sample_nic_def sample_raw_def del: nic_poll.simps) blast
qed

subsection \<open>Waiting for an answer\<close>

text \<open>The threads whose wake up is still due.\<close>

definition awaited :: "NicWorkingContext \<Rightarrow> thread set" where
  "awaited self = snd ` set (nw_queries self) \<union> (fst \<circ> snd) ` set (nw_query_map self) \<union> nw_tokens self"

lemma set_update_subset: "set (AList.update k v al) \<subseteq> insert (k, v) (set al)"
  by (induction al) auto

lemma set_update_distinct:
  "distinct (map fst al) \<Longrightarrow> set (AList.update k v al) \<subseteq> insert (k, v) {e \<in> set al. fst e \<noteq> k}"
  by (induction al) (auto simp: rev_image_eqI)

lemma awaited_send_query:
  assumes "send_query timestamp so self = Ok self'"
  shows "awaited self' \<subseteq> awaited self"
proof (cases "so_can_send so \<and> nw_queries self \<noteq> []")
  case True
  then obtain addr thread rest where q: "nw_queries self = (addr, thread) # rest"
    by (cases "nw_queries self") auto
  have "nw_queries self' = rest" "nw_tokens self' = nw_tokens self"
    "nw_query_map self' = AList.update addr (thread, timestamp + 5000000) (nw_query_map self)"
    using assms True q by (auto simp: send_query_def Let_def split: if_splits)
  moreover have "(fst \<circ> snd) ` set (AList.update addr (thread, timestamp + 5000000) (nw_query_map self)) \<subseteq>
      insert thread ((fst \<circ> snd) ` set (nw_query_map self))"
    using image_mono[OF set_update_subset[of addr "(thread, timestamp + 5000000)" "nw_query_map self"], of "fst \<circ> snd"]
    by simp
  ultimately show ?thesis
    unfolding awaited_def q by auto
next
  case False
  then show ?thesis
    using assms by (auto simp: send_query_def split: if_splits list.splits)
qed

lemma awaited_recv_reply:
  assumes "recv_reply so self = Ok self'"
  shows "awaited self' \<subseteq> awaited self"
proof -
  have "awaited (case map_of (nw_query_map c) addr of Some (thread, _) \<Rightarrow> unpark_thread thread c | None \<Rightarrow> c) \<subseteq> awaited c"
    for c :: NicWorkingContext and addr
  proof (cases "map_of (nw_query_map c) addr")
    case (Some p)
    then have "fst p \<in> (fst \<circ> snd) ` set (nw_query_map c)"
      by (force dest: map_of_SomeD)
    with Some show ?thesis
      by (cases p) (auto simp: awaited_def unpark_thread_def)
  qed simp
  note wake = this
  show ?thesis
  proof (cases "so_recv so")
    case None
    then show ?thesis
      using assms by (simp add: recv_reply_def)
  next
    case (Some p)
    then obtain r addr where p: "so_recv so = Some (Some r, addr)"
      using assms by (cases p; cases "fst p") (auto simp: recv_reply_def)
    then obtain l where "self' = (let c = self\<lparr> nw_icmp_sent := l \<rparr>
        in case map_of (nw_query_map c) addr of Some (thread, _) \<Rightarrow> unpark_thread thread c | None \<Rightarrow> c)"
      using assms by (cases r) (auto simp: recv_reply_def Let_def intro: that[of "nw_icmp_sent self"] split: if_splits)
    then show ?thesis
      using wake[of "self\<lparr> nw_icmp_sent := l \<rparr>" addr] by (simp add: Let_def awaited_def)
  qed
qed

lemma awaited_handle_dhcp:
  assumes "handle_dhcp so self = Ok self'"
  shows "awaited self' = awaited self"
  using assms by (auto simp: handle_dhcp_def awaited_def set_ipv4_addr_def Let_def split: option.splits dhcp_event.splits if_splits)

lemma awaited_retain: "awaited (retain_queries timestamp self) \<subseteq> awaited self"
  by (force simp: awaited_def retain_queries_def Let_def)

lemma awaited_nic_turn:
  assumes "nic_turn ad turn self = Ok self'"
  shows "awaited self' \<subseteq> awaited self"
proof -
  obtain timestamp calls so where turn: "turn = (timestamp, calls, so)"
    by (cases turn) auto
  obtain device s1 s2 s3 where "send_query timestamp so (self\<lparr> nw_device := device \<rparr>) = Ok s1" "recv_reply so s1 = Ok s2"
    "handle_dhcp so s2 = Ok s3" "self' = retain_queries timestamp s3"
    using assms by (auto simp: turn nic_turn_def result_bind_Inr_iff)
  moreover have "awaited (self\<lparr> nw_device := device \<rparr>) = awaited self"
    by (simp add: awaited_def)
  ultimately show ?thesis
    using awaited_send_query awaited_recv_reply awaited_handle_dhcp awaited_retain by (metis order_trans)
qed

text \<open>
  A second query for an address replaces the first one in the map, and the first thread is woken neither by a reply nor
  when its time is over.
\<close>

lemma first_query_stranded:
  assumes "nw_queries self = [(ip, b)]" "map_of (nw_query_map self) ip = Some (a, t)" "distinct (map fst (nw_query_map self))"
    and "a \<noteq> b" "a \<notin> nw_tokens self" "a \<notin> (fst \<circ> snd) ` {e \<in> set (nw_query_map self). fst e \<noteq> ip}"
    and "so_can_send so" "so_recv so = None" "send_query timestamp so self = Ok self1"
    and "nic_working_thread ad turns self1 = Ok self'"
  shows "query_resume ip a self' = (Parked, self')"
proof -
  have "a \<notin> awaited self1"
    using set_update_distinct[OF assms(3), of ip "(b, timestamp + 5000000)"] assms(1,2,4-7,9) by (fastforce simp: send_query_def awaited_def Let_def)
  moreover have "awaited self' \<subseteq> awaited self1"
    using assms(10)
  proof (induction turns arbitrary: self1)
    case (Cons turn turns)
    then show ?case
      using awaited_nic_turn by (fastforce simp: result_bind_Inr_iff)
  qed simp
  ultimately show ?thesis
    by (auto simp: query_resume_def awaited_def)
qed

lemma query_times_out:
  assumes "(ip, thread, timeout) \<in> set (nw_query_map self)" "timeout \<le> timestamp"
  shows "thread \<in> nw_tokens (retain_queries timestamp self)"
  using assms by (force simp: retain_queries_def Let_def)

end
