(* ===== verification/Kernel_Context.thy ===== *)
theory Kernel_Context
  imports Ringbuf
begin

unbundle bit_operations_syntax

text \<open>
  The part of the kernel module that user space reaches, \<^verbatim>\<open>driver/dtld_verbs.c\<close> and \<^verbatim>\<open>driver/dtld.c\<close>: the four
  rings that the device allocates, and the user context, which maps the registers
  of the card and the rings into the process.

  The kernel is not part of the sources. What its functions return is an argument: whether memory can be
  allocated, the code of \<^verbatim>\<open>rdma_user_mmap_entry_insert\<close> with the offset it chooses, and the code of
  \<^verbatim>\<open>ib_copy_to_udata\<close>. The entries that the core of the kernel knows are a table; removing an entry that is
  not in it is a use after free, and removing the null pointer does nothing, as documented.
\<close>

subsection \<open>The rings of the device\<close>

definition DTLD_RINGBUF_SIZE :: u32 where "DTLD_RINGBUF_SIZE = 4096"
definition ENOMEM :: int where "ENOMEM = 12"

record dtld_dev =
  dd_csr_addr :: u64
  dd_csr_length :: u64
  dd_cmdq_sq :: "u64 option"
  dd_cmdq_rq :: "u64 option"
  dd_workq_sq :: "u64 option"
  dd_workq_rq :: "u64 option"

text \<open>The addresses that \<^verbatim>\<open>dma_alloc_coherent\<close> returns, \<^const>\<open>None\<close> where it fails.\<close>

definition dtld_ringbuf_init :: "u64 option \<Rightarrow> u64 option \<Rightarrow> u64 option \<Rightarrow> u64 option \<Rightarrow> dtld_dev \<Rightarrow> int \<times> dtld_dev" where
  "dtld_ringbuf_init a b c d dev =
     (let dev = dev\<lparr> dd_cmdq_sq := a \<rparr>
      in if a = None then (- ENOMEM, dev)
         else let dev = dev\<lparr> dd_cmdq_rq := b \<rparr>
              in if b = None then (- ENOMEM, dev)
                 else let dev = dev\<lparr> dd_workq_sq := c \<rparr>
                      in if c = None then (- ENOMEM, dev)
                         else let dev = dev\<lparr> dd_workq_rq := d \<rparr>
                              in if d = None then (- ENOMEM, dev) else (0, dev))"

subsection \<open>The entries of the core\<close>

record mmap_entry =
  me_address :: u64
  me_length :: u32
  me_flag :: u8
  me_offset :: u64

type_synonym entries = "nat \<rightharpoonup> mmap_entry"

datatype fault = UseAfterFree

text \<open>One call: the identity of the new entry, whether \<^verbatim>\<open>kzalloc\<close> succeeds, the code of the insertion and the offset.\<close>

record insert_result =
  ir_id :: nat
  ir_alloc :: bool
  ir_code :: int
  ir_offset :: u64

definition PAGE_ALIGN :: "u32 \<Rightarrow> u32" where
  "PAGE_ALIGN len = (len + 4095) AND NOT 4095"

definition dtld_user_mmap_entry_insert :: "insert_result \<Rightarrow> u64 \<Rightarrow> u32 \<Rightarrow> u8 \<Rightarrow> entries \<Rightarrow> (nat \<times> u64) option \<times> entries" where
  "dtld_user_mmap_entry_insert r address len mmap_flag es =
     (if \<not> ir_alloc r then (None, es)
      else
        let len = PAGE_ALIGN len;
            entry = \<lparr> me_address = address, me_length = len, me_flag = mmap_flag, me_offset = ir_offset r \<rparr>
        in if ir_code r \<noteq> 0 then (None, es)
           else (Some (ir_id r, ir_offset r), es(ir_id r \<mapsto> entry)))"

definition rdma_user_mmap_entry_remove :: "nat option \<Rightarrow> entries \<Rightarrow> (fault, entries) result" where
  "rdma_user_mmap_entry_remove e es =
     (case e of
        None \<Rightarrow> Ok es
      | Some e \<Rightarrow> (if es e = None then Err UseAfterFree else Ok (es(e := None))))"

fun remove_entries :: "nat option list \<Rightarrow> entries \<Rightarrow> (fault, entries) result" where
  "remove_entries [] es = Ok es"
| "remove_entries (x # xs) es = result_bind (rdma_user_mmap_entry_remove x es) (remove_entries xs)"

subsection \<open>The user context\<close>

record dtld_ucontext =
  uc_csr_entry :: "nat option"
  uc_cmdq_sq_entry :: "nat option"
  uc_cmdq_rq_entry :: "nat option"
  uc_workq_sq_entry :: "nat option"
  uc_workq_rq_entry :: "nat option"

record dtld_uresp_alloc_ctx =
  ua_csr :: u64
  ua_cmdq_sq :: u64
  ua_cmdq_rq :: u64
  ua_workq_sq :: u64
  ua_workq_rq :: u64
  ua_cmdq_sq_dma_addr :: u64
  ua_cmdq_rq_dma_addr :: u64
  ua_workq_sq_dma_addr :: u64
  ua_workq_rq_dma_addr :: u64

text \<open>The address of a ring as the code uses it: the field that \<^verbatim>\<open>dma_alloc_coherent\<close> set, or zero.\<close>

definition dma_addr :: "u64 option \<Rightarrow> u64" where
  "dma_addr a = (case a of None \<Rightarrow> 0 | Some a \<Rightarrow> a)"

definition ring_entry :: "insert_result \<Rightarrow> u64 option \<Rightarrow> entries \<Rightarrow> (nat \<times> u64) option \<times> entries" where
  "ring_entry r a es = dtld_user_mmap_entry_insert r (dma_addr a) DTLD_RINGBUF_SIZE 0 es"

text \<open>
  The labels at the end of \<^verbatim>\<open>dtld_alloc_ucontext\<close> remove the entry that was just tried and all that were inserted
  before it, and return \<open>ret\<close>. The last component of the result is what was copied to the process.
\<close>

definition unwind ::
  "int \<Rightarrow> nat option list \<Rightarrow> dtld_ucontext \<Rightarrow> entries \<Rightarrow> (fault, int \<times> dtld_ucontext \<times> entries \<times> dtld_uresp_alloc_ctx option) result" where
  "unwind ret xs uc es = result_bind (remove_entries xs es) (\<lambda>es. Ok (ret, uc, es, None))"

definition dtld_alloc_ucontext ::
  "insert_result \<Rightarrow> insert_result \<Rightarrow> insert_result \<Rightarrow> insert_result \<Rightarrow> insert_result \<Rightarrow> int \<Rightarrow> dtld_dev \<Rightarrow> dtld_ucontext \<Rightarrow> entries \<Rightarrow>
   (fault, int \<times> dtld_ucontext \<times> entries \<times> dtld_uresp_alloc_ctx option) result" where
  "dtld_alloc_ucontext r0 r1 r2 r3 r4 copy dtld uc es =
     (let ret = 0;
          (e0, es) = dtld_user_mmap_entry_insert r0 (dd_csr_addr dtld) (ucast (dd_csr_length dtld)) 0 es;
          uc = uc\<lparr> uc_csr_entry := map_option fst e0 \<rparr>
      in case e0 of
           None \<Rightarrow> unwind ret [uc_csr_entry uc] uc es
         | Some (_, csr) \<Rightarrow>
     (let (e1, es) = ring_entry r1 (dd_cmdq_sq dtld) es;
          uc = uc\<lparr> uc_cmdq_sq_entry := map_option fst e1 \<rparr>
      in case e1 of
           None \<Rightarrow> unwind ret [uc_cmdq_sq_entry uc, uc_csr_entry uc] uc es
         | Some (_, cmdq_sq) \<Rightarrow>
     (let (e2, es) = ring_entry r2 (dd_cmdq_rq dtld) es;
          uc = uc\<lparr> uc_cmdq_rq_entry := map_option fst e2 \<rparr>
      in case e2 of
           None \<Rightarrow> unwind ret [uc_cmdq_rq_entry uc, uc_cmdq_sq_entry uc, uc_csr_entry uc] uc es
         | Some (_, cmdq_rq) \<Rightarrow>
     (let (e3, es) = ring_entry r3 (dd_workq_sq dtld) es;
          uc = uc\<lparr> uc_workq_sq_entry := map_option fst e3 \<rparr>
      in case e3 of
           None \<Rightarrow> unwind ret [uc_workq_sq_entry uc, uc_cmdq_rq_entry uc, uc_cmdq_sq_entry uc, uc_csr_entry uc] uc es
         | Some (_, workq_sq) \<Rightarrow>
     (let (e4, es) = ring_entry r4 (dd_workq_rq dtld) es;
          uc = uc\<lparr> uc_workq_rq_entry := map_option fst e4 \<rparr>;
          all = [uc_workq_rq_entry uc, uc_workq_sq_entry uc, uc_cmdq_rq_entry uc, uc_cmdq_sq_entry uc, uc_csr_entry uc]
      in case e4 of
           None \<Rightarrow> unwind ret all uc es
         | Some (_, workq_rq) \<Rightarrow>
             (let uresp = \<lparr> ua_csr = csr, ua_cmdq_sq = cmdq_sq, ua_cmdq_rq = cmdq_rq, ua_workq_sq = workq_sq, ua_workq_rq = workq_rq,
                    ua_cmdq_sq_dma_addr = dma_addr (dd_cmdq_sq dtld), ua_cmdq_rq_dma_addr = dma_addr (dd_cmdq_rq dtld),
                    ua_workq_sq_dma_addr = dma_addr (dd_workq_sq dtld), ua_workq_rq_dma_addr = dma_addr (dd_workq_rq dtld) \<rparr>;
                  ret = copy
              in if ret \<noteq> 0 then unwind ret all uc es
                 else Ok (0, uc, es, Some uresp)))))))"

definition dtld_dealloc_ucontext :: "dtld_ucontext \<Rightarrow> entries \<Rightarrow> (fault, entries) result" where
  "dtld_dealloc_ucontext uc es =
     remove_entries [uc_csr_entry uc, uc_workq_rq_entry uc, uc_workq_sq_entry uc, uc_cmdq_rq_entry uc, uc_cmdq_sq_entry uc] es"

subsection \<open>What user space can rely on\<close>

definition good :: "insert_result \<Rightarrow> bool" where
  "good r \<longleftrightarrow> ir_alloc r \<and> ir_code r = 0"

text \<open>The entries that are allocated are new.\<close>

definition fresh :: "insert_result list \<Rightarrow> entries \<Rightarrow> bool" where
  "fresh rs es \<longleftrightarrow> distinct (map ir_id rs) \<and> list_all (\<lambda>r. es (ir_id r) = None) rs"

definition no_entries :: dtld_ucontext where
  "no_entries = \<lparr> uc_csr_entry = None, uc_cmdq_sq_entry = None, uc_cmdq_rq_entry = None, uc_workq_sq_entry = None, uc_workq_rq_entry = None \<rparr>"

lemma insert_good:
  "good r \<Longrightarrow> dtld_user_mmap_entry_insert r a n f es = (Some (ir_id r, ir_offset r),
     es(ir_id r \<mapsto> \<lparr> me_address = a, me_length = PAGE_ALIGN n, me_flag = f, me_offset = ir_offset r \<rparr>))"
  by (simp add: dtld_user_mmap_entry_insert_def good_def Let_def)

lemma insert_bad: "\<not> good r \<Longrightarrow> dtld_user_mmap_entry_insert r a n f es = (None, es)"
  by (auto simp: dtld_user_mmap_entry_insert_def good_def Let_def)

lemma ring_size: "PAGE_ALIGN DTLD_RINGBUF_SIZE = 4096"
  by (simp add: PAGE_ALIGN_def DTLD_RINGBUF_SIZE_def)

lemmas ucontext_defs = dtld_alloc_ucontext_def dtld_dealloc_ucontext_def ring_entry_def unwind_def insert_good insert_bad
  rdma_user_mmap_entry_remove_def ring_size no_entries_def

lemma restore: "(es :: entries) k = None \<Longrightarrow> es(k := None) = es"
  by auto



text \<open>
  C38. When one of the rings cannot be mapped, the entries inserted before it are removed, but the context is reported
  as created: the code returned is zero, and nothing was copied to the process. The context still points to the removed entries, and
  releasing it removes the first of them a second time.
\<close>

theorem ucontext_failure_use_after_free:
  assumes "fresh [r0, r1, r2, r3, r4] es" "good r0" "\<not> list_all good [r1, r2, r3, r4]"
  shows "\<exists>uc. dtld_alloc_ucontext r0 r1 r2 r3 r4 copy dtld no_entries es = Ok (0, uc, es, None) \<and>
    dtld_dealloc_ucontext uc es = Err UseAfterFree"
proof -
  consider "\<not> good r1" | "good r1" "\<not> good r2" | "good r1" "good r2" "\<not> good r3" | "good r1" "good r2" "good r3" "\<not> good r4"
    using assms(3) by auto
  then show ?thesis
    using assms(1,2) by cases (simp_all add: ucontext_defs fresh_def Let_def fun_upd_twist restore)
qed

theorem ucontext_failure_use_after_free_witness:
  "\<exists>uc. dtld_alloc_ucontext \<lparr> ir_id = 0, ir_alloc = True, ir_code = 0, ir_offset = 0 \<rparr>
      \<lparr> ir_id = 1, ir_alloc = True, ir_code = - ENOMEM, ir_offset = 0 \<rparr> \<lparr> ir_id = 2, ir_alloc = True, ir_code = 0, ir_offset = 0 \<rparr>
      \<lparr> ir_id = 3, ir_alloc = True, ir_code = 0, ir_offset = 0 \<rparr> \<lparr> ir_id = 4, ir_alloc = True, ir_code = 0, ir_offset = 0 \<rparr>
      0 \<lparr> dd_csr_addr = 0xF0000000, dd_csr_length = 65536, dd_cmdq_sq = Some 0x1000, dd_cmdq_rq = Some 0x2000, dd_workq_sq = Some 0x3000,
        dd_workq_rq = Some 0x4000 \<rparr> no_entries Map.empty = Ok (0, uc, Map.empty, None) \<and>
    dtld_dealloc_ucontext uc Map.empty = Err UseAfterFree"
  by (rule ucontext_failure_use_after_free) (simp_all add: fresh_def good_def ENOMEM_def)

text \<open>A ring that cannot be allocated leaves the ones allocated before it in place.\<close>

lemma ringbuf_init_leaks:
  "dtld_ringbuf_init (Some a) None c d dev = (- ENOMEM, dev\<lparr> dd_cmdq_sq := Some a, dd_cmdq_rq := None \<rparr>)"
  by (simp add: dtld_ringbuf_init_def)

lemma ringbuf_init_ok:
  "fst (dtld_ringbuf_init a b c d dev) = 0 \<longleftrightarrow> None \<notin> {a, b, c, d}"
  by (auto simp: dtld_ringbuf_init_def ENOMEM_def Let_def)

end
