(* ===== verification/Csr.thy ===== *)
theory Csr
  imports Kernel_Context
begin

unbundle bit_operations_syntax

text \<open>
  How the driver finds the rings and the registers of the card: the register addresses of
  \<^verbatim>\<open>src/device/constants.rs\<close>, the register access of \<^verbatim>\<open>src/device/hardware/csr_cli.rs\<close>, the request for a user context
  of \<^verbatim>\<open>ib_verbs.rs\<close>, the translation of addresses of \<^verbatim>\<open>phys_addr_resolver.rs\<close> and of the emulated device, and the
  start of the device in \<^verbatim>\<open>src/device/hardware/mod.rs\<close>, which tells the card where the rings are that
  the kernel module allocated.

  The registers are a function from the byte address. The results of the system calls are arguments: the
  code of the \<^verbatim>\<open>ioctl\<close> with what the kernel copied, the offsets that can be mapped, whether the page map can be opened,
  and what a read of it returns.
\<close>

subsection \<open>Registers\<close>

datatype CsrIndex = BaseAddrLow | BaseAddrHigh | Head | Tail

fun CsrIndex_discr :: "CsrIndex \<Rightarrow> usize" where
  "CsrIndex_discr BaseAddrLow = 0"
| "CsrIndex_discr BaseAddrHigh = 1"
| "CsrIndex_discr Head = 2"
| "CsrIndex_discr Tail = 3"

definition generate_csr_addr :: "bool \<Rightarrow> usize \<Rightarrow> CsrIndex \<Rightarrow> usize" where
  "generate_csr_addr is_h2c queue_index reg_index =
     (let a = (if is_h2c then 1 else 0);
          a = push_bit 3 a;
          a = a OR (queue_index AND 7);
          a = push_bit 10 a;
          a = a OR (CsrIndex_discr reg_index AND 0x3FF)
      in push_bit 2 a)"

datatype csr_queue = CMD_REQ_QUEUE | CMD_RESP_QUEUE | SEND_QUEUE | META_REPORT_QUEUE

text \<open>The constants \<^verbatim>\<open>CSR_ADDR_<queue>_<register>\<close>.\<close>

fun CSR_ADDR :: "csr_queue \<Rightarrow> CsrIndex \<Rightarrow> usize" where
  "CSR_ADDR CMD_REQ_QUEUE r = generate_csr_addr True 0 r"
| "CSR_ADDR CMD_RESP_QUEUE r = generate_csr_addr False 0 r"
| "CSR_ADDR SEND_QUEUE r = generate_csr_addr True 1 r"
| "CSR_ADDR META_REPORT_QUEUE r = generate_csr_addr False 1 r"

definition CSR_LENGTH :: usize where "CSR_LENGTH = 0x00100000"

type_synonym csr_file = "usize \<Rightarrow> u32"

definition read_csr :: "usize \<Rightarrow> csr_file \<Rightarrow> (DeviceError, u32) result" where
  "read_csr addr csrs = (if addr \<ge> CSR_LENGTH then Err (DeviceE ''csr overflow'') else Ok (csrs addr))"

definition write_csr :: "usize \<Rightarrow> u32 \<Rightarrow> csr_file \<Rightarrow> (DeviceError, csr_file) result" where
  "write_csr addr data csrs = (if addr \<ge> CSR_LENGTH then Err (DeviceE ''csr overflow'') else Ok (csrs(addr := data)))"

text \<open>The proxies of the four rings: the driver writes one of the two indices of a ring and reads the other.\<close>

definition proxy_write_head :: "csr_queue \<Rightarrow> u32 \<Rightarrow> csr_file \<Rightarrow> (DeviceError, csr_file) result" where
  "proxy_write_head q data csrs = write_csr (CSR_ADDR q Head) data csrs"

definition proxy_read_tail :: "csr_queue \<Rightarrow> csr_file \<Rightarrow> (DeviceError, u32) result" where
  "proxy_read_tail q csrs = read_csr (CSR_ADDR q Tail) csrs"

definition proxy_write_tail :: "csr_queue \<Rightarrow> u32 \<Rightarrow> csr_file \<Rightarrow> (DeviceError, csr_file) result" where
  "proxy_write_tail q data csrs = write_csr (CSR_ADDR q Tail) data csrs"

definition proxy_read_head :: "csr_queue \<Rightarrow> csr_file \<Rightarrow> (DeviceError, u32) result" where
  "proxy_read_head q csrs = read_csr (CSR_ADDR q Head) csrs"

subsection \<open>Physical addresses\<close>

text \<open>\<open>pagemap\<close> is the entry of eight bytes that is read at an offset of the page map.\<close>

definition phys_addr_query :: "(u64 \<Rightarrow> u64 option) \<Rightarrow> usize \<Rightarrow> usize option" where
  "phys_addr_query pagemap vaddr =
     (let vpn = drop_bit 12 vaddr; offset = vaddr mod 4096
      in case pagemap (vpn * 8) of
           None \<Rightarrow> None
         | Some data \<Rightarrow> (let pfn = data AND (push_bit 55 1 - 1) in Some (push_bit 12 pfn OR offset)))"

definition emulated_get_phys_addr :: "usize \<Rightarrow> usize \<Rightarrow> (DeviceError, usize) result" where
  "emulated_get_phys_addr heap_mem_start_addr virt_addr =
     (if virt_addr < heap_mem_start_addr then Err (DeviceE ''virt_addr is less than heap_mem_start_addr'')
      else Ok (virt_addr - heap_mem_start_addr))"

subsection \<open>Starting the device\<close>

text \<open>What the process reads when the kernel copied nothing: the default.\<close>

definition empty_ucontext :: dtld_uresp_alloc_ctx where
  "empty_ucontext = \<lparr> ua_csr = 0, ua_cmdq_sq = 0, ua_cmdq_rq = 0, ua_workq_sq = 0, ua_workq_rq = 0, ua_cmdq_sq_dma_addr = 0,
     ua_cmdq_rq_dma_addr = 0, ua_workq_sq_dma_addr = 0, ua_workq_rq_dma_addr = 0 \<rparr>"

definition new_ucontext :: "int \<Rightarrow> dtld_uresp_alloc_ctx option \<Rightarrow> dtld_uresp_alloc_ctx option" where
  "new_ucontext ret_val copied =
     (let resp = (case copied of Some r \<Rightarrow> r | None \<Rightarrow> empty_ucontext) in if ret_val \<noteq> 0 then None else Some resp)"

definition write_base :: "csr_queue \<Rightarrow> usize \<Rightarrow> csr_file \<Rightarrow> (DeviceError, csr_file) result" where
  "write_base q pa csrs =
     result_bind (write_csr (CSR_ADDR q BaseAddrLow) (ucast (pa AND 0xFFFFFFFF)) csrs) (\<lambda>csrs.
       write_csr (CSR_ADDR q BaseAddrHigh) (ucast (drop_bit 32 pa)) csrs)"

definition HardwareDevice_new ::
  "int \<Rightarrow> dtld_uresp_alloc_ctx option \<Rightarrow> (u64 \<Rightarrow> bool) \<Rightarrow> bool \<Rightarrow> csr_file \<Rightarrow> (DeviceError, csr_file) result" where
  "HardwareDevice_new ret_val copied mappable pagemap_ok csrs =
     (case new_ucontext ret_val copied of
        None \<Rightarrow> Err (DeviceE ''ioctl'')
      | Some ucontext \<Rightarrow>
          if \<not> mappable (ua_csr ucontext) then Err (DeviceE ''mmap csr'')
          else if \<not> mappable (ua_cmdq_sq ucontext) then Err (DeviceE ''mmap cmdq_sq'')
          else if \<not> mappable (ua_cmdq_rq ucontext) then Err (DeviceE ''mmap cmdq_rq'')
          else if \<not> mappable (ua_workq_sq ucontext) then Err (DeviceE ''mmap workq_sq'')
          else if \<not> mappable (ua_workq_rq ucontext) then Err (DeviceE ''mmap workq_rq'')
          else if \<not> pagemap_ok then Err (DeviceE ''pagemap'')
          else
            result_bind (write_base CMD_REQ_QUEUE (ua_cmdq_sq_dma_addr ucontext) csrs) (\<lambda>csrs.
            result_bind (write_base CMD_RESP_QUEUE (ua_cmdq_rq_dma_addr ucontext) csrs) (\<lambda>csrs.
            result_bind (write_base SEND_QUEUE (ua_workq_sq_dma_addr ucontext) csrs) (\<lambda>csrs.
              write_base META_REPORT_QUEUE (ua_workq_rq_dma_addr ucontext) csrs))))"

subsection \<open>What the card is told\<close>

lemma csr_addr_values:
  "CSR_ADDR CMD_REQ_QUEUE r = 0x8000 + 4 * CsrIndex_discr r" "CSR_ADDR CMD_RESP_QUEUE r = 4 * CsrIndex_discr r"
  "CSR_ADDR SEND_QUEUE r = 0x9000 + 4 * CsrIndex_discr r" "CSR_ADDR META_REPORT_QUEUE r = 0x1000 + 4 * CsrIndex_discr r"
  by (cases r; simp add: generate_csr_addr_def)+

lemma csr_addr_inj: "CSR_ADDR q r = CSR_ADDR q' r' \<longleftrightarrow> q = q' \<and> r = r'"
  by (cases q; cases q'; cases r; cases r') (simp_all add: csr_addr_values del: CSR_ADDR.simps)

lemma csr_addr_in_range: "CSR_ADDR q r < CSR_LENGTH"
  by (cases q; cases r) (simp_all add: csr_addr_values CSR_LENGTH_def del: CSR_ADDR.simps)

text \<open>The address of a ring as the card reads it from its registers.\<close>

definition csr_base :: "csr_queue \<Rightarrow> csr_file \<Rightarrow> u64" where
  "csr_base q csrs = push_bit 32 (ucast (csrs (CSR_ADDR q BaseAddrHigh))) OR ucast (csrs (CSR_ADDR q BaseAddrLow))"

lemma halves: "push_bit 32 (ucast (ucast (drop_bit 32 pa) :: u32)) OR ucast (ucast (pa AND 0xFFFFFFFF) :: u32) = (pa :: u64)"
proof -
  have m: "(0xFFFFFFFF :: u64) = mask 32"
    by (simp add: mask_eq_exp_minus_1)
  show ?thesis
    unfolding m by (rule bit_word_eqI) (auto simp: bit_simps dest: bit_imp_le_length)
qed

lemma write_base_Ok:
  "write_base q pa csrs = Ok (csrs(CSR_ADDR q BaseAddrLow := ucast (pa AND 0xFFFFFFFF), CSR_ADDR q BaseAddrHigh := ucast (drop_bit 32 pa)))"
  using csr_addr_in_range by (simp add: write_base_def write_csr_def not_le del: CSR_ADDR.simps)

lemma csr_base_write:
  assumes "write_base q pa csrs = Ok csrs'"
  shows "csr_base q' csrs' = (if q' = q then pa else csr_base q' csrs)"
    and "a \<notin> {CSR_ADDR q BaseAddrLow, CSR_ADDR q BaseAddrHigh} \<Longrightarrow> csrs' a = csrs a"
proof -
  have csrs': "csrs' = csrs(CSR_ADDR q BaseAddrLow := ucast (pa AND 0xFFFFFFFF), CSR_ADDR q BaseAddrHigh := ucast (drop_bit 32 pa))"
    using assms by (simp add: write_base_Ok del: CSR_ADDR.simps)
  show "csr_base q' csrs' = (if q' = q then pa else csr_base q' csrs)"
    unfolding csr_base_def csrs' using halves by (simp add: csr_addr_inj del: CSR_ADDR.simps)
  show "csrs' a = csrs a" if "a \<notin> {CSR_ADDR q BaseAddrLow, CSR_ADDR q BaseAddrHigh}"
    using that by (auto simp: csrs')
qed

text \<open>Moving the indices of the rings does not touch the addresses.\<close>

lemma proxies_keep_base:
  "proxy_write_head q data csrs = Ok csrs' \<Longrightarrow> csr_base q' csrs' = csr_base q' csrs"
  "proxy_write_tail q data csrs = Ok csrs' \<Longrightarrow> csr_base q' csrs' = csr_base q' csrs"
  "proxy_write_head q data csrs = Ok csrs' \<Longrightarrow> proxy_read_tail q' csrs' = proxy_read_tail q' csrs"
  "proxy_write_tail q data csrs = Ok csrs' \<Longrightarrow> proxy_read_head q' csrs' = proxy_read_head q' csrs"
  by (auto simp: proxy_write_head_def proxy_write_tail_def proxy_read_tail_def proxy_read_head_def write_csr_def read_csr_def
      csr_base_def csr_addr_inj simp del: CSR_ADDR.simps split: if_splits)

text \<open>
  C11. From the kernel to the card: the four rings that the kernel module allocates are handed to the driver with a user context,
  and once the driver has mapped them and started the device, the card reads from its registers, for each ring, exactly the
  address that the kernel allocated for it; only the eight address registers were written. A context that cannot be
  mapped, or that the kernel refused, gives an error.
\<close>

theorem rings_programmed:
  assumes "list_all good [r0, r1, r2, r3, r4]" "fresh [r0, r1, r2, r3, r4] es"
    and "dtld_ringbuf_init (Some a) (Some b) (Some c) (Some d) dev = (err, dtld)"
  shows "\<exists>uc es' uresp. dtld_alloc_ucontext r0 r1 r2 r3 r4 0 dtld no_entries es = Ok (0, uc, es', Some uresp) \<and>
    (if list_all mappable (map ir_offset [r0, r1, r2, r3, r4]) \<and> pagemap_ok
     then \<exists>csrs'. HardwareDevice_new 0 (Some uresp) mappable pagemap_ok csrs = Ok csrs' \<and>
       map (\<lambda>q. csr_base q csrs') [CMD_REQ_QUEUE, CMD_RESP_QUEUE, SEND_QUEUE, META_REPORT_QUEUE] = [a, b, c, d] \<and>
       (\<forall>x. x \<notin> (\<Union>q. {CSR_ADDR q BaseAddrLow, CSR_ADDR q BaseAddrHigh}) \<longrightarrow> csrs' x = csrs x)
     else \<exists>e. HardwareDevice_new 0 (Some uresp) mappable pagemap_ok csrs = Err e)"
proof -
  have dtld: "dd_cmdq_sq dtld = Some a" "dd_cmdq_rq dtld = Some b" "dd_workq_sq dtld = Some c" "dd_workq_rq dtld = Some d"
    using assms(3) by (auto simp: dtld_ringbuf_init_def)
  define uresp where "uresp = \<lparr> ua_csr = ir_offset r0, ua_cmdq_sq = ir_offset r1, ua_cmdq_rq = ir_offset r2, ua_workq_sq = ir_offset r3,
    ua_workq_rq = ir_offset r4, ua_cmdq_sq_dma_addr = a, ua_cmdq_rq_dma_addr = b, ua_workq_sq_dma_addr = c, ua_workq_rq_dma_addr = d \<rparr>"
  have "\<exists>uc es'. dtld_alloc_ucontext r0 r1 r2 r3 r4 0 dtld no_entries es = Ok (0, uc, es', Some uresp)"
    using assms(1,2) by (simp add: ucontext_defs fresh_def dtld dma_addr_def uresp_def Let_def)
  then obtain uc es' where uc: "dtld_alloc_ucontext r0 r1 r2 r3 r4 0 dtld no_entries es = Ok (0, uc, es', Some uresp)"
    by blast
  have off: "[ua_csr uresp, ua_cmdq_sq uresp, ua_cmdq_rq uresp, ua_workq_sq uresp, ua_workq_rq uresp] = map ir_offset [r0, r1, r2, r3, r4]"
    and dma: "ua_cmdq_sq_dma_addr uresp = a" "ua_cmdq_rq_dma_addr uresp = b" "ua_workq_sq_dma_addr uresp = c" "ua_workq_rq_dma_addr uresp = d"
    by (simp_all add: uresp_def)
  obtain c1 c2 c3 c4 where w: "write_base CMD_REQ_QUEUE a csrs = Ok c1" "write_base CMD_RESP_QUEUE b c1 = Ok c2"
    "write_base SEND_QUEUE c c2 = Ok c3" "write_base META_REPORT_QUEUE d c3 = Ok c4"
    by (simp add: write_base_Ok del: CSR_ADDR.simps)
  have base: "map (\<lambda>q. csr_base q c4) [CMD_REQ_QUEUE, CMD_RESP_QUEUE, SEND_QUEUE, META_REPORT_QUEUE] = [a, b, c, d]"
    by (simp add: csr_base_write(1)[OF w(1)] csr_base_write(1)[OF w(2)] csr_base_write(1)[OF w(3)] csr_base_write(1)[OF w(4)])
  have frame: "c4 x = csrs x" if "x \<notin> (\<Union>q. {CSR_ADDR q BaseAddrLow, CSR_ADDR q BaseAddrHigh})" for x
  proof -
    have "x \<notin> {CSR_ADDR q BaseAddrLow, CSR_ADDR q BaseAddrHigh}" for q
      using that by blast
    then show ?thesis
      using csr_base_write(2)[OF w(1)] csr_base_write(2)[OF w(2)] csr_base_write(2)[OF w(3)] csr_base_write(2)[OF w(4)] by metis
  qed
  have new: "HardwareDevice_new 0 (Some uresp) mappable pagemap_ok csrs = Ok c4"
    if "list_all mappable (map ir_offset [r0, r1, r2, r3, r4]) \<and> pagemap_ok"
    using that off w by (simp add: HardwareDevice_new_def new_ucontext_def dma del: CSR_ADDR.simps)
  have err: "\<exists>e. HardwareDevice_new 0 (Some uresp) mappable pagemap_ok csrs = Err e"
    if "\<not> (list_all mappable (map ir_offset [r0, r1, r2, r3, r4]) \<and> pagemap_ok)"
    using that off by (auto simp: HardwareDevice_new_def new_ucontext_def)
  show ?thesis
    using uc new err base frame by (intro exI[of _ uc] exI[of _ es'] exI[of _ uresp] conjI) (simp_all del: CSR_ADDR.simps list.map)
qed

theorem rings_programmed_witness:
  "\<exists>dtld uc es' uresp csrs'. dtld_ringbuf_init (Some 0x1000) (Some 0x2000) (Some 0x123456789000) (Some 0x4000)
      \<lparr> dd_csr_addr = 0xF0000000, dd_csr_length = 65536, dd_cmdq_sq = None, dd_cmdq_rq = None, dd_workq_sq = None, dd_workq_rq = None \<rparr> = (0, dtld) \<and>
    dtld_alloc_ucontext \<lparr> ir_id = 0, ir_alloc = True, ir_code = 0, ir_offset = 0 \<rparr>
      \<lparr> ir_id = 1, ir_alloc = True, ir_code = 0, ir_offset = 4096 \<rparr> \<lparr> ir_id = 2, ir_alloc = True, ir_code = 0, ir_offset = 8192 \<rparr>
      \<lparr> ir_id = 3, ir_alloc = True, ir_code = 0, ir_offset = 12288 \<rparr> \<lparr> ir_id = 4, ir_alloc = True, ir_code = 0, ir_offset = 16384 \<rparr>
      0 dtld no_entries Map.empty = Ok (0, uc, es', Some uresp) \<and>
    HardwareDevice_new 0 (Some uresp) (\<lambda>off. off \<le> 16384) True (\<lambda>_. 0) = Ok csrs' \<and> csr_base SEND_QUEUE csrs' = 0x123456789000"
proof -
  let ?r = "\<lambda>i off. \<lparr> ir_id = i, ir_alloc = True, ir_code = 0, ir_offset = off \<rparr>"
  let ?dev = "\<lparr> dd_csr_addr = 0xF0000000, dd_csr_length = 65536, dd_cmdq_sq = None, dd_cmdq_rq = None, dd_workq_sq = None, dd_workq_rq = None \<rparr>"
  obtain dtld where dtld: "dtld_ringbuf_init (Some 0x1000) (Some 0x2000) (Some 0x123456789000) (Some 0x4000) ?dev = (0, dtld)"
    by (simp add: dtld_ringbuf_init_def)
  have good: "list_all good [?r 0 0, ?r 1 4096, ?r 2 8192, ?r 3 12288, ?r 4 16384]"
    "fresh [?r 0 0, ?r 1 4096, ?r 2 8192, ?r 3 12288, ?r 4 16384] Map.empty"
    "list_all (\<lambda>off. off \<le> 16384) (map ir_offset [?r 0 0, ?r 1 4096, ?r 2 8192, ?r 3 12288, ?r 4 16384]) \<and> True"
    by (simp_all add: good_def fresh_def)
  from rings_programmed[OF good(1,2) dtld, of "\<lambda>off. off \<le> 16384" True "\<lambda>_. 0"]
  obtain uc es' uresp csrs' where "dtld_alloc_ucontext (?r 0 0) (?r 1 4096) (?r 2 8192) (?r 3 12288) (?r 4 16384) 0 dtld no_entries Map.empty =
      Ok (0, uc, es', Some uresp)"
    "HardwareDevice_new 0 (Some uresp) (\<lambda>off. off \<le> 16384) True (\<lambda>_. 0) = Ok csrs'"
    "map (\<lambda>q. csr_base q csrs') [CMD_REQ_QUEUE, CMD_RESP_QUEUE, SEND_QUEUE, META_REPORT_QUEUE] = [0x1000, 0x2000, 0x123456789000, 0x4000]"
    unfolding if_P[OF good(3)] by (elim exE conjE) (rule that)
  with dtld show ?thesis
    by auto
qed

text \<open>
  The translation through the page map does not look at the bit that tells whether the page is present: for a page that is
  not, the address is the offset in the page.
\<close>

lemma absent_page_translated: "phys_addr_query (\<lambda>_. Some 0) vaddr = Some (vaddr mod 4096)"
  by (simp add: phys_addr_query_def Let_def)

lemma emulated_phys_addr_inj:
  "emulated_get_phys_addr h x = Ok p \<Longrightarrow> emulated_get_phys_addr h y = Ok p \<Longrightarrow> x = y"
  by (auto simp: emulated_get_phys_addr_def split: if_splits)

end
