(* ===== verification/Kernel_Queue.thy ===== *)
theory Kernel_Queue
  imports Ringbuf
begin

unbundle bit_operations_syntax

text \<open>
  The circular buffer that the kernel module shares with its clients, \<^verbatim>\<open>driver/dtld_queue.h\<close>. The producer
  and the consumer use it without a lock, each with its own view of the two indices: the side
  that lives in the module keeps a private copy of its own index and stores it into the shared buffer.
  An address in the data area is its offset.
\<close>

subsection \<open>The operations\<close>

datatype queue_type = QUEUE_TYPE_TO_CLIENT | QUEUE_TYPE_FROM_CLIENT | QUEUE_TYPE_TO_DRIVER | QUEUE_TYPE_FROM_DRIVER

record dtld_queue =
  q_producer_index :: u32
  q_consumer_index :: u32
  q_log2_elem_size :: nat
  q_index_mask :: u32
  q_index :: u32

definition queue_next_index :: "dtld_queue \<Rightarrow> u32 \<Rightarrow> u32" where
  "queue_next_index q index = (index + 1) AND q_index_mask q"

fun queue_get_producer :: "dtld_queue \<Rightarrow> queue_type \<Rightarrow> u32" where
  "queue_get_producer q QUEUE_TYPE_FROM_CLIENT = q_producer_index q"
| "queue_get_producer q QUEUE_TYPE_TO_CLIENT = q_index q"
| "queue_get_producer q QUEUE_TYPE_FROM_DRIVER = q_producer_index q"
| "queue_get_producer q QUEUE_TYPE_TO_DRIVER = q_producer_index q"

fun queue_get_consumer :: "dtld_queue \<Rightarrow> queue_type \<Rightarrow> u32" where
  "queue_get_consumer q QUEUE_TYPE_FROM_CLIENT = q_index q"
| "queue_get_consumer q QUEUE_TYPE_TO_CLIENT = q_consumer_index q"
| "queue_get_consumer q QUEUE_TYPE_FROM_DRIVER = q_consumer_index q"
| "queue_get_consumer q QUEUE_TYPE_TO_DRIVER = q_consumer_index q"

definition queue_empty :: "dtld_queue \<Rightarrow> queue_type \<Rightarrow> bool" where
  "queue_empty q t = (let prod = queue_get_producer q t; cons = queue_get_consumer q t in (prod - cons) AND q_index_mask q = 0)"

definition queue_full :: "dtld_queue \<Rightarrow> queue_type \<Rightarrow> bool" where
  "queue_full q t = (let prod = queue_get_producer q t; cons = queue_get_consumer q t in (prod + 1 - cons) AND q_index_mask q = 0)"

definition queue_count :: "dtld_queue \<Rightarrow> queue_type \<Rightarrow> u32" where
  "queue_count q t = (let prod = queue_get_producer q t; cons = queue_get_consumer q t in (prod - cons) AND q_index_mask q)"

fun queue_advance_producer :: "dtld_queue \<Rightarrow> queue_type \<Rightarrow> dtld_queue" where
  "queue_advance_producer q QUEUE_TYPE_FROM_CLIENT = q"
| "queue_advance_producer q QUEUE_TYPE_TO_CLIENT =
     (let prod = q_index q; prod = (prod + 1) AND q_index_mask q in q\<lparr> q_index := prod, q_producer_index := prod \<rparr>)"
| "queue_advance_producer q QUEUE_TYPE_FROM_DRIVER = q"
| "queue_advance_producer q QUEUE_TYPE_TO_DRIVER =
     (let prod = q_producer_index q; prod = (prod + 1) AND q_index_mask q in q\<lparr> q_producer_index := prod \<rparr>)"

fun queue_advance_consumer :: "dtld_queue \<Rightarrow> queue_type \<Rightarrow> dtld_queue" where
  "queue_advance_consumer q QUEUE_TYPE_FROM_CLIENT =
     (let cons = q_index q; cons = (cons + 1) AND q_index_mask q in q\<lparr> q_index := cons, q_consumer_index := cons \<rparr>)"
| "queue_advance_consumer q QUEUE_TYPE_TO_CLIENT = q"
| "queue_advance_consumer q QUEUE_TYPE_FROM_DRIVER =
     (let cons = q_consumer_index q; cons = (cons + 1) AND q_index_mask q in q\<lparr> q_consumer_index := cons \<rparr>)"
| "queue_advance_consumer q QUEUE_TYPE_TO_DRIVER = q"

definition queue_producer_addr :: "dtld_queue \<Rightarrow> queue_type \<Rightarrow> u32" where
  "queue_producer_addr q t = (let prod = queue_get_producer q t in push_bit (q_log2_elem_size q) prod)"

definition queue_consumer_addr :: "dtld_queue \<Rightarrow> queue_type \<Rightarrow> u32" where
  "queue_consumer_addr q t = (let cons = queue_get_consumer q t in push_bit (q_log2_elem_size q) cons)"

definition queue_addr_from_index :: "dtld_queue \<Rightarrow> u32 \<Rightarrow> u32" where
  "queue_addr_from_index q index = push_bit (q_log2_elem_size q) (index AND q_index_mask q)"

definition queue_index_from_addr :: "dtld_queue \<Rightarrow> u32 \<Rightarrow> u32" where
  "queue_index_from_addr q addr = drop_bit (q_log2_elem_size q) addr AND q_index_mask q"

definition queue_head :: "dtld_queue \<Rightarrow> queue_type \<Rightarrow> u32 option" where
  "queue_head q t = (if queue_empty q t then None else Some (queue_consumer_addr q t))"

text \<open>The check of \<^verbatim>\<open>driver/dtld_cq.c\<close>; a completion queue that exists already is given by its queue.\<close>

definition dtld_cq_chk_attr :: "int \<Rightarrow> dtld_queue option \<Rightarrow> int \<Rightarrow> int" where
  "dtld_cq_chk_attr max_cqe cq cqe =
     (if cqe \<le> 0 then - 22
      else if cqe > max_cqe then - 22
      else case cq of
             None \<Rightarrow> 0
           | Some queue \<Rightarrow> (let count = sint (queue_count queue QUEUE_TYPE_TO_CLIENT) in if cqe < count then - 22 else 0))"

subsection \<open>Producer and consumer\<close>

text \<open>
  The two sides of a queue: the type with which the producer calls, and the one of the consumer. The
  producer stores an element at its address and advances; the consumer reads the one
  at its address and advances. The histories record what was put and what was got.
\<close>

definition queue_sides :: "(queue_type \<times> queue_type) list" where
  "queue_sides = [(QUEUE_TYPE_TO_CLIENT, QUEUE_TYPE_FROM_DRIVER), (QUEUE_TYPE_TO_DRIVER, QUEUE_TYPE_FROM_CLIENT)]"

record 'e queue_link =
  kl_queue :: dtld_queue
  kl_data :: "u32 \<Rightarrow> 'e"
  kl_put :: "'e list"
  kl_got :: "'e list"

inductive kq_step :: "queue_type \<Rightarrow> queue_type \<Rightarrow> 'e queue_link \<Rightarrow> 'e queue_link \<Rightarrow> bool" for pt ct where
  kq_produce: "\<not> queue_full (kl_queue s) pt \<Longrightarrow>
     kq_step pt ct s (s\<lparr> kl_data := (kl_data s)(queue_producer_addr (kl_queue s) pt := e),
       kl_queue := queue_advance_producer (kl_queue s) pt, kl_put := kl_put s @ [e] \<rparr>)"
| kq_consume: "queue_head (kl_queue s) ct = Some addr \<Longrightarrow>
     kq_step pt ct s (s\<lparr> kl_queue := queue_advance_consumer (kl_queue s) ct, kl_got := kl_got s @ [kl_data s addr] \<rparr>)"

definition kq_init :: "nat \<Rightarrow> nat \<Rightarrow> (u32 \<Rightarrow> 'e) \<Rightarrow> 'e queue_link" where
  "kq_init k l data = \<lparr> kl_queue = \<lparr> q_producer_index = 0, q_consumer_index = 0, q_log2_elem_size = l, q_index_mask = mask k, q_index = 0 \<rparr>,
     kl_data = data, kl_put = [], kl_got = [] \<rparr>"

text \<open>The positions of the two sides are the numbers of the elements they handled, modulo the size.\<close>

definition kq_inv :: "queue_type \<Rightarrow> queue_type \<Rightarrow> nat \<Rightarrow> nat \<Rightarrow> 'e queue_link \<Rightarrow> bool" where
  "kq_inv pt ct k l s \<longleftrightarrow>
     (pt, ct) \<in> set queue_sides \<and> 0 < k \<and> k + l \<le> 32 \<and>
     q_index_mask (kl_queue s) = mask k \<and> q_log2_elem_size (kl_queue s) = l \<and>
     queue_get_producer (kl_queue s) pt = of_nat (length (kl_put s) mod 2 ^ k) \<and>
     q_producer_index (kl_queue s) = of_nat (length (kl_put s) mod 2 ^ k) \<and>
     queue_get_consumer (kl_queue s) ct = of_nat (length (kl_got s) mod 2 ^ k) \<and>
     q_consumer_index (kl_queue s) = of_nat (length (kl_got s) mod 2 ^ k) \<and>
     kl_got s = take (length (kl_got s)) (kl_put s) \<and> length (kl_put s) < length (kl_got s) + 2 ^ k \<and>
     (\<forall>i. length (kl_got s) \<le> i \<and> i < length (kl_put s) \<longrightarrow> kl_data s (push_bit l (of_nat (i mod 2 ^ k))) = kl_put s ! i)"

lemma of_nat_mod_power: "(of_nat (a mod 2 ^ k) :: u32) = take_bit k (of_nat a)"
  using of_nat_take_bit[of k a, where 'a = u32] unfolding take_bit_eq_mod[of k a] .

lemma take_bit_diff_u32: "take_bit k (take_bit k x - take_bit k y) = take_bit k (x - y)" if "k \<le> 32" for x y :: u32
proof (rule word_uint_eqI)
  have "uint (take_bit k (v - w)) = take_bit k (uint v - uint w)" for v w :: u32
    using that by (simp add: unsigned_take_bit_eq uint_word_ariths take_bit_take_bit min_absorb1 flip: take_bit_eq_mod[of 32, simplified])
  then show "uint (take_bit k (take_bit k x - take_bit k y)) = uint (take_bit k (x - y))"
    by (simp add: unsigned_take_bit_eq take_bit_diff)
qed

lemma masked_diff:
  assumes "b \<le> a" "k \<le> 32"
  shows "(of_nat (a mod 2 ^ k) - of_nat (b mod 2 ^ k) :: u32) AND mask k = of_nat ((a - b) mod 2 ^ k)"
proof -
  have "(of_nat (a mod 2 ^ k) - of_nat (b mod 2 ^ k) :: u32) AND mask k = take_bit k (of_nat a - of_nat b)"
    unfolding take_bit_eq_mask[symmetric] of_nat_mod_power by (rule take_bit_diff_u32[OF assms(2)])
  also have "\<dots> = take_bit k (of_nat (a - b))"
    using assms(1) by (simp add: of_nat_diff)
  finally show ?thesis
    unfolding of_nat_mod_power .
qed

lemma masked_suc: "(of_nat (a mod 2 ^ k) + 1 :: u32) AND mask k = of_nat (Suc a mod 2 ^ k)"
proof -
  have "(of_nat (a mod 2 ^ k) + 1 :: u32) = of_nat (Suc (a mod 2 ^ k))"
    by simp
  then have "(of_nat (a mod 2 ^ k) + 1 :: u32) AND mask k = take_bit k (of_nat (Suc (a mod 2 ^ k)))"
    by (simp only: take_bit_eq_mask)
  then show ?thesis
    unfolding of_nat_mod_power[symmetric] mod_Suc_eq .
qed

lemma mod_power_less:
  assumes "k \<le> 32"
  shows "a mod 2 ^ k < (2 :: nat) ^ 32"
proof -
  have "a mod 2 ^ k < 2 ^ k"
    by simp
  also have "\<dots> \<le> (2 :: nat) ^ 32"
    using assms by (intro power_increasing) simp_all
  finally show ?thesis .
qed

lemma masked_zero:
  assumes "k \<le> 32"
  shows "(of_nat (a mod 2 ^ k) :: u32) = 0 \<longleftrightarrow> a mod 2 ^ k = 0"
  using mod_power_less[OF assms, of a] unfolding word_of_nat_eq_0_iff by (auto dest: nat_dvd_not_less)

lemma slot_addr:
  assumes "k + l \<le> 32"
  shows "unat (push_bit l (of_nat (a mod 2 ^ k)) :: u32) = (a mod 2 ^ k) * 2 ^ l"
proof -
  have "(a mod 2 ^ k) * 2 ^ l < 2 ^ k * (2 :: nat) ^ l"
    by simp
  also have "\<dots> \<le> 2 ^ 32"
    using power_increasing[OF assms, of "2 :: nat"] by (simp only: power_add one_le_numeral)
  finally have "unat (of_nat ((a mod 2 ^ k) * 2 ^ l) :: u32) = (a mod 2 ^ k) * 2 ^ l"
    by (simp add: unat_of_nat del: of_nat_mult)
  then show ?thesis
    by (simp add: push_bit_eq_mult)
qed

lemma slot_addr_inj:
  assumes "k + l \<le> 32" "push_bit l (of_nat (a mod 2 ^ k)) = (push_bit l (of_nat (b mod 2 ^ k)) :: u32)"
  shows "a mod 2 ^ k = b mod 2 ^ k"
proof -
  have "(a mod 2 ^ k) * 2 ^ l = (b mod 2 ^ k) * 2 ^ l"
    using slot_addr[OF assms(1), of a] slot_addr[OF assms(1), of b] unfolding assms(2) by (rule trans[OF sym])
  then show ?thesis
    by simp
qed

lemma kq_counts:
  assumes "kq_inv pt ct k l s"
  defines "n \<equiv> length (kl_put s) - length (kl_got s)"
  shows "length (kl_got s) \<le> length (kl_put s)" "n < 2 ^ k"
    and "queue_count (kl_queue s) pt = of_nat n" "queue_full (kl_queue s) pt \<longleftrightarrow> n = 2 ^ k - 1"
    and "queue_empty (kl_queue s) ct \<longleftrightarrow> n = 0"
proof -
  let ?q = "kl_queue s" and ?p = "length (kl_put s)" and ?g = "length (kl_got s)"
  have k: "k \<le> 32" and mask: "q_index_mask ?q = mask k"
    using assms(1) by (simp_all add: kq_inv_def)
  show le: "?g \<le> ?p"
    using assms(1) by (metis kq_inv_def length_take min.cobounded1)
  show less: "n < 2 ^ k"
    using assms(1) le by (auto simp: kq_inv_def n_def)
  have idx: "queue_get_producer ?q pt = of_nat (?p mod 2 ^ k)" "queue_get_consumer ?q pt = of_nat (?g mod 2 ^ k)"
    "queue_get_producer ?q ct = of_nat (?p mod 2 ^ k)" "queue_get_consumer ?q ct = of_nat (?g mod 2 ^ k)"
    using assms(1) by (auto simp: kq_inv_def queue_sides_def)
  show "queue_count ?q pt = of_nat n"
    using masked_diff[OF le k] less by (simp add: queue_count_def idx mask Let_def flip: n_def)
  show "queue_empty ?q ct \<longleftrightarrow> n = 0"
    using masked_diff[OF le k] masked_zero[OF k, of n] less by (simp add: queue_empty_def idx mask Let_def flip: n_def)
  have "(of_nat (?p mod 2 ^ k) + 1 - of_nat (?g mod 2 ^ k) :: u32) AND mask k = of_nat (Suc n mod 2 ^ k)"
  proof -
    have "(of_nat (?p mod 2 ^ k) + 1 - of_nat (?g mod 2 ^ k) :: u32) AND mask k =
        take_bit k (take_bit k (of_nat (?p mod 2 ^ k) + 1) - take_bit k (of_nat (?g mod 2 ^ k)))"
      using take_bit_diff_u32[OF k] by (simp add: take_bit_eq_mask)
    also have "\<dots> = take_bit k (of_nat (Suc ?p mod 2 ^ k) - of_nat (?g mod 2 ^ k))"
      using masked_suc[of ?p k] unfolding take_bit_eq_mask[symmetric] by (simp add: of_nat_mod_power)
    also have "\<dots> = of_nat (Suc n mod 2 ^ k)"
      using masked_diff[of ?g "Suc ?p" k] le k by (simp add: n_def take_bit_eq_mask Suc_diff_le)
    finally show ?thesis .
  qed
  then show "queue_full ?q pt \<longleftrightarrow> n = 2 ^ k - 1"
    using masked_zero[OF k, of "Suc n"] less by (auto simp: queue_full_def idx mask Let_def mod_Suc)
qed

lemma kq_inv_produce:
  assumes "kq_inv pt ct k l s" "\<not> queue_full (kl_queue s) pt"
  shows "kq_inv pt ct k l (s\<lparr> kl_data := (kl_data s)(queue_producer_addr (kl_queue s) pt := e),
    kl_queue := queue_advance_producer (kl_queue s) pt, kl_put := kl_put s @ [e] \<rparr>)"
    (is "kq_inv pt ct k l ?s")
proof -
  let ?p = "length (kl_put s)" and ?g = "length (kl_got s)"
  note counts = kq_counts[OF assms(1)]
  have kl: "k + l \<le> 32"
    using assms(1) by (simp add: kq_inv_def)
  have room: "Suc ?p < ?g + 2 ^ k"
    using counts(1,2,4) assms(2) by simp
  have addr: "queue_producer_addr (kl_queue s) pt = push_bit l (of_nat (?p mod 2 ^ k))"
    using assms(1) by (simp add: kq_inv_def queue_producer_addr_def Let_def)
  have other: "push_bit l (of_nat (i mod 2 ^ k)) \<noteq> (push_bit l (of_nat (?p mod 2 ^ k)) :: u32)" if "?g \<le> i" "i < ?p" for i
  proof
    assume "push_bit l (of_nat (i mod 2 ^ k)) = (push_bit l (of_nat (?p mod 2 ^ k)) :: u32)"
    then have "?p mod 2 ^ k = i mod 2 ^ k"
      by (rule slot_addr_inj[OF kl, symmetric])
    then have "2 ^ k dvd ?p - i"
      using that by (simp add: mod_eq_dvd_iff_nat)
    then show False
      using that room by (auto dest: dvd_imp_le)
  qed
  have data: "kl_data ?s (push_bit l (of_nat (i mod 2 ^ k))) = kl_put ?s ! i" if "?g \<le> i" "i < Suc ?p" for i
    using assms(1) that other[of i] by (cases "i = ?p") (auto simp: addr nth_append kq_inv_def)
  have "q_producer_index (kl_queue ?s) = of_nat (Suc ?p mod 2 ^ k)" "queue_get_producer (kl_queue ?s) pt = of_nat (Suc ?p mod 2 ^ k)"
    "q_consumer_index (kl_queue ?s) = of_nat (?g mod 2 ^ k)" "queue_get_consumer (kl_queue ?s) ct = of_nat (?g mod 2 ^ k)"
    "q_index_mask (kl_queue ?s) = mask k" "q_log2_elem_size (kl_queue ?s) = l"
    using assms(1) masked_suc[of ?p k] by (auto simp: kq_inv_def queue_sides_def Let_def)
  moreover have "kl_got s = take ?g (kl_put s @ [e])"
    using assms(1) counts(1) by (simp add: kq_inv_def)
  ultimately show ?thesis
    using assms(1) room data by (auto simp: kq_inv_def)
qed

lemma kq_inv_consume:
  assumes "kq_inv pt ct k l s" "queue_head (kl_queue s) ct = Some addr"
  shows "kq_inv pt ct k l (s\<lparr> kl_queue := queue_advance_consumer (kl_queue s) ct, kl_got := kl_got s @ [kl_data s addr] \<rparr>)"
    (is "kq_inv pt ct k l ?s")
proof -
  let ?p = "length (kl_put s)" and ?g = "length (kl_got s)"
  have ne: "\<not> queue_empty (kl_queue s) ct" and a: "addr = push_bit l (of_nat (?g mod 2 ^ k))"
    using assms by (auto simp: queue_head_def queue_consumer_addr_def kq_inv_def Let_def split: if_splits)
  have less: "?g < ?p"
    using kq_counts(1,5)[OF assms(1)] ne by simp
  then have "kl_data s addr = kl_put s ! ?g"
    using assms(1) by (simp add: a kq_inv_def)
  then have got: "kl_got s @ [kl_data s addr] = take (Suc ?g) (kl_put s)"
    using assms(1) less by (metis kq_inv_def take_Suc_conv_app_nth)
  have "q_producer_index (kl_queue ?s) = of_nat (?p mod 2 ^ k)" "queue_get_producer (kl_queue ?s) pt = of_nat (?p mod 2 ^ k)"
    "q_consumer_index (kl_queue ?s) = of_nat (Suc ?g mod 2 ^ k)" "queue_get_consumer (kl_queue ?s) ct = of_nat (Suc ?g mod 2 ^ k)"
    "q_index_mask (kl_queue ?s) = mask k" "q_log2_elem_size (kl_queue ?s) = l"
    using assms(1) masked_suc[of ?g k] by (auto simp: kq_inv_def queue_sides_def Let_def)
  with got show ?thesis
    using assms(1) less by (auto simp: kq_inv_def)
qed

interpretation kernel_link: fifo_link "kq_step pt ct" "kq_inv pt ct k l" kl_put kl_got "2 ^ k - 1" for pt ct k l
proof unfold_locales
  show "kq_inv pt ct k l s'" if "kq_inv pt ct k l s" "kq_step pt ct s s'" for s s' :: "'e queue_link"
    using that(2,1) by cases (auto intro: kq_inv_produce kq_inv_consume)
  show "length (kl_put s) \<le> length (kl_got s) + (2 ^ k - 1)" if "kq_inv pt ct k l s" for s :: "'e queue_link"
    using kq_counts(1,2)[OF that] by simp
qed (simp add: kq_inv_def)

lemma kq_inv_init: "0 < k \<Longrightarrow> k + l \<le> 32 \<Longrightarrow> (pt, ct) \<in> set queue_sides \<Longrightarrow> kq_inv pt ct k l (kq_init k l data)"
  by (auto simp: kq_inv_def kq_init_def queue_sides_def)

text \<open>
  C36. The queue between the kernel module and a client, in either direction, is a lossless ordered queue: for every
  size that is a power of two, after any interleaving of the two sides the consumer has got a prefix of what the
  producer put, unchanged and in order. The count that the producer sees is the number of elements under way, which is at most
  one less than the number of slots, and the producer finds the queue full exactly then.
\<close>

theorem kernel_queue_fifo:
  assumes "(pt, ct) \<in> set queue_sides" "0 < k" "k + l \<le> 32" "(kq_step pt ct)\<^sup>*\<^sup>* (kq_init k l data) s"
  shows "\<exists>pending. kl_put s = kl_got s @ pending \<and> queue_count (kl_queue s) pt = of_nat (length pending) \<and>
    length pending \<le> 2 ^ k - 1 \<and> (queue_full (kl_queue s) pt \<longleftrightarrow> length pending = 2 ^ k - 1) \<and>
    (queue_empty (kl_queue s) ct \<longleftrightarrow> pending = [])"
proof -
  have init: "kq_inv pt ct k l (kq_init k l data)"
    using assms(1-3) by (rule kq_inv_init[rotated 2])
  then have inv: "kq_inv pt ct k l s"
    by (rule kernel_link.inv_reach[OF assms(4)])
  obtain pending where p: "kl_put s = kl_got s @ pending" "length pending \<le> 2 ^ k - 1"
    using kernel_link.fifo_reach[OF init assms(4)] by blast
  then show ?thesis
    using kq_counts(3-5)[OF inv] by (intro exI[of _ pending]) simp
qed

theorem kernel_queue_fifo_witness:
  "\<exists>s pending. (kq_step QUEUE_TYPE_TO_CLIENT QUEUE_TYPE_FROM_DRIVER)\<^sup>*\<^sup>* (kq_init 1 6 (\<lambda>_. ''old'')) s \<and>
     kl_put s = kl_got s @ pending \<and> queue_count (kl_queue s) QUEUE_TYPE_TO_CLIENT = of_nat (length pending) \<and>
     queue_full (kl_queue s) QUEUE_TYPE_TO_CLIENT \<and> kl_put s = [''cqe'']"
proof -
  let ?s = "kq_init 1 6 (\<lambda>_. ''old'')" and ?pt = QUEUE_TYPE_TO_CLIENT and ?ct = QUEUE_TYPE_FROM_DRIVER
  let ?s' = "?s\<lparr> kl_data := (kl_data ?s)(queue_producer_addr (kl_queue ?s) ?pt := ''cqe''),
    kl_queue := queue_advance_producer (kl_queue ?s) ?pt, kl_put := kl_put ?s @ [''cqe''] \<rparr>"
  have "\<not> queue_full (kl_queue ?s) ?pt"
    by (simp add: kq_init_def queue_full_def mask_eq_exp_minus_1)
  then have step: "(kq_step ?pt ?ct)\<^sup>*\<^sup>* ?s ?s'"
    by (intro r_into_rtranclp kq_produce)
  have put: "kl_put ?s' = [''cqe'']" "kl_got ?s' = []"
    by (simp_all add: kq_init_def)
  obtain pending where p: "kl_put ?s' = kl_got ?s' @ pending" "queue_count (kl_queue ?s') ?pt = of_nat (length pending)"
    "queue_full (kl_queue ?s') ?pt \<longleftrightarrow> length pending = 2 ^ 1 - 1"
    using kernel_queue_fifo[OF _ _ _ step] by (auto simp: queue_sides_def)
  have "length pending = 2 ^ 1 - 1"
    using p(1) unfolding put by (simp add: eq_commute[of "[_]"])
  with p(3) have "queue_full (kl_queue ?s') ?pt"
    by (rule iffD2)
  with step put(1) p(1,2) show ?thesis
    by (intro exI[of _ ?s'] exI[of _ pending] conjI)
qed

text \<open>
  The addresses are masked where an index is given, and not where the index of the other side is read from the
  shared buffer: with an index that a client stored there, the address lies outside of the slots.
\<close>

lemma client_index_not_masked:
  "\<exists>q. q_index_mask q = mask 1 \<and> q_log2_elem_size q = 6 \<and> queue_producer_addr q QUEUE_TYPE_FROM_CLIENT = 128 \<and>
    queue_addr_from_index q (queue_get_producer q QUEUE_TYPE_FROM_CLIENT) = 0"
  by (rule exI[of _ "\<lparr> q_producer_index = 2, q_consumer_index = 0, q_log2_elem_size = 6, q_index_mask = mask 1, q_index = 0 \<rparr>"])
    (simp add: queue_producer_addr_def queue_addr_from_index_def mask_eq_exp_minus_1 push_bit_eq_mult)

lemma queue_index_roundtrip:
  assumes "q_index_mask q = mask k" "k + q_log2_elem_size q \<le> 32"
  shows "queue_index_from_addr q (queue_addr_from_index q index) = index AND q_index_mask q"
proof -
  have "drop_bit (q_log2_elem_size q) (push_bit (q_log2_elem_size q) (take_bit k index)) = take_bit k index"
    using assms(2) by (intro bit_word_eqI) (auto simp: bit_simps dest: bit_imp_le_length)
  then show ?thesis
    by (simp add: queue_index_from_addr_def queue_addr_from_index_def assms(1) flip: take_bit_eq_mask)
qed

text \<open>A new size of a completion queue that passes the check has room for the completions under way.\<close>

lemma cq_size_sufficient:
  assumes "kq_inv QUEUE_TYPE_TO_CLIENT ct k l s" "k \<le> 31" "dtld_cq_chk_attr max_cqe (Some (kl_queue s)) cqe = 0"
  shows "length (kl_put s) \<le> length (kl_got s) + nat cqe" "cqe \<le> max_cqe"
proof -
  let ?n = "length (kl_put s) - length (kl_got s)"
  have "?n < 2 ^ k"
    by (rule kq_counts(2)[OF assms(1)])
  also have "\<dots> \<le> 2 ^ 31"
    using assms(2) by (intro power_increasing) simp_all
  finally have small: "?n < 2 ^ 31" .
  then have "take_bit 32 ?n = ?n"
    by (simp add: take_bit_nat_eq_self_iff)
  then have "sint (of_nat ?n :: u32) = int ?n"
    using small by (simp add: sint_uint unsigned_of_nat signed_take_bit_int_eq_self_iff)
  then show "length (kl_put s) \<le> length (kl_got s) + nat cqe" "cqe \<le> max_cqe"
    using assms(3) kq_counts(1)[OF assms(1)]
    by (auto simp: dtld_cq_chk_attr_def kq_counts(3)[OF assms(1)] Let_def split: if_splits)
qed

end
