(* ===== verification/Kernel_Pool.thy ===== *)
theory Kernel_Pool
  imports Prelude
begin

text \<open>
  The pools of reference counted objects of the kernel module, \<^verbatim>\<open>driver/dtld_pool.c\<close>. The objects of a pool have an
  index that is allocated from an \<^verbatim>\<open>xarray\<close> of the kernel, which is not part of the sources:
  \<^verbatim>\<open>xa_alloc_cyclic\<close> is an argument that, given the array, the limits and the place to start, returns its
  code, the index and the next place. As documented, the code is 0 when an index was allocated, 1 when an index was
  allocated after wrapping around, and negative when none was. The objects that are allocated are a table; to use another one
  is a use after free.
\<close>

subsection \<open>The operations\<close>

datatype dtld_elem_type = DTLD_TYPE_UC | DTLD_TYPE_PD | DTLD_TYPE_AH | DTLD_TYPE_SRQ | DTLD_TYPE_QP | DTLD_TYPE_CQ | DTLD_TYPE_MR | DTLD_TYPE_MW

record dtld_type_info =
  ti_min_index :: u32
  ti_max_index :: u32
  ti_max_elem :: u32

text \<open>The table; the entries that it leaves out are zero.\<close>

fun type_info :: "dtld_elem_type \<Rightarrow> dtld_type_info" where
  "type_info DTLD_TYPE_UC = \<lparr> ti_min_index = 1, ti_max_index = 0xffffffff, ti_max_elem = 0xffffffff \<rparr>"
| "type_info DTLD_TYPE_PD = \<lparr> ti_min_index = 1, ti_max_index = 0xffffffff, ti_max_elem = 0xffffffff \<rparr>"
| "type_info DTLD_TYPE_AH = \<lparr> ti_min_index = 1, ti_max_index = 32767, ti_max_elem = 32767 - 1 + 1 \<rparr>"
| "type_info DTLD_TYPE_SRQ = \<lparr> ti_min_index = 0, ti_max_index = 0, ti_max_elem = 0 \<rparr>"
| "type_info DTLD_TYPE_QP = \<lparr> ti_min_index = 16, ti_max_index = 1048576, ti_max_elem = 1048576 - 16 + 1 \<rparr>"
| "type_info DTLD_TYPE_CQ = \<lparr> ti_min_index = 1, ti_max_index = 0xffffffff, ti_max_elem = 0xffffffff \<rparr>"
| "type_info DTLD_TYPE_MR = \<lparr> ti_min_index = 1, ti_max_index = 1048576, ti_max_elem = 1048576 - 1 + 1 \<rparr>"
| "type_info DTLD_TYPE_MW = \<lparr> ti_min_index = 0, ti_max_index = 0, ti_max_elem = 0 \<rparr>"

record dtld_pool_elem =
  pe_index :: u32
  pe_ref_cnt :: nat

record dtld_pool =
  pl_type :: dtld_elem_type
  pl_max_elem :: u32
  pl_num_elem :: u32
  pl_xa :: "u32 \<rightharpoonup> nat"
  pl_limit :: "u32 \<times> u32"
  pl_next :: u32
  pl_elems :: "nat \<rightharpoonup> dtld_pool_elem"

datatype pool_fault = FreedElem

type_synonym xa_alloc = "(u32 \<rightharpoonup> nat) \<Rightarrow> u32 \<times> u32 \<Rightarrow> u32 \<Rightarrow> int \<times> u32 \<times> u32"

definition EINVAL :: int where "EINVAL = 22"

definition dtld_pool_init :: "dtld_elem_type \<Rightarrow> dtld_pool" where
  "dtld_pool_init t =
     (let info = type_info t
      in \<lparr> pl_type = t, pl_max_elem = ti_max_elem info, pl_num_elem = 0, pl_xa = Map.empty,
           pl_limit = (ti_min_index info, ti_max_index info), pl_next = 0, pl_elems = Map.empty \<rparr>)"

text \<open>What \<^verbatim>\<open>xa_alloc_cyclic\<close> stores: the entry of the array, the index of the element and the next place.\<close>

definition store_index :: "xa_alloc \<Rightarrow> nat \<Rightarrow> dtld_pool \<Rightarrow> int \<times> dtld_pool" where
  "store_index xa elem pool =
     (let (err, index, next) = xa (pl_xa pool) (pl_limit pool) (pl_next pool)
      in if err < 0 then (err, pool)
         else (err, pool\<lparr> pl_xa := (pl_xa pool)(index \<mapsto> elem), pl_next := next,
                          pl_elems := (pl_elems pool)(elem := map_option (\<lambda>e. e\<lparr> pe_index := index \<rparr>) (pl_elems pool elem)) \<rparr>))"

text \<open>\<open>obj\<close> is what \<^verbatim>\<open>kzalloc\<close> returns.\<close>

definition dtld_alloc :: "xa_alloc \<Rightarrow> nat option \<Rightarrow> dtld_pool \<Rightarrow> nat option \<times> dtld_pool" where
  "dtld_alloc xa obj pool =
     (if pl_type pool \<noteq> DTLD_TYPE_MR then (None, pool)
      else
        let pool = pool\<lparr> pl_num_elem := pl_num_elem pool + 1 \<rparr>;
            err_cnt = (\<lambda>pool. (None, pool\<lparr> pl_num_elem := pl_num_elem pool - 1 \<rparr>))
        in if pl_num_elem pool > pl_max_elem pool then err_cnt pool
           else case obj of
                  None \<Rightarrow> err_cnt pool
                | Some obj \<Rightarrow>
                    (let (err, pool) = store_index xa obj (pool\<lparr> pl_elems := (pl_elems pool)(obj \<mapsto> \<lparr> pe_index = 0, pe_ref_cnt = 1 \<rparr>) \<rparr>)
                     in if err \<noteq> 0 then err_cnt (pool\<lparr> pl_elems := (pl_elems pool)(obj := None) \<rparr>)
                        else (Some obj, pool)))"

definition dtld_add_to_pool :: "xa_alloc \<Rightarrow> nat \<Rightarrow> dtld_pool \<Rightarrow> int \<times> dtld_pool" where
  "dtld_add_to_pool xa elem pool =
     (if pl_type pool = DTLD_TYPE_MR then (- EINVAL, pool)
      else
        let pool = pool\<lparr> pl_num_elem := pl_num_elem pool + 1 \<rparr>;
            err_cnt = (\<lambda>pool. (- EINVAL, pool\<lparr> pl_num_elem := pl_num_elem pool - 1 \<rparr>))
        in if pl_num_elem pool > pl_max_elem pool then err_cnt pool
           else
             let (err, pool) = store_index xa elem (pool\<lparr> pl_elems := (pl_elems pool)(elem \<mapsto> \<lparr> pe_index = 0, pe_ref_cnt = 1 \<rparr>) \<rparr>)
             in if err \<noteq> 0 then err_cnt pool else (0, pool))"

definition dtld_pool_get_index :: "u32 \<Rightarrow> dtld_pool \<Rightarrow> (pool_fault, nat option \<times> dtld_pool) result" where
  "dtld_pool_get_index index pool =
     (case pl_xa pool index of
        None \<Rightarrow> Ok (None, pool)
      | Some elem \<Rightarrow>
          (case pl_elems pool elem of
             None \<Rightarrow> Err FreedElem
           | Some e \<Rightarrow>
               if pe_ref_cnt e \<noteq> 0 then Ok (Some elem, pool\<lparr> pl_elems := (pl_elems pool)(elem \<mapsto> e\<lparr> pe_ref_cnt := pe_ref_cnt e + 1 \<rparr>) \<rparr>)
               else Ok (None, pool)))"

definition dtld_elem_release :: "nat \<Rightarrow> dtld_pool_elem \<Rightarrow> dtld_pool \<Rightarrow> dtld_pool" where
  "dtld_elem_release elem e pool =
     pool\<lparr> pl_xa := (pl_xa pool)(pe_index e := None), pl_elems := (pl_elems pool)(elem := None), pl_num_elem := pl_num_elem pool - 1 \<rparr>"

definition dtld_get :: "nat \<Rightarrow> dtld_pool \<Rightarrow> (pool_fault, bool \<times> dtld_pool) result" where
  "dtld_get elem pool =
     (case pl_elems pool elem of
        None \<Rightarrow> Err FreedElem
      | Some e \<Rightarrow>
          if pe_ref_cnt e \<noteq> 0 then Ok (True, pool\<lparr> pl_elems := (pl_elems pool)(elem \<mapsto> e\<lparr> pe_ref_cnt := pe_ref_cnt e + 1 \<rparr>) \<rparr>)
          else Ok (False, pool))"

definition dtld_put :: "nat \<Rightarrow> dtld_pool \<Rightarrow> (pool_fault, bool \<times> dtld_pool) result" where
  "dtld_put elem pool =
     (case pl_elems pool elem of
        None \<Rightarrow> Err FreedElem
      | Some e \<Rightarrow>
          (let e = e\<lparr> pe_ref_cnt := pe_ref_cnt e - 1 \<rparr>
           in if pe_ref_cnt e = 0 then Ok (True, dtld_elem_release elem e pool)
              else Ok (False, pool\<lparr> pl_elems := (pl_elems pool)(elem \<mapsto> e) \<rparr>)))"

subsection \<open>What the pool promises\<close>

text \<open>The documented behaviour of \<^verbatim>\<open>xa_alloc_cyclic\<close>: an index that it allocates is free and between the limits.\<close>

definition xa_ok :: "xa_alloc \<Rightarrow> bool" where
  "xa_ok xa \<longleftrightarrow> (\<forall>m lo hi start err index next. xa m (lo, hi) start = (err, index, next) \<and> 0 \<le> err \<longrightarrow>
     m index = None \<and> lo \<le> index \<and> index \<le> hi)"

text \<open>As long as it never wraps around, an allocation that succeeds returns the code 0.\<close>

definition xa_no_wrap :: "xa_alloc \<Rightarrow> bool" where
  "xa_no_wrap xa \<longleftrightarrow> (\<forall>m lim start. fst (xa m lim start) \<le> 0)"

text \<open>
  The array holds objects that are allocated and referenced, each under its own index between the limits, and counts them.
\<close>

definition pool_ok :: "dtld_pool \<Rightarrow> bool" where
  "pool_ok pool \<longleftrightarrow>
     (\<forall>i x. pl_xa pool i = Some x \<longrightarrow> (\<exists>e. pl_elems pool x = Some e \<and> pe_index e = i \<and> 0 < pe_ref_cnt e)) \<and>
     card (dom (pl_xa pool)) = unat (pl_num_elem pool) \<and> pl_num_elem pool \<le> pl_max_elem pool \<and>
     (0 < fst (pl_limit pool) \<or> pl_max_elem pool = 0) \<and>
     (\<forall>i\<in>dom (pl_xa pool). fst (pl_limit pool) \<le> i \<and> i \<le> snd (pl_limit pool))"

text \<open>
  What the module does with a pool: objects are new when they are added, and only a reference to an object of the pool
  is given back.
\<close>

inductive pool_kstep :: "xa_alloc \<Rightarrow> dtld_pool \<Rightarrow> dtld_pool \<Rightarrow> bool" for xa where
  ks_alloc: "dtld_alloc xa obj pool = (r, pool') \<Longrightarrow> (\<And>x. obj = Some x \<Longrightarrow> x \<notin> ran (pl_xa pool)) \<Longrightarrow> pool_kstep xa pool pool'"
| ks_add: "dtld_add_to_pool xa elem pool = (ret, pool') \<Longrightarrow> elem \<notin> ran (pl_xa pool) \<Longrightarrow> pool_kstep xa pool pool'"
| ks_index: "dtld_pool_get_index i pool = Ok (r, pool') \<Longrightarrow> pool_kstep xa pool pool'"
| ks_get: "dtld_get elem pool = Ok (b, pool') \<Longrightarrow> pool_kstep xa pool pool'"
| ks_put: "dtld_put elem pool = Ok (b, pool') \<Longrightarrow> elem \<in> ran (pl_xa pool) \<Longrightarrow> pool_kstep xa pool pool'"

lemma count_step:
  fixes m :: "u32 \<rightharpoonup> nat" and n :: u32
  assumes "m i = None" "card (dom m) = unat n" "0 < lo" "lo \<le> i" "\<forall>j\<in>dom m. lo \<le> j"
  shows "card (dom (m(i \<mapsto> x))) = unat (n + 1)"
proof -
  have card: "card (dom (m(i \<mapsto> x))) = Suc (unat n)"
    using assms(1,2) by (simp add: domIff)
  have "\<not> lo \<le> 0"
    using assms(3) by (simp add: not_le)
  then have "i \<noteq> 0" "0 \<notin> dom m"
    using assms(4,5) by blast+
  then have "dom (m(i \<mapsto> x)) \<subseteq> UNIV - {0}"
    by auto
  then have "Suc (unat n) \<le> card (UNIV - {0 :: u32})"
    unfolding card[symmetric] by (intro card_mono) simp_all
  also have "\<dots> = 2 ^ 32 - 1"
    by (simp add: card_word)
  finally have "unat (n + 1) = Suc (unat n)"
    by (simp add: unat_word_ariths)
  with card show ?thesis
    by simp
qed

lemma pool_ok_store:
  assumes "xa_ok xa" "xa_no_wrap xa" "pool_ok pool" "x \<notin> ran (pl_xa pool)" "pl_num_elem pool + 1 \<le> pl_max_elem pool"
    and "store_index xa x (pool\<lparr> pl_num_elem := pl_num_elem pool + 1, pl_elems := (pl_elems pool)(x \<mapsto> \<lparr> pe_index = 0, pe_ref_cnt = 1 \<rparr>) \<rparr>) = (err, pool')"
  shows "err = 0 \<and> pool_ok pool' \<or> err < 0 \<and> pool' = pool\<lparr> pl_num_elem := pl_num_elem pool + 1,
    pl_elems := (pl_elems pool)(x \<mapsto> \<lparr> pe_index = 0, pe_ref_cnt = 1 \<rparr>) \<rparr>"
proof -
  obtain index nxt where xa: "xa (pl_xa pool) (pl_limit pool) (pl_next pool) = (err, index, nxt)"
    using assms(6) by (auto simp: store_index_def split: prod.splits if_splits)
  show ?thesis
  proof (cases "err < 0")
    case True
    with assms(6) xa show ?thesis
      by (simp add: store_index_def)
  next
    case False
    then have err: "err = 0"
      using assms(2) xa by (metis fst_conv not_less order_antisym xa_no_wrap_def)
    have idx: "pl_xa pool index = None" "fst (pl_limit pool) \<le> index" "index \<le> snd (pl_limit pool)"
      using assms(1) xa err unfolding xa_ok_def by (metis order_refl prod.collapse)+
    have "0 < fst (pl_limit pool)"
      using assms(3,5) by (auto simp: pool_ok_def)
    then have "card (dom ((pl_xa pool)(index \<mapsto> x))) = unat (pl_num_elem pool + 1)"
      using assms(3) idx by (intro count_step[where lo = "fst (pl_limit pool)"]) (auto simp: pool_ok_def)
    moreover have "pool' = pool\<lparr> pl_num_elem := pl_num_elem pool + 1, pl_xa := (pl_xa pool)(index \<mapsto> x), pl_next := nxt,
        pl_elems := (pl_elems pool)(x \<mapsto> \<lparr> pe_index = index, pe_ref_cnt = 1 \<rparr>) \<rparr>"
      using assms(6) xa err by (simp add: store_index_def)
    ultimately have "pool_ok pool'"
      using assms(3-5) idx by (auto simp: pool_ok_def ran_def)
    with err show ?thesis
      by simp
  qed
qed

lemma pool_ok_alloc:
  assumes "xa_ok xa" "xa_no_wrap xa" "pool_ok pool" "\<And>x. obj = Some x \<Longrightarrow> x \<notin> ran (pl_xa pool)"
  shows "pool_ok (snd (dtld_alloc xa obj pool))"
proof (cases "pl_type pool = DTLD_TYPE_MR \<and> pl_num_elem pool + 1 \<le> pl_max_elem pool \<and> obj \<noteq> None")
  case True
  then obtain x where x: "obj = Some x"
    by auto
  let ?p = "pool\<lparr> pl_num_elem := pl_num_elem pool + 1, pl_elems := (pl_elems pool)(x \<mapsto> \<lparr> pe_index = 0, pe_ref_cnt = 1 \<rparr>) \<rparr>"
  obtain err pool' where st: "store_index xa x ?p = (err, pool')"
    by (cases "store_index xa x ?p")
  consider "err = 0" "pool_ok pool'" | "err < 0" "pool' = ?p"
    using pool_ok_store[OF assms(1-3) assms(4)[OF x] _ st] True by blast
  then show ?thesis
  proof cases
    case 1
    with True x st show ?thesis
      by (auto simp: dtld_alloc_def Let_def not_less)
  next
    case 2
    with True x st assms(3,4) show ?thesis
      by (auto simp: dtld_alloc_def pool_ok_def ran_def Let_def not_less)
  qed
next
  case False
  then have "dtld_alloc xa obj pool = (None, pool)"
    by (auto simp: dtld_alloc_def Let_def not_less split: option.split)
  then show ?thesis
    using assms(3) by simp
qed

lemma pool_ok_add:
  assumes "xa_ok xa" "xa_no_wrap xa" "pool_ok pool" "x \<notin> ran (pl_xa pool)"
  shows "pool_ok (snd (dtld_add_to_pool xa x pool))"
proof (cases "pl_type pool \<noteq> DTLD_TYPE_MR \<and> pl_num_elem pool + 1 \<le> pl_max_elem pool")
  case True
  let ?p = "pool\<lparr> pl_num_elem := pl_num_elem pool + 1, pl_elems := (pl_elems pool)(x \<mapsto> \<lparr> pe_index = 0, pe_ref_cnt = 1 \<rparr>) \<rparr>"
  obtain err pool' where st: "store_index xa x ?p = (err, pool')"
    by (cases "store_index xa x ?p")
  consider "err = 0" "pool_ok pool'" | "err < 0" "pool' = ?p"
    using pool_ok_store[OF assms _ st] True by blast
  then show ?thesis
  proof cases
    case 1
    with True st show ?thesis
      by (auto simp: dtld_add_to_pool_def Let_def not_less)
  next
    case 2
    with True st assms(3,4) show ?thesis
      by (auto simp: dtld_add_to_pool_def pool_ok_def ran_def Let_def not_less)
  qed
next
  case False
  then have "snd (dtld_add_to_pool xa x pool) = pool"
    by (auto simp: dtld_add_to_pool_def Let_def not_less)
  then show ?thesis
    using assms(3) by simp
qed

lemma pool_ok_ref:
  assumes "pool_ok pool" "pl_elems pool x = Some e" "0 < n"
  shows "pool_ok (pool\<lparr> pl_elems := (pl_elems pool)(x \<mapsto> e\<lparr> pe_ref_cnt := n \<rparr>) \<rparr>)"
  using assms by (force simp: pool_ok_def)

lemma pool_ok_release:
  assumes "pool_ok pool" "pl_elems pool x = Some e" "pl_xa pool (pe_index e) = Some x"
  shows "pool_ok (dtld_elem_release x e pool)"
proof -
  let ?m = "(pl_xa pool)(pe_index e := None)"
  have card: "card (dom (pl_xa pool)) = unat (pl_num_elem pool)"
    using assms(1) by (simp add: pool_ok_def)
  have "pe_index e \<in> dom (pl_xa pool)"
    using assms(3) by auto
  then have pos: "0 < unat (pl_num_elem pool)"
    using card by (metis card_gt_0_iff empty_iff finite)
  then have one: "unat (pl_num_elem pool - 1) = unat (pl_num_elem pool) - 1"
    using unat_sub_le[of 1 "pl_num_elem pool"] by (simp add: word_le_nat_alt)
  have "card (dom ?m) = unat (pl_num_elem pool - 1)"
    using card \<open>pe_index e \<in> dom (pl_xa pool)\<close> by (simp add: card_Diff_singleton one)
  moreover have "pl_num_elem pool - 1 \<le> pl_max_elem pool"
    using assms(1) by (auto simp: pool_ok_def word_le_nat_alt one)
  moreover have "y \<noteq> x" if "?m i = Some y" for i y
    using that assms unfolding pool_ok_def by (metis fun_upd_apply option.distinct(1) option.inject)
  ultimately show ?thesis
    using assms(1) by (auto simp: pool_ok_def dtld_elem_release_def split: if_splits)
qed

lemma pool_ok_step:
  assumes "xa_ok xa" "xa_no_wrap xa" "pool_kstep xa pool pool'" "pool_ok pool"
  shows "pool_ok pool'"
  using assms(3)
proof cases
  case (ks_alloc obj r)
  then show ?thesis
    using pool_ok_alloc[OF assms(1,2,4), of obj] by simp
next
  case (ks_add elem ret)
  then show ?thesis
    using pool_ok_add[OF assms(1,2,4), of elem] by simp
next
  case (ks_index i r)
  then show ?thesis
    using assms(4) pool_ok_ref by (auto simp: dtld_pool_get_index_def split: option.splits if_splits)
next
  case (ks_get elem b)
  then show ?thesis
    using assms(4) pool_ok_ref by (auto simp: dtld_get_def split: option.splits if_splits)
next
  case (ks_put elem b)
  then obtain i where i: "pl_xa pool i = Some elem"
    by (auto simp: ran_def)
  then obtain e where e: "pl_elems pool elem = Some e" "pe_index e = i" "0 < pe_ref_cnt e"
    using assms(4) unfolding pool_ok_def by blast
  let ?e = "e\<lparr> pe_ref_cnt := pe_ref_cnt e - 1 \<rparr>"
  have "dtld_elem_release elem ?e pool = dtld_elem_release elem e pool"
    by (simp add: dtld_elem_release_def)
  then show ?thesis
    using ks_put(1) i e pool_ok_release[OF assms(4) e(1)] pool_ok_ref[OF assms(4) e(1), of "pe_ref_cnt e - 1"]
    by (auto simp: dtld_put_def Let_def split: if_splits)
qed

lemma pool_ok_init: "pool_ok (dtld_pool_init t)"
  by (cases t) (simp_all add: pool_ok_def dtld_pool_init_def Let_def)

text \<open>
  C39. As long as the indices of a pool never wrap around, every sequence of additions, look ups, references and releases
  keeps the pool sound: a look up by index never touches an object that is not allocated, returns only the object
  with that index, and takes a reference on it. The pool counts its objects exactly and never holds more than its limit.
\<close>

theorem pool_lookup_sound:
  assumes "xa_ok xa" "xa_no_wrap xa" "(pool_kstep xa)\<^sup>*\<^sup>* (dtld_pool_init t) pool"
  shows "\<exists>r pool'. dtld_pool_get_index i pool = Ok (r, pool') \<and>
    (case r of
       None \<Rightarrow> pl_xa pool i = None \<and> pool' = pool
     | Some x \<Rightarrow> \<exists>e. pl_elems pool x = Some e \<and> pe_index e = i \<and> 0 < pe_ref_cnt e \<and>
         pl_elems pool' x = Some (e\<lparr> pe_ref_cnt := pe_ref_cnt e + 1 \<rparr>)) \<and>
    card (dom (pl_xa pool)) = unat (pl_num_elem pool) \<and> pl_num_elem pool \<le> pl_max_elem pool"
proof -
  have ok: "pool_ok pool"
    using assms(3) by (induction rule: rtranclp_induct) (auto intro: pool_ok_init pool_ok_step[OF assms(1,2)])
  show ?thesis
  proof (cases "pl_xa pool i")
    case None
    with ok show ?thesis
      by (simp add: dtld_pool_get_index_def pool_ok_def)
  next
    case (Some x)
    then obtain e where "pl_elems pool x = Some e" "pe_index e = i" "0 < pe_ref_cnt e"
      using ok unfolding pool_ok_def by blast
    with Some ok show ?thesis
      by (simp add: dtld_pool_get_index_def pool_ok_def)
  qed
qed

text \<open>An allocation of indices as documented that looks at one place only.\<close>

definition next_index_only :: xa_alloc where
  "next_index_only m lim start =
     (let i = max start (fst lim) in if i \<le> snd lim \<and> m i = None then (0, i, i + 1) else (- 16, 0, start))"

lemma next_index_only_ok: "xa_ok next_index_only" "xa_no_wrap next_index_only"
  by (auto simp: xa_ok_def xa_no_wrap_def next_index_only_def Let_def split: if_splits)

theorem pool_lookup_sound_witness:
  "\<exists>pool r pool'. (pool_kstep next_index_only)\<^sup>*\<^sup>* (dtld_pool_init DTLD_TYPE_QP) pool \<and> dtld_pool_get_index 16 pool = Ok (r, pool') \<and>
    r = Some 5 \<and> card (dom (pl_xa pool)) = unat (pl_num_elem pool)"
proof -
  let ?p = "snd (dtld_add_to_pool next_index_only 5 (dtld_pool_init DTLD_TYPE_QP))"
  have p: "dtld_add_to_pool next_index_only 5 (dtld_pool_init DTLD_TYPE_QP) = (0, ?p)" "pl_xa ?p 16 = Some 5"
    by (simp_all add: dtld_add_to_pool_def dtld_pool_init_def store_index_def next_index_only_def Let_def)
  then have steps: "(pool_kstep next_index_only)\<^sup>*\<^sup>* (dtld_pool_init DTLD_TYPE_QP) ?p"
    by (intro r_into_rtranclp ks_add) (simp_all add: dtld_pool_init_def Let_def)
  from pool_lookup_sound[OF next_index_only_ok steps, of 16] obtain r pool' where
    "dtld_pool_get_index 16 ?p = Ok (r, pool')" "r = None \<longrightarrow> pl_xa ?p 16 = None"
    "card (dom (pl_xa ?p)) = unat (pl_num_elem ?p)"
    by (auto split: option.splits)
  moreover from this have "r = Some 5"
    using p(2) by (auto simp: dtld_pool_get_index_def split: option.splits if_splits)
  ultimately show ?thesis
    using steps by blast
qed

text \<open>
  When the indices wrap around, which the kernel reports with the code 1 although the index is allocated, the
  allocation of an object is taken to have failed: the object is freed, its index stays in the array, and the next
  look up of that index uses the freed object.
\<close>

lemma pool_wrap_use_after_free:
  assumes "pl_type pool = DTLD_TYPE_MR" "pl_num_elem pool + 1 \<le> pl_max_elem pool"
    and "xa (pl_xa pool) (pl_limit pool) (pl_next pool) = (1, index, nxt)"
  shows "\<exists>pool'. dtld_alloc xa (Some obj) pool = (None, pool') \<and> pl_num_elem pool' = pl_num_elem pool \<and>
    dtld_pool_get_index index pool' = Err FreedElem"
  using assms(1,3) leD[OF assms(2)] by (simp add: dtld_alloc_def store_index_def dtld_pool_get_index_def Let_def)

end
