(* ===== verification/Kernel_Qp.thy ===== *)
theory Kernel_Qp
  imports Prelude
begin

text \<open>
  The queue pairs of the kernel module, \<^verbatim>\<open>driver/dtld_qp.c\<close>: the checks of the parameters, the creation and the
  release of a queue pair with the references it holds, and the change and the query of its attributes.

  What the kernel provides is collected in a record: which changes of state it allows, which ports exist, the
  size of an MTU, the rounding to a power of two and the size of a scatter gather element. The mask of attributes is the set of its bits.
  The objects of other pools appear with their reference counts, completion queues also with the number of the work queues that use them.
  The second result of the creation is the entry for the mapping of a queue: its identity, if memory can be allocated,
  the code of its insertion and the offset.
\<close>

subsection \<open>State\<close>

datatype ib_qp_state = IB_QPS_RESET | IB_QPS_INIT | IB_QPS_RTR | IB_QPS_RTS | IB_QPS_SQD | IB_QPS_SQE | IB_QPS_ERR

datatype dtld_qp_state = QP_STATE_RESET | QP_STATE_INIT | QP_STATE_READY | QP_STATE_DRAIN | QP_STATE_DRAINED | QP_STATE_ERROR

datatype ib_qp_attr_mask =
    IB_QP_STATE | IB_QP_CUR_STATE | IB_QP_EN_SQD_ASYNC_NOTIFY | IB_QP_ACCESS_FLAGS | IB_QP_PKEY_INDEX | IB_QP_PORT | IB_QP_QKEY
  | IB_QP_PATH_MTU | IB_QP_TIMEOUT | IB_QP_RETRY_CNT | IB_QP_RNR_RETRY | IB_QP_RQ_PSN | IB_QP_MAX_QP_RD_ATOMIC | IB_QP_ALT_PATH
  | IB_QP_MIN_RNR_TIMER | IB_QP_SQ_PSN | IB_QP_MAX_DEST_RD_ATOMIC | IB_QP_PATH_MIG_STATE | IB_QP_CAP | IB_QP_DEST_QPN

record ib_qp_cap =
  cap_max_send_wr :: u32
  cap_max_recv_wr :: u32
  cap_max_send_sge :: u32
  cap_max_recv_sge :: u32
  cap_max_inline_data :: u32

record ib_qp_attr =
  qa_qp_state :: ib_qp_state
  qa_cur_qp_state :: ib_qp_state
  qa_path_mtu :: u32
  qa_path_mig_state :: u32
  qa_qkey :: u32
  qa_rq_psn :: u32
  qa_sq_psn :: u32
  qa_dest_qp_num :: u32
  qa_qp_access_flags :: u32
  qa_cap :: ib_qp_cap
  qa_pkey_index :: u16
  qa_alt_pkey_index :: u16
  qa_en_sqd_async_notify :: u8
  qa_sq_draining :: u8
  qa_max_rd_atomic :: u8
  qa_max_dest_rd_atomic :: u8
  qa_min_rnr_timer :: u8
  qa_port_num :: u32
  qa_timeout :: u8
  qa_retry_cnt :: u8
  qa_rnr_retry :: u8
  qa_alt_port_num :: u32
  qa_alt_timeout :: u8

datatype ib_qp_type = IB_QPT_RC | IB_QPT_OTHER

record ib_qp_init_attr =
  qi_qp_type :: ib_qp_type
  qi_send_cq :: "nat option"
  qi_recv_cq :: "nat option"
  qi_srq :: "nat option"
  qi_cap :: ib_qp_cap
  qi_sq_sig_type :: u32

record dtld_wq =
  wq_max_wr :: u32
  wq_max_sge :: u32
  wq_max_inline :: u32
  wq_ummap_ent :: "nat option"
  wq_queue :: "nat option"

record dtld_qp =
  dq_index :: u32
  dq_qp_num :: u32
  dq_attr :: ib_qp_attr
  dq_valid :: bool
  dq_mtu :: u32
  dq_pd :: "nat option"
  dq_srq :: "nat option"
  dq_scq :: "nat option"
  dq_rcq :: "nat option"
  dq_sq_sig_type :: u32
  dq_sq :: dtld_wq
  dq_rq :: dtld_wq
  dq_req_state :: dtld_qp_state
  dq_resp_state :: dtld_qp_state
  dq_ssn :: u32

record kdev =
  kd_max_qp_wr :: u32
  kd_max_send_sge :: u32
  kd_max_recv_sge :: u32
  kd_max_inline_data :: u32
  kd_max_qp_rd_atom :: u32
  kd_max_mtu :: u32

record kapi =
  ka_modify_ok :: "ib_qp_state \<Rightarrow> ib_qp_state \<Rightarrow> ib_qp_attr_mask set \<Rightarrow> bool"
  ka_port_valid :: "u32 \<Rightarrow> bool"
  ka_mtu :: "u32 \<Rightarrow> u32"
  ka_roundup :: "u32 \<Rightarrow> u32"
  ka_sge_size :: nat

datatype kobj = PdObj nat | CqObj nat | SrqObj nat

record kworld =
  kw_refs :: "kobj \<Rightarrow> nat"
  kw_num_wq :: "nat \<Rightarrow> int"
  kw_mmaps :: "nat set"
  kw_queues_freed :: "nat list"

datatype kfault = NullDeref

definition kref_get :: "kobj \<Rightarrow> kworld \<Rightarrow> kworld" where
  "kref_get x w = (if kw_refs w x \<noteq> 0 then w\<lparr> kw_refs := (kw_refs w)(x := kw_refs w x + 1) \<rparr> else w)"

definition kref_put :: "kobj \<Rightarrow> kworld \<Rightarrow> kworld" where
  "kref_put x w = w\<lparr> kw_refs := (kw_refs w)(x := kw_refs w x - 1) \<rparr>"

definition num_wq_add :: "nat \<Rightarrow> int \<Rightarrow> kworld \<Rightarrow> kworld" where
  "num_wq_add cq n w = w\<lparr> kw_num_wq := (kw_num_wq w)(cq := kw_num_wq w cq + n) \<rparr>"

definition on_some :: "nat option \<Rightarrow> (nat \<Rightarrow> kworld \<Rightarrow> kworld) \<Rightarrow> kworld \<Rightarrow> kworld" where
  "on_some x f w = (case x of None \<Rightarrow> w | Some x \<Rightarrow> f x w)"

subsection \<open>Checks\<close>

definition errno_EINVAL :: int where "errno_EINVAL = 22"
definition errno_ENOMEM :: int where "errno_ENOMEM = 12"
definition errno_EOPNOTSUPP :: int where "errno_EOPNOTSUPP = 95"

definition dtld_qp_chk_cap :: "kdev \<Rightarrow> ib_qp_cap \<Rightarrow> bool \<Rightarrow> int" where
  "dtld_qp_chk_cap dtld cap has_srq =
     (if cap_max_send_wr cap > kd_max_qp_wr dtld then - errno_EINVAL
      else if cap_max_send_sge cap > kd_max_send_sge dtld then - errno_EINVAL
      else if \<not> has_srq \<and> cap_max_recv_wr cap > kd_max_qp_wr dtld then - errno_EINVAL
      else if \<not> has_srq \<and> cap_max_recv_sge cap > kd_max_recv_sge dtld then - errno_EINVAL
      else if cap_max_inline_data cap > kd_max_inline_data dtld then - errno_EINVAL
      else 0)"

definition dtld_qp_chk_init :: "kdev \<Rightarrow> ib_qp_init_attr \<Rightarrow> int" where
  "dtld_qp_chk_init dtld init =
     (if qi_qp_type init \<noteq> IB_QPT_RC then - errno_EOPNOTSUPP
      else if qi_recv_cq init = None \<or> qi_send_cq init = None then - errno_EINVAL
      else if qi_srq init \<noteq> None then - errno_EINVAL
      else if dtld_qp_chk_cap dtld (qi_cap init) (qi_srq init \<noteq> None) \<noteq> 0 then - errno_EINVAL
      else 0)"

definition dtld_qp_chk_attr :: "kapi \<Rightarrow> kdev \<Rightarrow> dtld_qp \<Rightarrow> ib_qp_attr \<Rightarrow> ib_qp_attr_mask set \<Rightarrow> int" where
  "dtld_qp_chk_attr ka dtld qp attr m =
     (let cur_state = (if IB_QP_CUR_STATE \<in> m then qa_cur_qp_state attr else qa_qp_state (dq_attr qp));
          new_state = (if IB_QP_STATE \<in> m then qa_qp_state attr else cur_state)
      in if \<not> ka_modify_ok ka cur_state new_state m then - errno_EINVAL
         else if IB_QP_STATE \<in> m \<and> cur_state = IB_QPS_SQD \<and> dq_req_state qp = QP_STATE_DRAIN \<and> new_state \<noteq> IB_QPS_ERR then - errno_EINVAL
         else if IB_QP_PORT \<in> m \<and> \<not> ka_port_valid ka (qa_port_num attr) then - errno_EINVAL
         else if IB_QP_CAP \<in> m \<and> dtld_qp_chk_cap dtld (qa_cap attr) (dq_srq qp \<noteq> None) \<noteq> 0 then - errno_EINVAL
         else if IB_QP_ALT_PATH \<in> m then - errno_EINVAL
         else if IB_QP_PATH_MTU \<in> m \<and> qa_path_mtu attr > kd_max_mtu dtld then - errno_EINVAL
         else if IB_QP_MAX_QP_RD_ATOMIC \<in> m \<and> ucast (qa_max_rd_atomic attr) > kd_max_qp_rd_atom dtld then - errno_EINVAL
         else if IB_QP_TIMEOUT \<in> m \<and> qa_timeout attr > 31 then - errno_EINVAL
         else 0)"

subsection \<open>Creation and release\<close>

record ummap_result =
  um_ent :: "nat option"
  um_code :: int
  um_offset :: u64

record dtld_uresp_create_qp =
  ur_sq_offset :: u64
  ur_sq_len :: u32
  ur_rq_offset :: u64
  ur_rq_len :: u32

definition dtld_qp_init_misc :: "kapi \<Rightarrow> ib_qp_init_attr \<Rightarrow> dtld_qp \<Rightarrow> dtld_qp" where
  "dtld_qp_init_misc ka init qp =
     qp\<lparr> dq_sq_sig_type := qi_sq_sig_type init, dq_attr := (dq_attr qp)\<lparr> qa_path_mtu := 1 \<rparr>, dq_mtu := ka_mtu ka 1, dq_qp_num := dq_index qp \<rparr>"

text \<open>The two functions return the code, the queue pair, the capabilities as changed, the answer and the kernel.\<close>

definition dtld_qp_init_send ::
  "kapi \<Rightarrow> ummap_result \<Rightarrow> ib_qp_cap \<Rightarrow> dtld_uresp_create_qp \<Rightarrow> dtld_qp \<Rightarrow> kworld \<Rightarrow> int \<times> dtld_qp \<times> ib_qp_cap \<times> dtld_uresp_create_qp \<times> kworld" where
  "dtld_qp_init_send ka um cap uresp qp w =
     (case um_ent um of
        None \<Rightarrow> (- errno_ENOMEM, qp, cap, uresp, w)
      | Some ent \<Rightarrow>
          (let qp = qp\<lparr> dq_sq := (dq_sq qp)\<lparr> wq_ummap_ent := Some ent \<rparr> \<rparr>
           in if um_code um \<noteq> 0 then (um_code um, qp, cap, uresp, w)
              else
                let w = w\<lparr> kw_mmaps := insert ent (kw_mmaps w) \<rparr>;
                    sq = (dq_sq qp)\<lparr> wq_max_wr := cap_max_send_wr cap \<rparr>;
                    wqe_size = max (unat (cap_max_send_sge cap) * ka_sge_size ka) (unat (cap_max_inline_data cap));
                    max_sge = of_nat (wqe_size div ka_sge_size ka);
                    cap = cap\<lparr> cap_max_send_sge := max_sge \<rparr>;
                    cap = cap\<lparr> cap_max_inline_data := of_nat wqe_size \<rparr>;
                    sq = sq\<lparr> wq_max_sge := max_sge, wq_max_inline := of_nat wqe_size \<rparr>
                in (0, qp\<lparr> dq_sq := sq, dq_req_state := QP_STATE_RESET \<rparr>, cap,
                    uresp\<lparr> ur_sq_offset := um_offset um, ur_sq_len := 4096 \<rparr>, w)))"

definition dtld_qp_init_recv ::
  "ummap_result \<Rightarrow> ib_qp_cap \<Rightarrow> dtld_uresp_create_qp \<Rightarrow> dtld_qp \<Rightarrow> kworld \<Rightarrow> int \<times> dtld_qp \<times> dtld_uresp_create_qp \<times> kworld" where
  "dtld_qp_init_recv um cap uresp qp w =
     (if dq_srq qp \<noteq> None then (0, qp\<lparr> dq_resp_state := QP_STATE_RESET \<rparr>, uresp, w)
      else case um_ent um of
             None \<Rightarrow> (- errno_ENOMEM, qp, uresp, w)
           | Some ent \<Rightarrow>
               (let qp = qp\<lparr> dq_rq := (dq_rq qp)\<lparr> wq_ummap_ent := Some ent \<rparr> \<rparr>
                in if um_code um \<noteq> 0 then (um_code um, qp, uresp, w)
                   else
                     let w = w\<lparr> kw_mmaps := insert ent (kw_mmaps w) \<rparr>;
                         rq = (dq_rq qp)\<lparr> wq_max_wr := cap_max_recv_wr cap, wq_max_sge := cap_max_recv_sge cap \<rparr>
                     in (0, qp\<lparr> dq_rq := rq, dq_resp_state := QP_STATE_RESET \<rparr>,
                         uresp\<lparr> ur_rq_offset := um_offset um, ur_rq_len := 4096 \<rparr>, w)))"

definition from_init_err :: "nat \<Rightarrow> nat option \<Rightarrow> nat \<Rightarrow> nat \<Rightarrow> dtld_qp \<Rightarrow> kworld \<Rightarrow> dtld_qp \<times> kworld" where
  "from_init_err pd srq rcq scq qp w =
     (let w = num_wq_add rcq (- 1) w;
          w = num_wq_add scq (- 1) w;
          qp = qp\<lparr> dq_sq := (dq_sq qp)\<lparr> wq_ummap_ent := None \<rparr>, dq_rq := (dq_rq qp)\<lparr> wq_ummap_ent := None \<rparr>,
            dq_pd := None, dq_rcq := None, dq_scq := None, dq_srq := None \<rparr>;
          w = on_some srq (\<lambda>x. kref_put (SrqObj x)) w;
          w = kref_put (CqObj scq) w;
          w = kref_put (CqObj rcq) w
      in (qp, kref_put (PdObj pd) w))"

text \<open>The completion queues were checked by \<^const>\<open>dtld_qp_chk_init\<close>; a null one is dereferenced.\<close>

definition dtld_qp_from_init ::
  "kapi \<Rightarrow> ummap_result \<Rightarrow> ummap_result \<Rightarrow> nat \<Rightarrow> ib_qp_init_attr \<Rightarrow> dtld_uresp_create_qp \<Rightarrow> dtld_qp \<Rightarrow> kworld \<Rightarrow>
   (kfault, int \<times> dtld_qp \<times> dtld_uresp_create_qp \<times> kworld) result" where
  "dtld_qp_from_init ka um_s um_r pd init uresp qp w =
     (case (qi_recv_cq init, qi_send_cq init) of
        (Some rcq, Some scq) \<Rightarrow>
          (let srq = qi_srq init;
               w = kref_get (PdObj pd) w;
               w = kref_get (CqObj rcq) w;
               w = kref_get (CqObj scq) w;
               w = on_some srq (\<lambda>x. kref_get (SrqObj x)) w;
               qp = qp\<lparr> dq_pd := Some pd, dq_rcq := Some rcq, dq_scq := Some scq, dq_srq := srq \<rparr>;
               w = num_wq_add rcq 1 w;
               w = num_wq_add scq 1 w;
               qp = dtld_qp_init_misc ka init qp;
               (err, qp, cap, uresp, w) = dtld_qp_init_send ka um_s (qi_cap init) uresp qp w
           in if err \<noteq> 0 then (let (qp, w) = from_init_err pd srq rcq scq qp w in Ok (err, qp, uresp, w))
              else
                let (err, qp, uresp, w) = dtld_qp_init_recv um_r cap uresp qp w
                in if err \<noteq> 0 then (let (qp, w) = from_init_err pd srq rcq scq qp w in Ok (err, qp, uresp, w))
                   else Ok (0, qp\<lparr> dq_attr := (dq_attr qp)\<lparr> qa_qp_state := IB_QPS_RESET \<rparr>, dq_valid := True \<rparr>, uresp, w))
      | _ \<Rightarrow> Err NullDeref)"

definition dtld_queue_cleanup :: "nat \<Rightarrow> kworld \<Rightarrow> kworld" where
  "dtld_queue_cleanup q w = w\<lparr> kw_queues_freed := kw_queues_freed w @ [q] \<rparr>"

definition dtld_qp_do_cleanup :: "dtld_qp \<Rightarrow> kworld \<Rightarrow> (kfault, dtld_qp \<times> kworld) result" where
  "dtld_qp_do_cleanup qp w =
     (let qp = qp\<lparr> dq_valid := False \<rparr>;
          w = on_some (wq_queue (dq_sq qp)) dtld_queue_cleanup w;
          w = on_some (dq_srq qp) (\<lambda>x. kref_put (SrqObj x)) w;
          w = on_some (wq_queue (dq_rq qp)) dtld_queue_cleanup w
      in case dq_scq qp of
           None \<Rightarrow> Err NullDeref
         | Some scq \<Rightarrow>
             (let w = kref_put (CqObj scq) (num_wq_add scq (- 1) w)
              in case dq_rcq qp of
                   None \<Rightarrow> Err NullDeref
                 | Some rcq \<Rightarrow>
                     (let w = kref_put (CqObj rcq) (num_wq_add rcq (- 1) w)
                      in Ok (qp, on_some (dq_pd qp) (\<lambda>x. kref_put (PdObj x)) w))))"

subsection \<open>Attributes\<close>

definition dtld_qp_to_init :: "dtld_qp \<Rightarrow> ib_qp_init_attr \<Rightarrow> ib_qp_init_attr" where
  "dtld_qp_to_init qp init =
     (let cap = (qi_cap init)\<lparr> cap_max_send_wr := wq_max_wr (dq_sq qp), cap_max_send_sge := wq_max_sge (dq_sq qp),
            cap_max_inline_data := wq_max_inline (dq_sq qp) \<rparr>;
          cap = (if dq_srq qp = None then cap\<lparr> cap_max_recv_wr := wq_max_wr (dq_rq qp), cap_max_recv_sge := wq_max_sge (dq_rq qp) \<rparr> else cap)
      in init\<lparr> qi_send_cq := dq_scq qp, qi_recv_cq := dq_rcq qp, qi_srq := dq_srq qp, qi_cap := cap, qi_sq_sig_type := dq_sq_sig_type qp \<rparr>)"

definition dtld_qp_reset :: "dtld_qp \<Rightarrow> dtld_qp" where
  "dtld_qp_reset qp = qp\<lparr> dq_req_state := QP_STATE_RESET, dq_resp_state := QP_STATE_RESET, dq_ssn := 0 \<rparr>"

definition dtld_qp_drain :: "dtld_qp \<Rightarrow> dtld_qp" where
  "dtld_qp_drain qp =
     (if wq_queue (dq_sq qp) \<noteq> None then if dq_req_state qp \<noteq> QP_STATE_DRAINED then qp\<lparr> dq_req_state := QP_STATE_DRAIN \<rparr> else qp else qp)"

definition dtld_qp_error :: "dtld_qp \<Rightarrow> dtld_qp" where
  "dtld_qp_error qp = qp\<lparr> dq_req_state := QP_STATE_ERROR, dq_resp_state := QP_STATE_ERROR, dq_attr := (dq_attr qp)\<lparr> qa_qp_state := IB_QPS_ERR \<rparr> \<rparr>"

text \<open>The assignments to the attributes, in the order of the code, and then the change of the state.\<close>

definition when_set :: "ib_qp_attr_mask set \<Rightarrow> ib_qp_attr_mask \<Rightarrow> (ib_qp_attr \<Rightarrow> ib_qp_attr) \<Rightarrow> ib_qp_attr \<Rightarrow> ib_qp_attr" where
  "when_set m b f a = (if b \<in> m then f a else a)"

definition rd_atomic :: "kapi \<Rightarrow> u8 \<Rightarrow> u8" where
  "rd_atomic ka n = (if n \<noteq> 0 then ucast (ka_roundup ka (ucast n)) else 0)"

definition set_attrs :: "kapi \<Rightarrow> ib_qp_attr \<Rightarrow> ib_qp_attr_mask set \<Rightarrow> ib_qp_attr \<Rightarrow> ib_qp_attr" where
  "set_attrs ka attr m a =
     (let a = when_set m IB_QP_MAX_QP_RD_ATOMIC (\<lambda>a. a\<lparr> qa_max_rd_atomic := rd_atomic ka (qa_max_rd_atomic attr) \<rparr>) a;
          a = when_set m IB_QP_MAX_DEST_RD_ATOMIC (\<lambda>a. a\<lparr> qa_max_dest_rd_atomic := rd_atomic ka (qa_max_dest_rd_atomic attr) \<rparr>) a;
          a = when_set m IB_QP_CUR_STATE (\<lambda>a. a\<lparr> qa_cur_qp_state := qa_qp_state attr \<rparr>) a;
          a = when_set m IB_QP_EN_SQD_ASYNC_NOTIFY (\<lambda>a. a\<lparr> qa_en_sqd_async_notify := qa_en_sqd_async_notify attr \<rparr>) a;
          a = when_set m IB_QP_ACCESS_FLAGS (\<lambda>a. a\<lparr> qa_qp_access_flags := qa_qp_access_flags attr \<rparr>) a;
          a = when_set m IB_QP_PKEY_INDEX (\<lambda>a. a\<lparr> qa_pkey_index := qa_pkey_index attr \<rparr>) a;
          a = when_set m IB_QP_PORT (\<lambda>a. a\<lparr> qa_port_num := qa_port_num attr \<rparr>) a;
          a = when_set m IB_QP_QKEY (\<lambda>a. a\<lparr> qa_qkey := qa_qkey attr \<rparr>) a;
          a = when_set m IB_QP_ALT_PATH (\<lambda>a. a\<lparr> qa_alt_port_num := qa_alt_port_num attr, qa_alt_pkey_index := qa_alt_pkey_index attr,
                qa_alt_timeout := qa_alt_timeout attr \<rparr>) a;
          a = when_set m IB_QP_PATH_MTU (\<lambda>a. a\<lparr> qa_path_mtu := qa_path_mtu attr \<rparr>) a;
          a = when_set m IB_QP_TIMEOUT (\<lambda>a. a\<lparr> qa_timeout := qa_timeout attr \<rparr>) a;
          a = when_set m IB_QP_RETRY_CNT (\<lambda>a. a\<lparr> qa_retry_cnt := qa_retry_cnt attr \<rparr>) a;
          a = when_set m IB_QP_RNR_RETRY (\<lambda>a. a\<lparr> qa_rnr_retry := qa_rnr_retry attr \<rparr>) a;
          a = when_set m IB_QP_RQ_PSN (\<lambda>a. a\<lparr> qa_rq_psn := qa_rq_psn attr \<rparr>) a;
          a = when_set m IB_QP_MIN_RNR_TIMER (\<lambda>a. a\<lparr> qa_min_rnr_timer := qa_min_rnr_timer attr \<rparr>) a;
          a = when_set m IB_QP_SQ_PSN (\<lambda>a. a\<lparr> qa_sq_psn := qa_sq_psn attr \<rparr>) a;
          a = when_set m IB_QP_PATH_MIG_STATE (\<lambda>a. a\<lparr> qa_path_mig_state := qa_path_mig_state attr \<rparr>) a
      in when_set m IB_QP_DEST_QPN (\<lambda>a. a\<lparr> qa_dest_qp_num := qa_dest_qp_num attr \<rparr>) a)"

definition dtld_qp_from_attr :: "kapi \<Rightarrow> ib_qp_attr \<Rightarrow> ib_qp_attr_mask set \<Rightarrow> dtld_qp \<Rightarrow> dtld_qp" where
  "dtld_qp_from_attr ka attr m qp =
     (let qp = qp\<lparr> dq_attr := set_attrs ka attr m (dq_attr qp),
            dq_mtu := (if IB_QP_PATH_MTU \<in> m then ka_mtu ka (qa_path_mtu attr) else dq_mtu qp) \<rparr>
      in if IB_QP_STATE \<notin> m then qp
         else
           let qp = qp\<lparr> dq_attr := (dq_attr qp)\<lparr> qa_qp_state := qa_qp_state attr \<rparr> \<rparr>
           in case qa_qp_state attr of
                IB_QPS_RESET \<Rightarrow> dtld_qp_reset qp
              | IB_QPS_INIT \<Rightarrow> qp\<lparr> dq_req_state := QP_STATE_INIT, dq_resp_state := QP_STATE_INIT \<rparr>
              | IB_QPS_RTR \<Rightarrow> qp\<lparr> dq_resp_state := QP_STATE_READY \<rparr>
              | IB_QPS_RTS \<Rightarrow> qp\<lparr> dq_req_state := QP_STATE_READY \<rparr>
              | IB_QPS_SQD \<Rightarrow> dtld_qp_drain qp
              | IB_QPS_SQE \<Rightarrow> qp
              | IB_QPS_ERR \<Rightarrow> dtld_qp_error qp)"

definition dtld_qp_to_attr :: "dtld_qp \<Rightarrow> ib_qp_attr" where
  "dtld_qp_to_attr qp =
     (let attr = dq_attr qp;
          cap = (qa_cap attr)\<lparr> cap_max_send_wr := wq_max_wr (dq_sq qp), cap_max_send_sge := wq_max_sge (dq_sq qp),
            cap_max_inline_data := wq_max_inline (dq_sq qp) \<rparr>;
          cap = (if dq_srq qp = None then cap\<lparr> cap_max_recv_wr := wq_max_wr (dq_rq qp), cap_max_recv_sge := wq_max_sge (dq_rq qp) \<rparr> else cap)
      in attr\<lparr> qa_cap := cap, qa_sq_draining := (if dq_req_state qp = QP_STATE_DRAIN then 1 else 0) \<rparr>)"

text \<open>The state of the requester and of the responder follow the state of the queue pair.\<close>

lemma from_attr_state:
  assumes "IB_QP_STATE \<in> m"
  shows "qa_qp_state (dtld_qp_to_attr (dtld_qp_from_attr ka attr m qp)) = qa_qp_state attr"
    and "qa_qp_state attr = IB_QPS_RTR \<Longrightarrow> dq_resp_state (dtld_qp_from_attr ka attr m qp) = QP_STATE_READY"
    and "qa_qp_state attr = IB_QPS_RTS \<Longrightarrow> dq_req_state (dtld_qp_from_attr ka attr m qp) = QP_STATE_READY"
  using assms
  by (simp_all add: dtld_qp_from_attr_def dtld_qp_to_attr_def dtld_qp_reset_def dtld_qp_drain_def dtld_qp_error_def Let_def
      split: ib_qp_state.split)

text \<open>A queue that was never allocated is not drained: the state asked for is reached at once, and a query does not report draining.\<close>

lemma drain_without_queue: "wq_queue (dq_sq qp) = None \<Longrightarrow> dtld_qp_drain qp = qp"
  by (simp add: dtld_qp_drain_def)

text \<open>The current state that the caller names is not the one that is stored.\<close>

lemma cur_state_from_new_state:
  "qa_cur_qp_state (set_attrs ka attr {IB_QP_CUR_STATE} a) = qa_qp_state attr"
  by (simp add: set_attrs_def when_set_def Let_def)

text \<open>The number of outstanding reads as responder is not bounded by the check, and one above 128 is stored as 0.\<close>

lemma dest_rd_atomic_lost:
  assumes "ka_roundup ka 129 = 256" "\<And>cur new m. ka_modify_ok ka cur new m"
  shows "dtld_qp_chk_attr ka dtld qp (attr\<lparr> qa_max_dest_rd_atomic := 129 \<rparr>) {IB_QP_MAX_DEST_RD_ATOMIC} = 0"
    and "qa_max_dest_rd_atomic (dq_attr (dtld_qp_from_attr ka (attr\<lparr> qa_max_dest_rd_atomic := 129 \<rparr>) {IB_QP_MAX_DEST_RD_ATOMIC} qp)) = 0"
  using assms by (simp_all add: dtld_qp_chk_attr_def dtld_qp_from_attr_def set_attrs_def when_set_def rd_atomic_def Let_def)

subsection \<open>References\<close>

text \<open>What the creation does to the counts before the two queues are set up, and what undoes it.\<close>

definition taken :: "nat \<Rightarrow> nat \<Rightarrow> nat \<Rightarrow> kworld \<Rightarrow> kworld" where
  "taken pd rcq scq w = num_wq_add scq 1 (num_wq_add rcq 1 (kref_get (CqObj scq) (kref_get (CqObj rcq) (kref_get (PdObj pd) w))))"

definition referenced :: "nat \<Rightarrow> nat \<Rightarrow> nat \<Rightarrow> kworld \<Rightarrow> bool" where
  "referenced pd rcq scq w \<longleftrightarrow> 0 < kw_refs w (PdObj pd) \<and> 0 < kw_refs w (CqObj rcq) \<and> 0 < kw_refs w (CqObj scq)"

lemma untake:
  assumes "referenced pd rcq scq w"
  shows "kref_put (PdObj pd) (kref_put (CqObj rcq) (kref_put (CqObj scq) (num_wq_add scq (- 1) (num_wq_add rcq (- 1)
      (taken pd rcq scq w\<lparr> kw_mmaps := m \<rparr>))))) = w\<lparr> kw_mmaps := m \<rparr>"
  using assms by (simp add: referenced_def taken_def kref_get_def kref_put_def num_wq_add_def fun_eq_iff)

lemma taken_mmaps: "taken pd rcq scq w = taken pd rcq scq w\<lparr> kw_mmaps := kw_mmaps w \<rparr>"
  by (simp add: taken_def num_wq_add_def kref_get_def)

lemma kw_mmaps_taken: "kw_mmaps (taken pd rcq scq w) = kw_mmaps w"
  by (simp add: taken_def num_wq_add_def kref_get_def)

lemma put_commute: "kref_put x (num_wq_add q n w) = num_wq_add q n (kref_put x w)"
  by (simp add: kref_put_def num_wq_add_def)

lemma num_wq_commute: "num_wq_add p m (num_wq_add q n w) = num_wq_add q n (num_wq_add p m w)"
  by (auto simp: num_wq_add_def fun_eq_iff)

lemma release_order:
  "kref_put (PdObj pd) (kref_put (CqObj rcq) (num_wq_add rcq (- 1) (kref_put (CqObj scq) (num_wq_add scq (- 1) w)))) =
   kref_put (PdObj pd) (kref_put (CqObj rcq) (kref_put (CqObj scq) (num_wq_add scq (- 1) (num_wq_add rcq (- 1) w))))"
  by (simp add: put_commute num_wq_commute[of rcq])

lemma err_untakes:
  assumes "referenced pd rcq scq w"
  shows "\<exists>qp'. from_init_err pd None rcq scq qp (taken pd rcq scq w\<lparr> kw_mmaps := m \<rparr>) = (qp', w\<lparr> kw_mmaps := m \<rparr>) \<and>
    dq_scq qp' = None"
  using untake[OF assms, of m] by (simp add: from_init_err_def on_some_def Let_def)

lemma cleanup_null: "dq_scq qp = None \<Longrightarrow> dtld_qp_do_cleanup qp w = Err NullDeref"
  by (simp add: dtld_qp_do_cleanup_def Let_def)

lemma cleanup_untakes:
  assumes "referenced pd rcq scq w" "dq_pd qp = Some pd" "dq_rcq qp = Some rcq" "dq_scq qp = Some scq" "dq_srq qp = None"
    and "wq_queue (dq_sq qp) = None" "wq_queue (dq_rq qp) = None"
  shows "dtld_qp_do_cleanup qp (taken pd rcq scq w\<lparr> kw_mmaps := m \<rparr>) = Ok (qp\<lparr> dq_valid := False \<rparr>, w\<lparr> kw_mmaps := m \<rparr>)"
  using untake[OF assms(1), of m] assms(2-) by (simp add: dtld_qp_do_cleanup_def on_some_def release_order Let_def)

text \<open>
  C40. The references of a queue pair are balanced: after the parameters passed the check, a creation that fails leaves the
  counts of the protection domain and of the completion queues as they were, and one that succeeds is undone exactly by the
  release. A queue pair whose creation failed must not be released: its completion queues are null by then, and the release
  dereferences them. When the mapping of the receive queue fails, the mapping of the send queue stays inserted.
\<close>

theorem qp_references_balanced:
  assumes "dtld_qp_chk_init dtld init = 0" "qi_recv_cq init = Some rcq" "qi_send_cq init = Some scq"
    and "referenced pd rcq scq w" "wq_queue (dq_sq qp) = None" "wq_queue (dq_rq qp) = None"
  shows "\<exists>err qp' uresp' w'. dtld_qp_from_init ka um_s um_r pd init uresp qp w = Ok (err, qp', uresp', w') \<and>
    (if err = 0
     then \<exists>qp'' m. dtld_qp_do_cleanup qp' w' = Ok (qp'', w\<lparr> kw_mmaps := m \<rparr>)
     else dtld_qp_do_cleanup qp' w' = Err NullDeref \<and>
       w' = w\<lparr> kw_mmaps := (case um_ent um_s of Some ent \<Rightarrow> if um_code um_s = 0 then insert ent (kw_mmaps w) else kw_mmaps w | None \<Rightarrow> kw_mmaps w) \<rparr>)"
proof -
  have srq: "qi_srq init = None"
    using assms(1) by (auto simp: dtld_qp_chk_init_def errno_EINVAL_def errno_EOPNOTSUPP_def split: if_splits)
  let ?qp = "dtld_qp_init_misc ka init (qp\<lparr> dq_pd := Some pd, dq_rcq := Some rcq, dq_scq := Some scq, dq_srq := None \<rparr>)"
  let ?w = "taken pd rcq scq w"
  obtain err qp1 cap uresp1 w1 where send: "dtld_qp_init_send ka um_s (qi_cap init) uresp ?qp ?w = (err, qp1, cap, uresp1, w1)"
    by (metis prod_cases5)
  define m where "m = (case um_ent um_s of Some ent \<Rightarrow> if um_code um_s = 0 then insert ent (kw_mmaps w) else kw_mmaps w | None \<Rightarrow> kw_mmaps w)"
  have w1: "w1 = ?w\<lparr> kw_mmaps := m \<rparr>"
    using send taken_mmaps[of pd rcq scq w]
    by (auto simp: dtld_qp_init_send_def m_def kw_mmaps_taken Let_def split: option.splits if_splits)
  have qp1: "dq_pd qp1 = Some pd" "dq_rcq qp1 = Some rcq" "dq_scq qp1 = Some scq" "dq_srq qp1 = None"
    "wq_queue (dq_sq qp1) = None" "wq_queue (dq_rq qp1) = None"
    using send assms(5,6) by (auto simp: dtld_qp_init_send_def dtld_qp_init_misc_def Let_def split: option.splits if_splits)
  have unfold: "dtld_qp_from_init ka um_s um_r pd init uresp qp w =
      (if err \<noteq> 0 then (let (qp, w) = from_init_err pd None rcq scq qp1 w1 in Ok (err, qp, uresp1, w))
       else let (err, qp, uresp, w) = dtld_qp_init_recv um_r cap uresp1 qp1 w1
            in if err \<noteq> 0 then (let (qp, w) = from_init_err pd None rcq scq qp w in Ok (err, qp, uresp, w))
               else Ok (0, qp\<lparr> dq_attr := (dq_attr qp)\<lparr> qa_qp_state := IB_QPS_RESET \<rparr>, dq_valid := True \<rparr>, uresp, w))"
    using send assms(2,3) srq by (simp add: dtld_qp_from_init_def on_some_def taken_def Let_def)
  show ?thesis
  proof (cases "err = 0")
    case False
    obtain qp' where "from_init_err pd None rcq scq qp1 w1 = (qp', w\<lparr> kw_mmaps := m \<rparr>)" "dq_scq qp' = None"
      unfolding w1 using err_untakes[OF assms(4), of qp1 m] by blast
    with False unfold show ?thesis
      unfolding m_def[symmetric] by (simp add: cleanup_null)
  next
    case True
    obtain err2 qp2 uresp2 w2 where recv: "dtld_qp_init_recv um_r cap uresp1 qp1 w1 = (err2, qp2, uresp2, w2)"
      by (metis prod_cases4)
    have qp2: "dq_pd qp2 = Some pd" "dq_rcq qp2 = Some rcq" "dq_scq qp2 = Some scq" "dq_srq qp2 = None"
      "wq_queue (dq_sq qp2) = None" "wq_queue (dq_rq qp2) = None"
      using recv qp1 by (auto simp: dtld_qp_init_recv_def Let_def split: option.splits if_splits)
    obtain m2 where w2: "w2 = ?w\<lparr> kw_mmaps := m2 \<rparr>" "err2 \<noteq> 0 \<longrightarrow> m2 = m"
      using recv by (auto simp: w1 dtld_qp_init_recv_def Let_def split: option.splits if_splits)
    show ?thesis
    proof (cases "err2 = 0")
      case False
      obtain qp' where "from_init_err pd None rcq scq qp2 w2 = (qp', w\<lparr> kw_mmaps := m \<rparr>)" "dq_scq qp' = None"
        using err_untakes[OF assms(4), of qp2 m] w2 False by auto
      with True False unfold recv show ?thesis
        unfolding m_def[symmetric] by (simp add: cleanup_null)
    next
      case ok: True
      let ?qp2 = "qp2\<lparr> dq_attr := (dq_attr qp2)\<lparr> qa_qp_state := IB_QPS_RESET \<rparr>, dq_valid := True \<rparr>"
      have "dtld_qp_do_cleanup ?qp2 w2 = Ok (?qp2\<lparr> dq_valid := False \<rparr>, w\<lparr> kw_mmaps := m2 \<rparr>)"
        unfolding w2(1) by (rule cleanup_untakes[OF assms(4)]) (simp_all add: qp2)
      with True ok unfold recv show ?thesis
        by auto
    qed
  qed
qed

definition sample_kdev :: kdev where
  "sample_kdev = \<lparr> kd_max_qp_wr = 1048576, kd_max_send_sge = 32, kd_max_recv_sge = 32, kd_max_inline_data = 512, kd_max_qp_rd_atom = 128, kd_max_mtu = 5 \<rparr>"

definition sample_qp_init :: ib_qp_init_attr where
  "sample_qp_init = \<lparr> qi_qp_type = IB_QPT_RC, qi_send_cq = Some 1, qi_recv_cq = Some 2, qi_srq = None,
     qi_cap = \<lparr> cap_max_send_wr = 64, cap_max_recv_wr = 64, cap_max_send_sge = 4, cap_max_recv_sge = 4, cap_max_inline_data = 0 \<rparr>,
     qi_sq_sig_type = 0 \<rparr>"

definition sample_kapi :: kapi where
  "sample_kapi = \<lparr> ka_modify_ok = (\<lambda>_ _ _. True), ka_port_valid = (\<lambda>p. p = 1), ka_mtu = (\<lambda>m. push_bit (unat m + 7) 1),
     ka_roundup = (\<lambda>n. if n \<le> 128 then n else 256), ka_sge_size = 16 \<rparr>"

definition sample_wq :: dtld_wq where
  "sample_wq = \<lparr> wq_max_wr = 0, wq_max_sge = 0, wq_max_inline = 0, wq_ummap_ent = None, wq_queue = None \<rparr>"

definition sample_kqp :: dtld_qp where
  "sample_kqp = \<lparr> dq_index = 17, dq_qp_num = 0,
     dq_attr = \<lparr> qa_qp_state = IB_QPS_RESET, qa_cur_qp_state = IB_QPS_RESET, qa_path_mtu = 0, qa_path_mig_state = 0, qa_qkey = 0, qa_rq_psn = 0,
       qa_sq_psn = 0, qa_dest_qp_num = 0, qa_qp_access_flags = 0, qa_cap = qi_cap sample_qp_init, qa_pkey_index = 0, qa_alt_pkey_index = 0,
       qa_en_sqd_async_notify = 0, qa_sq_draining = 0, qa_max_rd_atomic = 0, qa_max_dest_rd_atomic = 0, qa_min_rnr_timer = 0, qa_port_num = 0,
       qa_timeout = 0, qa_retry_cnt = 0, qa_rnr_retry = 0, qa_alt_port_num = 0, qa_alt_timeout = 0 \<rparr>,
     dq_valid = False, dq_mtu = 0, dq_pd = None, dq_srq = None, dq_scq = None, dq_rcq = None, dq_sq_sig_type = 0, dq_sq = sample_wq,
     dq_rq = sample_wq, dq_req_state = QP_STATE_RESET, dq_resp_state = QP_STATE_RESET, dq_ssn = 0 \<rparr>"

definition sample_kworld :: kworld where
  "sample_kworld = \<lparr> kw_refs = (\<lambda>_. 1), kw_num_wq = (\<lambda>_. 0), kw_mmaps = {}, kw_queues_freed = [] \<rparr>"

theorem qp_references_balanced_witness:
  "\<exists>err qp' uresp' w'. dtld_qp_chk_init sample_kdev sample_qp_init = 0 \<and>
    dtld_qp_from_init sample_kapi \<lparr> um_ent = Some 7, um_code = 0, um_offset = 4096 \<rparr> \<lparr> um_ent = None, um_code = 0, um_offset = 0 \<rparr> 3 sample_qp_init
      \<lparr> ur_sq_offset = 0, ur_sq_len = 0, ur_rq_offset = 0, ur_rq_len = 0 \<rparr> sample_kqp sample_kworld = Ok (err, qp', uresp', w') \<and>
    (if err = 0 then \<exists>qp'' m. dtld_qp_do_cleanup qp' w' = Ok (qp'', sample_kworld\<lparr> kw_mmaps := m \<rparr>)
     else dtld_qp_do_cleanup qp' w' = Err NullDeref \<and> w' = sample_kworld\<lparr> kw_mmaps := {7} \<rparr>)"
proof -
  let ?um = "\<lparr> um_ent = Some 7, um_code = 0, um_offset = 4096 \<rparr>" and ?um' = "\<lparr> um_ent = None, um_code = 0, um_offset = 0 \<rparr>"
  have chk: "dtld_qp_chk_init sample_kdev sample_qp_init = 0"
    by (simp add: dtld_qp_chk_init_def dtld_qp_chk_cap_def sample_kdev_def sample_qp_init_def)
  have m: "(case um_ent ?um of Some ent \<Rightarrow> if um_code ?um = 0 then insert ent (kw_mmaps sample_kworld) else kw_mmaps sample_kworld
      | None \<Rightarrow> kw_mmaps sample_kworld) = {7}"
    by (simp add: sample_kworld_def)
  have "\<exists>err qp' uresp' w'. dtld_qp_from_init sample_kapi ?um ?um' 3 sample_qp_init
      \<lparr> ur_sq_offset = 0, ur_sq_len = 0, ur_rq_offset = 0, ur_rq_len = 0 \<rparr> sample_kqp sample_kworld = Ok (err, qp', uresp', w') \<and>
    (if err = 0 then \<exists>qp'' m. dtld_qp_do_cleanup qp' w' = Ok (qp'', sample_kworld\<lparr> kw_mmaps := m \<rparr>)
     else dtld_qp_do_cleanup qp' w' = Err NullDeref \<and> w' = sample_kworld\<lparr> kw_mmaps := {7} \<rparr>)"
    by (rule qp_references_balanced[where dtld = sample_kdev and um_s = ?um and rcq = 2 and scq = 1 and w = sample_kworld, unfolded m])
      (simp_all add: chk, simp_all add: sample_qp_init_def sample_kqp_def sample_wq_def sample_kworld_def referenced_def)
  with chk show ?thesis
    by simp
qed

end
