(* ===== verification/Spec2Isabelle.thy ===== *)
theory Spec2Isabelle
  imports Rdma_Types Sliding_Window Ringbuf Host_Descriptors Round_Robin Op_Ctx Resources Retry Responser Checker
    Page_Table Device Work_Poller Soft_Schedule Nic Csr Kernel_Queue Kernel_Pool Kernel_Qp
begin

text \<open>
  Verification of an RDMA driver: the user space driver in Rust, \<^verbatim>\<open>src/rust_driver/src\<close>, with the card that it
  emulates in software, and the kernel module in C, \<^verbatim>\<open>src/driver\<close>. A path \<^verbatim>\<open>src/...\<close> of a Rust file in the other
  theories is relative to \<^verbatim>\<open>src/rust_driver\<close>, a path \<^verbatim>\<open>driver/...\<close> to \<^verbatim>\<open>src\<close>.

  \<^bold>\<open>The program.\<close> A user registers memory regions and creates queue pairs with the device (\<^verbatim>\<open>lib.rs\<close>, \<^verbatim>\<open>pd.rs\<close>, \<^verbatim>\<open>mr.rs\<close>,
  \<^verbatim>\<open>qp.rs\<close>), which sends control descriptors to the card and waits for the answers (\<^verbatim>\<open>ctrl_poller.rs\<close>, \<^verbatim>\<open>op_ctx.rs\<close>). A write or a
  read becomes a work descriptor. The scheduler cuts it at multiples of its size, and a strategy orders the
  pieces (\<^verbatim>\<open>device/scheduler\<close>). The descriptors cross ring buffers (\<^verbatim>\<open>device/ringbuf.rs\<close>) as bit fields
  (\<^verbatim>\<open>device/layout.rs\<close>, \<^verbatim>\<open>device/types.rs\<close>) to the card, which may be hardware, a simulator or the software card
  (\<^verbatim>\<open>device/software\<close>) that sends packets over UDP itself. The card reports packets through another ring; the work
  poller (\<^verbatim>\<open>work_poller.rs\<close>) hands them to the packet checker (\<^verbatim>\<open>checker.rs\<close>), which follows the messages, acknowledges
  them (\<^verbatim>\<open>responser.rs\<close>, \<^verbatim>\<open>buf.rs\<close>), asks for what is missing and recovers queue pairs, or to the network interface (\<^verbatim>\<open>nic.rs\<close>).
  Messages without an answer are sent again (\<^verbatim>\<open>retry.rs\<close>). The kernel module allocates the rings and maps them and the
  registers of the card into the process.

  \<^bold>\<open>The theories.\<close> The state of a component is a record with the fields of its struct, an enum is a datatype, an
  operation a function with the name of the method, where needed with the name of the type or of the component in front or
  behind (\<^const>\<open>Ringbuf_new\<close> is \<^verbatim>\<open>Ringbuf::new\<close>). A fallible operation returns a sum whose left side is the
  error, a panic is an error of its own, and an early return leaves the state as the code does.

  \<^item> \<^verbatim>\<open>Prelude\<close>, \<^verbatim>\<open>BTree_Map\<close>: machine integers, results, byte order; the standard library's ordered map with its contract.
  \<^item> \<^verbatim>\<open>Rdma_Types\<close>: \<^verbatim>\<open>types.rs\<close> and the arithmetic of \<^verbatim>\<open>utils.rs\<close>. Circular order of the 24 bit numbers; the number of packets
    of a message is that of its cuts at multiples of the path MTU.
  \<^item> \<^verbatim>\<open>Ringbuf\<close>: both directions of a ring are lossless ordered queues under any interleaving of driver and card (locale
    \<open>fifo_link\<close>), and the slots stay in the buffer.
  \<^item> \<^verbatim>\<open>Layout\<close>, \<^verbatim>\<open>Descriptors\<close>, \<^verbatim>\<open>Host_Descriptors\<close>: every field that an encoder writes reads back, a report decodes to what the card
    wrote, and exactly when decoding panics.
  \<^item> \<^verbatim>\<open>Scheduler\<close>, \<^verbatim>\<open>Round_Robin\<close>: the pieces of a descriptor are its packets, with the right numbers; the thread keeps the order of each
    queue pair and drains its queues (locale \<open>scheduler_strategy\<close>).
  \<^item> \<^verbatim>\<open>Op_Ctx\<close>, \<^verbatim>\<open>Resources\<close>, \<^verbatim>\<open>Page_Table\<close>: the wake up of a single waiting thread is not lost, that of a second one may be; buffers are reused in turn, numbers in use are not handed out
    (locale \<open>id_pool\<close>), page table ranges are disjoint until a freed range has the length at which an earlier block ends, and a run that hands one out twice (locale \<open>range_allocator\<close>).
  \<^item> \<^verbatim>\<open>Sliding_Window\<close>, \<^verbatim>\<open>Checker\<close>, \<^verbatim>\<open>Responser\<close>, \<^verbatim>\<open>Retry\<close>: the window is complete exactly when every packet arrived; the checker does not panic
    on the events of a card that keeps its promise about the expected number,
    and what it does with each packet; the bytes of an acknowledgement; a message is sent a bounded number of times and then reported.
  \<^item> \<^verbatim>\<open>Device\<close>, \<^verbatim>\<open>Work_Poller\<close>: a protection domain in use is kept by every operation; the reader of reports ends.
  \<^item> \<^verbatim>\<open>Soft_Packet\<close>, \<^verbatim>\<open>Soft_Codec\<close>, \<^verbatim>\<open>Soft_Logic\<close>, \<^verbatim>\<open>Soft_Write\<close>, \<^verbatim>\<open>Soft_Schedule\<close>: a message survives the wire whatever the network changes outside of the
    check sum, the packets of a descriptor are its pieces, and after the peer received them its memory holds the bytes of the
    sender at the remote address and is otherwise unchanged; which accesses the key check lets pass.
  \<^item> \<^verbatim>\<open>Nic\<close>: neighbours are learned from the frames that the card reports; the first frame that is sent panics.
  \<^item> \<^verbatim>\<open>Csr\<close>, \<^verbatim>\<open>Kernel_Context\<close>: the register map, the start of the hardware device and the user context of the kernel module. The card
    is told the addresses that the kernel allocated; a context is released completely, and a failure reported as success is released twice.
  \<^item> \<^verbatim>\<open>Kernel_Queue\<close>, \<^verbatim>\<open>Kernel_Pool\<close>, \<^verbatim>\<open>Kernel_Qp\<close>: the shared circular buffer is a queue, the pools find only objects that are allocated unless the indices wrap around, and the references
    of a queue pair are balanced.

  This theory composes them: a message goes from the reports in the ring through the poller and the checker to its
  acknowledgement, and a write goes from the scheduler through the software cards into the memory of the peer.

  \<^bold>\<open>Time, threads and loops.\<close> A structure behind a lock changes in single steps. Where the order of the steps of several threads or of driver and
  card matters (rings, queues, operation contexts, pools) there is a step relation and the theorems hold for every interleaving. A loop
  that waits for another party recurses over the list of what it reads, so that a list that lets it through gives
  its result and a list that does not gives a value of its own (\<open>Waiting\<close>, \<open>WaitsForever\<close>, \<^const>\<open>None\<close>); the loop of a thread
  recurses over the events it takes. The loops over data terminate, by a decreasing length; only the loop that splits a descriptor
  would run for ever if a piece had no length; it is a partial function, and \<^verbatim>\<open>split_descriptor_pieces\<close> shows that it returns. No model has fuel. The clock is an argument. Unsigned integers are words and wrap (lengths of lists and reference counts are natural numbers);
  the debug assertions and overflow checks of a debug build are left out, as are log messages and the texts of errors.

  \<^bold>\<open>Parameters.\<close> The CRC function, the adaptor of the device (which pushes succeed, how addresses are translated, what the card answers),
  what \<^verbatim>\<open>smoltcp\<close> does in a turn, and in the kernel module the results of kernel functions are arguments. A
  theorem that relies on how such code behaves says so in a hypothesis, and its witness gives an instance.

  \<^bold>\<open>Not modelled.\<close> The wrappers of \<^verbatim>\<open>mmap\<close> and of the allocator in \<^verbatim>\<open>utils.rs\<close>, the sockets, the starting and joining of threads, and the exchange of the
  emulated device with its simulator in \<^verbatim>\<open>emulated/rpc_cli.rs\<close>: they have no logic of their own beyond the call. The remaining code of
  \<^verbatim>\<open>emulated/mod.rs\<close> and the locking pushes and pops of \<^verbatim>\<open>hardware/mod.rs\<close> repeat the ring and descriptor operations. In the kernel
  module the registration of the device, the bring up of the PCI function (\<^verbatim>\<open>libxdma.c\<close>, \<^verbatim>\<open>xdma.c\<close>, the probe of \<^verbatim>\<open>dtld.c\<close>) and the pinning
  of memory (\<^verbatim>\<open>dtld_mr.c\<close>) are sequences of kernel calls. The code of \<^verbatim>\<open>dtld_pool.c\<close>, \<^verbatim>\<open>dtld_qp.c\<close>, \<^verbatim>\<open>dtld_cq.c\<close> and \<^verbatim>\<open>dtld_queue.h\<close> is modelled although no
  verb that the module registers calls it yet. The tests and the examples only call the driver.
\<close>

section \<open>From the reports of the card to the acknowledgement\<close>

text \<open>A message in order: one first packet, middle packets, one last packet, all as the card expects them.\<close>

definition in_order_packet :: "Qpn \<Rightarrow> Msn \<Rightarrow> ToHostWorkRbDescWriteOrReadResp \<Rightarrow> bool" where
  "in_order_packet qpn msn d \<longleftrightarrow>
     hw_status (ho_common d) = StNormal \<and> hw_dqpn (ho_common d) = qpn \<and> hw_msn (ho_common d) = msn \<and>
     hw_expected_psn (ho_common d) = ho_psn d \<and> \<not> ho_is_read_resp d"

lemma handle_in_order:
  assumes "in_order_packet qpn msn d" "pc_qp_table s qpn = Some qp" "qc_status qp = Normal"
  shows "handle_check_event crc32 (EvWrite d) s = handle_qp_normal crc32 d s"
  using assms by (simp add: in_order_packet_def handle_check_event_def Let_def)

lemma middles_skip:
  assumes "list_all (\<lambda>d. in_order_packet qpn msn d \<and> ho_write_type d = WtMiddle) ds"
    and "pc_qp_table s qpn = Some qp" "qc_status qp = Normal"
  shows "working_thread crc32 (map EvWrite ds @ events) s = working_thread crc32 events s"
  using assms
  by (induction ds) (auto simp: handle_in_order handle_qp_normal_def Let_def)

lemma last_acknowledged:
  assumes "in_order_packet qpn msn d" "ho_write_type d = WtLast" "\<not> ho_can_auto_ack d"
    and "pc_qp_table s qpn = Some qp" "qc_status qp = Normal" "bufs_ok s" "pc_work_ok s"
  obtains s' slot a bytes where "handle_check_event crc32 (EvWrite d) s = Ok s'"
    "make_ack crc32 slot (pc_ack_mem s (slot_ptr slot)) (pc_qp_table s) qpn msn (ho_psn d) = Ok (Ok a, bytes)"
    "pc_work_sent s' = pc_work_sent s @ [a]" "pc_ack_mem s' (slot_ptr slot) = bytes"
    "pc_recv_ctx_map s' = remove_ctx qpn msn (pc_recv_ctx_map s)" "map_of (rm_map (pc_retry_map s')) (qpn, msn) = None"
proof -
  let ?s = "with_recv (remove_ctx qpn msn) s"
  let ?make = "\<lambda>slot bytes qp_table. make_ack crc32 slot bytes qp_table qpn msn (ho_psn d)"
  have bufs: "bufs_ok ?s"
    using assms(6) by (simp add: bufs_ok_def with_recv_def)
  have made: "\<exists>a bytes'. ?make slot bytes (pc_qp_table s) = Ok (Ok a, bytes') \<and> length bytes' = 128"
    if "length bytes = 128" for slot bytes
    using make_ack_or_nack_Ok[OF that, of crc32 slot "pc_qp_table s" qpn msn "ho_psn d" None] assms(4)
    by (auto simp: make_ack_def make_ack_or_nack_def with_imm_def with_sge_def with_common_def Builder_new_def build_def
        build_write_def pop_def Let_def result_bind_Inr_iff)
  have made': "\<exists>r bytes'. ?make slot bytes (pc_qp_table ?s) = Ok (r, bytes') \<and> length bytes' = 128" if "length bytes = 128" for slot bytes
    using made[OF that] by (fastforce simp: with_recv_def)
  obtain slot bufs r bytes where r: "?make slot (pc_ack_mem ?s (slot_ptr slot)) (pc_qp_table ?s) = Ok (r, bytes)"
    and sent: "send_slot ?make ?s = Ok (?s\<lparr> pc_ack_buffers := bufs, pc_ack_mem := (pc_ack_mem ?s)(slot_ptr slot := bytes),
       pc_work_sent := pc_work_sent ?s @ (case r of Inr d \<Rightarrow> if pc_work_ok ?s then [d] else [] | Inl _ \<Rightarrow> []) \<rparr>)"
    by (rule send_slot_cases[OF bufs, where make_packet = ?make, OF made'])
  obtain a where a: "r = Ok a"
    using made[of "pc_ack_mem s (slot_ptr slot)" slot] r assms(6) by (auto simp: bufs_ok_def with_recv_def)
  have "handle_check_event crc32 (EvWrite d) s = Ok (cancel_retry qpn msn (?s\<lparr> pc_ack_buffers := bufs,
      pc_ack_mem := (pc_ack_mem s)(slot_ptr slot := bytes), pc_work_sent := pc_work_sent s @ [a] \<rparr>))"
    using handle_in_order[OF assms(1,4,5), of crc32] assms(1-3,7) sent a
    by (simp add: handle_qp_normal_def in_order_packet_def send_ack_def with_recv_def Let_def)
  then show ?thesis
    by (rule that[of _ slot a bytes]) (use r a in \<open>simp_all add: cancel_retry_def with_recv_def retry_cancel_gone\<close>)
qed

lemma poll_packets:
  assumes "list_all (\<lambda>d. hw_status (ho_common d) = StNormal) ds" "wp_checker_open ctx" "wp_nic_open ctx"
  shows "\<exists>ctx'. poll_working_thread (map (\<lambda>d. Ok (HWriteOrReadResp d)) ds) ctx = Ok (True, ctx') \<and>
    wp_checker_channel ctx' = wp_checker_channel ctx @ map EvWrite ds"
  using assms
proof (induction ds arbitrary: ctx)
  case (Cons d ds)
  then show ?case
    using Cons.IH[of "ctx\<lparr> wp_checker_channel := wp_checker_channel ctx @ [EvWrite d] \<rparr>"]
    by (simp add: handle_work_desc_def handle_work_desc_to_checker_def)
qed simp

lemma first_opens:
  assumes "in_order_packet qpn msn d" "ho_write_type d = WtFirst" "pc_qp_table s qpn = Some qp" "qc_status qp = Normal"
    and "checker_inv s"
  obtains m p where "handle_check_event crc32 (EvWrite d) s = Ok (s\<lparr> pc_recv_ctx_map := m \<rparr>)" "m qpn = Some p" "bt_invar (pq_map p)"
proof -
  have ok: "bt_invar (pq_map p)" if "pc_recv_ctx_map s qpn = Some p" for p
    using assms(5) that by (auto simp: checker_inv_def recv_inv_def pq_ok_def)
  show ?thesis
  proof (cases "query_recent_msn_status qpn msn (pc_recv_ctx_map s) = NoExist")
    case True
    let ?m = "insert_ctx qpn msn (RecvContext_from d) (pc_recv_ctx_map s)"
    have "\<exists>p. ?m qpn = Some p \<and> bt_invar (pq_map p)"
      using ok by (auto simp: insert_ctx_def PerQpContextMap_new_def bt.invar_ins Let_def split: option.split)
    with True show ?thesis
      using handle_in_order[OF assms(1,3,4), of crc32] assms(1,2) that
      by (auto simp: handle_qp_normal_def in_order_packet_def with_recv_def Let_def)
  next
    case False
    then obtain p where "pc_recv_ctx_map s qpn = Some p"
      by (auto simp: query_recent_msn_status_def split: option.splits)
    with False show ?thesis
      using handle_in_order[OF assms(1,3,4), of crc32] assms(1,2) ok that[of "pc_recv_ctx_map s"]
      by (auto simp: handle_qp_normal_def in_order_packet_def Let_def)
  qed
qed

text \<open>
  C1. A write message from the ring to its acknowledgement: the card reports the first, the middle and the last
  packet of a message, in order, in slots of the ring to the host, for a queue pair that
  is in order. Then the descriptors are taken from the ring, one for each slot, the polling thread
  passes them on, and the checker, however many packets there are, does not panic, sends
  exactly one packet, the acknowledgement of the message with the number of its last packet, keeps no context of the
  message, and no longer retries it.
\<close>

theorem message_acknowledged:
  assumes "list_all2 reports slots (d1 # ds @ [dn])"
    and "list_all (in_order_packet qpn msn) (d1 # ds @ [dn])"
    and "ho_write_type d1 = WtFirst" "list_all (\<lambda>d. ho_write_type d = WtMiddle) ds" "ho_write_type dn = WtLast"
    and "\<not> ho_can_auto_ack dn"
    and "checker_inv s" "pc_qp_table s qpn = Some qp" "qc_status qp = Normal" "pc_work_ok s"
    and "wp_checker_open ctx" "wp_nic_open ctx" "wp_checker_channel ctx = []"
  shows "\<exists>results ctx' s' slot a bytes.
    pop_many (length slots) slots = Some (Ok (results, [])) \<and>
    poll_working_thread results ctx = Ok (True, ctx') \<and>
    working_thread crc32 (wp_checker_channel ctx') s = Ok s' \<and>
    make_ack crc32 slot (pc_ack_mem s (slot_ptr slot)) (pc_qp_table s) qpn msn (ho_psn dn) = Ok (Ok a, bytes) \<and>
    pc_work_sent s' = pc_work_sent s @ [a] \<and> pc_ack_mem s' (slot_ptr slot) = bytes \<and>
    get_ctx_mut qpn msn (pc_recv_ctx_map s') = None \<and> map_of (rm_map (pc_retry_map s')) (qpn, msn) = None"
proof -
  let ?ds = "d1 # ds @ [dn]"
  have len: "length slots = length ?ds"
    by (rule list_all2_lengthD[OF assms(1)])
  have pops: "pop_many (length slots) slots = Some (Ok (map (\<lambda>d. Ok (HWriteOrReadResp d)) ?ds, []))"
    using pop_many_reports[OF assms(1), of "[]"] len by simp
  obtain ctx' where poll: "poll_working_thread (map (\<lambda>d. Ok (HWriteOrReadResp d)) ?ds) ctx = Ok (True, ctx')"
    "wp_checker_channel ctx' = map EvWrite ?ds"
    using poll_packets[of ?ds ctx] assms(2,11-13) by (auto simp: in_order_packet_def list_all_iff)
  have pkt: "in_order_packet qpn msn d1" "in_order_packet qpn msn dn"
    "list_all (\<lambda>d. in_order_packet qpn msn d \<and> ho_write_type d = WtMiddle) ds"
    using assms(2,4) by (simp_all add: list_all_iff)
  obtain m p where first: "handle_check_event crc32 (EvWrite d1) s = Ok (s\<lparr> pc_recv_ctx_map := m \<rparr>)"
    and m: "m qpn = Some p" "bt_invar (pq_map p)"
    by (rule first_opens[OF pkt(1) assms(3,8,9,7)])
  let ?s = "s\<lparr> pc_recv_ctx_map := m \<rparr>"
  obtain s' slot a bytes where last: "handle_check_event crc32 (EvWrite dn) ?s = Ok s'"
    "make_ack crc32 slot (pc_ack_mem ?s (slot_ptr slot)) (pc_qp_table ?s) qpn msn (ho_psn dn) = Ok (Ok a, bytes)"
    "pc_work_sent s' = pc_work_sent ?s @ [a]" "pc_ack_mem s' (slot_ptr slot) = bytes"
    "pc_recv_ctx_map s' = remove_ctx qpn msn (pc_recv_ctx_map ?s)" "map_of (rm_map (pc_retry_map s')) (qpn, msn) = None"
    by (rule last_acknowledged[OF pkt(2) assms(5,6), of ?s qp crc32])
      (use assms(7-10) in \<open>auto simp: checker_inv_def bufs_ok_def\<close>)
  have "working_thread crc32 (map EvWrite ?ds) s = Ok s'"
    using middles_skip[OF pkt(3), of ?s qp crc32 "[EvWrite dn]"] assms(8,9) first last(1) by simp
  moreover have "get_ctx_mut qpn msn (pc_recv_ctx_map s') = None"
    using m by (simp add: last(5) get_ctx_mut_def remove_ctx_def bt_get_remove)
  ultimately show ?thesis
    using pops poll last(2-4,6) by (intro exI[of _ "map (\<lambda>d. Ok (HWriteOrReadResp d)) ?ds"] exI[of _ ctx'] exI[of _ s']
      exI[of _ slot] exI[of _ a] exI[of _ bytes]) simp
qed

theorem message_acknowledged_witness:
  "\<exists>slots results ctx' s' a.
     pop_many 3 slots = Some (Ok (results, [])) \<and>
     poll_working_thread results \<lparr> wp_checker_channel = [], wp_nic_channel = [], wp_checker_open = True, wp_nic_open = True \<rparr> =
       Ok (True, ctx') \<and>
     working_thread (\<lambda>_. 0) (wp_checker_channel ctx') sample_checker = Ok s' \<and> pc_work_sent s' = [a] \<and>
     get_ctx_mut (psn_new 3) (Msn 1) (pc_recv_ctx_map s') = None"
proof -
  let ?d1 = "sample_packet WtFirst 5 5" and ?d2 = "sample_packet WtMiddle 6 6" and ?d3 = "sample_packet WtLast 7 7"
  let ?ctx = "\<lparr> wp_checker_channel = [], wp_nic_channel = [], wp_checker_open = True, wp_nic_open = True \<rparr>"
  have "report_wf RdmaWriteFirst ?d1" "report_wf RdmaWriteMiddle ?d2" "report_wf RdmaWriteLast ?d3"
    by (simp_all add: report_wf_def sample_packet_def opcode_is_read_resp_def)
  then obtain r1 r2 r3 where "reports r1 ?d1" "reports r2 ?d2" "reports r3 ?d3"
    using report_exists by meson
  then have slots: "list_all2 reports [r1, r2, r3] (?d1 # [?d2] @ [?d3])"
    by simp
  have "in_order_packet (psn_new 3) (Msn 1) (sample_packet t p p)" for t p
    by (simp add: in_order_packet_def sample_packet_def)
  moreover have "checker_inv sample_checker"
    by (rule checker_inv_start) (simp add: checker_start_def sample_defs out_of_order_def bufs_ok_def)
  moreover have "pc_work_ok sample_checker" "pc_work_sent sample_checker = []" "\<not> ho_can_auto_ack ?d3"
    by (simp_all add: sample_defs)
  ultimately show ?thesis
    using message_acknowledged[OF slots, of "psn_new 3" "Msn 1" sample_checker sample_qp ?ctx "\<lambda>_. 0"]
    by (simp add: sample_proj eval_nat_numeral) blast
qed

section \<open>From a work descriptor to the memory of the peer\<close>

text \<open>
  C2. A write that the scheduler splits and sends through the software card arrives: the splitting ends without a panic,
  all pieces are sent, and a peer whose memory region grants the write and that receives these packets, with any
  change of the header bytes that routers may change, has the bytes of the local buffer at the remote address
  and a report in order for each packet of the unsplit descriptor. No other byte of its memory outside the
  receive buffer changes.
\<close>

theorem scheduled_write_arrives:
  assumes "splittable d S" "sole_sge d" "write_ok d" "unat (pmtu_u32 (wc_pmtu (work_common d))) dvd unat S"
    and "desc_len d = unat (wc_total_len (work_common d))" "accepting sock"
    and "grants logic (SKey (key_get (wc_rkey (work_common d)))) (wc_raddr (work_common d)) (desc_len d)"
    and "off_buffer buf (wc_raddr (work_common d)) (desc_len d)"
  shows "\<exists>ds s' packets. split_descriptor d S = Some (Ok ds) \<and> send_descs (udp_agent crc32 sock mem) ds s = Ok s' \<and>
    us_datagrams s' = us_datagrams s @ map (\<lambda>p. (wc_dqp_ip (work_common d), DEST_PORT, p)) packets \<and>
    (\<forall>received mem'. list_all2 same_invariant packets received \<longrightarrow>
       (\<exists>peer. receive_datagrams crc32 buf received mem' logic = Ok peer \<and>
          arrived buf (wc_raddr (work_common d)) (desc_bytes mem d) (map (packet_bytes mem) (desc_packets d)) (mem', logic) peer))"
proof -
  have "split_descriptor d S = Some (Ok (split_spec d S))"
    by (rule split_descriptor_spec[OF assms(1)])
  then show ?thesis
    using split_write_arrives[OF assms, of crc32 mem s] by (intro exI[of _ "split_spec d S"]) simp
qed

definition sample_split :: ToCardWorkRbDesc where
  "sample_split = CWrite \<lparr> cw_common = ToCardWorkRbDescCommon_default\<lparr> wc_total_len := 600, wc_raddr := 200 \<rparr>,
     cw_is_last = True, cw_is_first = True, cw_sge0 = \<lparr> ds_addr = 1000, ds_len = 600, ds_key = Key 5 \<rparr>,
     cw_sge1 = None, cw_sge2 = None, cw_sge3 = None \<rparr>"

theorem scheduled_write_arrives_witness:
  "\<exists>ds s' packets. split_descriptor sample_split 512 = Some (Ok ds) \<and>
     send_descs (udp_agent (\<lambda>bs. 0) (\<lambda>ds. case last ds of (_, _, b) \<Rightarrow> Ok (length b)) ucast) ds
       \<lparr> us_sending_id_counter = 0, us_src_addr = 1, us_src_port = 4791, us_datagrams = [] \<rparr> = Ok s' \<and>
     us_datagrams s' = map (\<lambda>p. (0, DEST_PORT, p)) packets \<and>
     (\<exists>mem' logic'. receive_datagrams (\<lambda>bs. 0) 0x100000 packets (\<lambda>_. 0) sample_logic = Ok (mem', logic') \<and>
        read_mem mem' 200 600 = read_mem ucast 1000 600)"
proof -
  let ?sock = "\<lambda>ds :: (Ipv4Addr \<times> u16 \<times> u8 list) list. case last ds of (_, _, b) \<Rightarrow> Ok (length b)"
  let ?agent = "\<lparr> us_sending_id_counter = 0, us_src_addr = 1, us_src_port = 4791, us_datagrams = [] \<rparr>"
  let ?c = "work_common sample_split"
  have sole: "sole_sge sample_split"
    by (simp add: sole_sge_def sample_split_def)
  have d: "desc_len sample_split = 600" "desc_bytes ucast sample_split = read_mem ucast 1000 600"
    using sole_sge_bytes[OF sole] by (simp_all add: sample_split_def)
  have c: "wc_dqp_ip ?c = 0" "wc_raddr ?c = 200" "wc_rkey ?c = Key 0" "unat (wc_total_len ?c) = 600"
    by (simp_all add: sample_split_def ToCardWorkRbDescCommon_default_def)
  have "splittable sample_split 512" "write_ok sample_split" "unat (pmtu_u32 (wc_pmtu ?c)) dvd unat (512 :: u32)"
    using d(1) by (simp_all add: splittable_def write_ok_def is_raw_packet_def write_descriptor_def sample_split_def
        ToCardWorkRbDescCommon_default_def psn_ok_def)
  note ok = this(1) sole this(2,3)
  have "accepting ?sock"
    by (simp add: accepting_def)
  then obtain ds s' packets where sent: "split_descriptor sample_split 512 = Some (Ok ds)"
    "send_descs (udp_agent (\<lambda>bs. 0) ?sock ucast) ds ?agent = Ok s'" "us_datagrams s' = map (\<lambda>p. (0, DEST_PORT, p)) packets"
    "\<forall>received mem'. list_all2 same_invariant packets received \<longrightarrow>
       (\<exists>peer. receive_datagrams (\<lambda>bs. 0) 0x100000 received mem' sample_logic = Ok peer \<and>
          arrived 0x100000 200 (read_mem ucast 1000 600) (map (packet_bytes ucast) (desc_packets sample_split)) (mem', sample_logic) peer)"
    using scheduled_write_arrives[OF ok, of ?sock sample_logic "0x100000" "\<lambda>bs. 0" ucast ?agent] sample_grants sample_off_buffer
    by (auto simp: c d)
  have "list_all2 same_invariant packets packets"
    by (simp add: list.rel_refl same_invariant_def)
  then obtain mem' logic' where "receive_datagrams (\<lambda>bs. 0) 0x100000 packets (\<lambda>_. 0) sample_logic = Ok (mem', logic')"
    "read_mem mem' 200 600 = read_mem ucast 1000 600"
    using sent(4)[rule_format, of packets "\<lambda>_. 0"] by (auto simp: arrived_def)
  then show ?thesis
    using sent(1-3) by (intro exI[of _ ds] exI[of _ s'] exI[of _ packets]) simp
qed

end
